(* ===== verification/Prelude.thy ===== *)
theory Prelude
  imports Main "HOL-Library.Word"
begin

text \<open>
  Shared vocabulary of the development: byte strings and machine words, the outcome type of the
  engine's fallible functions, the collections of rewrite rules the component proofs draw on, and
  the generic facts on lists and words that several components need.  Nothing here is specific to
  one source file.
\<close>

unbundle bit_operations_syntax

section \<open>Types\<close>

type_synonym u8 = "8 word"
type_synonym u32 = "32 word"
type_synonym u64 = "64 word"

text \<open>A memory buffer, a \<open>std::vector<uint8_t>\<close>, a \<open>SecureBuffer\<close> or a \<open>std::string\<close>.\<close>

type_synonym bytes = "u8 list"

text \<open>The bytes of an ASCII string literal of the source.\<close>

definition ascii :: "string \<Rightarrow> bytes" where
  "ascii cs = map of_char cs"

lemma length_ascii [simp]: "length (ascii cs) = length cs"
  by (simp add: ascii_def)

section \<open>Rule collections\<close>

text \<open>\<open>lens\<close>: length facts of encoders and library outputs.\<close>

named_theorems lens

section \<open>Lists\<close>

text \<open>
  \<open>find_index p xs\<close> is \<open>std::find_if\<close>: the position of the first element that satisfies the
  predicate, or none (the end iterator).
\<close>

primrec find_index :: "('a \<Rightarrow> bool) \<Rightarrow> 'a list \<Rightarrow> nat option" where
  "find_index p [] = None"
| "find_index p (x # xs) = (if p x then Some 0 else map_option Suc (find_index p xs))"

lemma find_index_None: "find_index p xs = None \<longleftrightarrow> (\<forall>x \<in> set xs. \<not> p x)"
  by (induction xs) auto

lemma find_index_Some:
  "find_index p xs = Some i \<Longrightarrow> i < length xs \<and> p (xs ! i) \<and> (\<forall>j < i. \<not> p (xs ! j))"
proof (induction xs arbitrary: i)
  case Nil
  then show ?case by simp
next
  case (Cons x xs)
  show ?case
  proof (cases "p x")
    case True
    with Cons.prems show ?thesis by simp
  next
    case False
    with Cons.prems obtain k where k: "find_index p xs = Some k" "i = Suc k" by auto
    with Cons.IH have "k < length xs \<and> p (xs ! k) \<and> (\<forall>j < k. \<not> p (xs ! j))" by blast
    with False k show ?thesis by (auto simp: nth_Cons split: nat.splits)
  qed
qed

lemma find_index_append:
  "find_index p (xs @ ys) =
     (case find_index p xs of Some i \<Rightarrow> Some i
      | None \<Rightarrow> map_option (\<lambda>i. length xs + i) (find_index p ys))"
  by (induction xs) (cases "find_index p ys"; auto split: option.splits)+

text \<open>\<open>vector::erase\<close> at a position.\<close>

definition erase_at :: "nat \<Rightarrow> 'a list \<Rightarrow> 'a list" where
  "erase_at i xs = take i xs @ drop (Suc i) xs"

lemma length_erase_at: "i < length xs \<Longrightarrow> length (erase_at i xs) = length xs - 1"
  by (simp add: erase_at_def)

lemma set_erase_at_subset: "set (erase_at i xs) \<subseteq> set xs"
  by (auto simp: erase_at_def dest: in_set_takeD in_set_dropD)

lemma erase_at_0 [simp]: "erase_at 0 (x # xs) = xs"
  by (simp add: erase_at_def)

lemma erase_at_Suc [simp]: "erase_at (Suc i) (x # xs) = x # erase_at i xs"
  by (simp add: erase_at_def)

lemma distinct_erase_at:
  "distinct (map f xs) \<Longrightarrow> i < length xs \<Longrightarrow>
     distinct (map f (erase_at i xs)) \<and>
     f ` set (erase_at i xs) = f ` set xs - {f (xs ! i)}"
proof (induction xs arbitrary: i)
  case Nil
  then show ?case by simp
next
  case (Cons x xs)
  then show ?case by (cases i) (force simp: image_iff)+
qed

section \<open>Words\<close>

lemma word_less_Suc_unat:
  fixes a b :: "'a::len word"
  assumes "a < b"
  shows "unat (a + 1) = Suc (unat a)"
proof -
  from assms have "unat a < unat b" by (simp add: word_less_nat_alt)
  also have "unat b < 2 ^ LENGTH('a)" by (rule unsigned_less)
  finally have "Suc (unat a) < 2 ^ LENGTH('a) \<or> Suc (unat a) = 2 ^ LENGTH('a)" by linarith
  moreover have "Suc (unat a) \<noteq> 2 ^ LENGTH('a)"
    using \<open>unat a < unat b\<close> \<open>unat b < 2 ^ LENGTH('a)\<close> by linarith
  ultimately show ?thesis by (simp add: unat_word_ariths)
qed

lemma word_less_inc_le: "a < b \<Longrightarrow> a + 1 \<le> b" for a b :: "'a::len word"
  using word_less_Suc_unat [of a b] by (simp add: word_le_nat_alt word_less_nat_alt)

lemma unat_diff_Suc:
  "a < b \<Longrightarrow> unat (b - a) = Suc (unat (b - (a + 1)))" for a b :: "'a::len word"
  using word_less_Suc_unat [of a b] word_less_inc_le [of a b]
  by (simp add: unat_sub word_le_nat_alt word_less_nat_alt)

lemma unat_sub_less: "a < b \<Longrightarrow> unat (b - a) = unat b - unat a" for a b :: "'a::len word"
  by (simp add: unat_sub order_less_imp_le)

lemma word_less_inc: "n \<noteq> - 1 \<Longrightarrow> n < n + 1" for n :: "'a::len word"
proof -
  assume "n \<noteq> - 1"
  moreover have "n \<le> - 1" by simp
  ultimately have "n < - 1" by order
  then show ?thesis using word_less_Suc_unat [of n "- 1"] by (simp add: word_less_nat_alt)
qed

end
