(* ===== verification/Abi.thy ===== *)
theory Abi
  imports Prelude
begin

text \<open>
  The C interface \<open>include/zia/zia_crypto.h\<close>: the fixed sizes, the status codes, the two plain
  structures that cross the boundary, and how the model renders the calling convention.

  An exported function first tests a set of pointers (handles, output locations, some inputs) and
  returns \<open>ZIA_ERR_INVALID_ARG\<close> if one of them is null.  The model passes the conjunction of these
  tests as one Boolean \<open>nn\<close> (``none of the tested pointers is null'').  A buffer whose pointer is
  only tested together with its length is a \<open>cbuf\<close>.  The outcome of a call is a \<open>res\<close>: the values
  written through the output pointers with \<open>ZIA_OK\<close>, an error status, or \<open>Crash\<close> when the code reads
  outside a buffer (undefined behaviour).
\<close>

section \<open>Sizes and status codes\<close>

definition ZIA_PUBLIC_KEY_LEN :: nat where "ZIA_PUBLIC_KEY_LEN = 32"
definition ZIA_SIGNATURE_LEN :: nat where "ZIA_SIGNATURE_LEN = 64"
definition ZIA_ATTACHMENT_KEY_LEN :: nat where "ZIA_ATTACHMENT_KEY_LEN = 32"
definition ZIA_SAFETY_NUMBER_DIGITS :: nat where "ZIA_SAFETY_NUMBER_DIGITS = 60"
definition ZIA_PQ_PUBLIC_KEY_LEN :: nat where "ZIA_PQ_PUBLIC_KEY_LEN = 1184"
definition ZIA_PQ_CIPHERTEXT_LEN :: nat where "ZIA_PQ_CIPHERTEXT_LEN = 1088"

lemmas zia_sizes [simp] =
  ZIA_PUBLIC_KEY_LEN_def ZIA_SIGNATURE_LEN_def ZIA_ATTACHMENT_KEY_LEN_def
  ZIA_SAFETY_NUMBER_DIGITS_def ZIA_PQ_PUBLIC_KEY_LEN_def ZIA_PQ_CIPHERTEXT_LEN_def

datatype ZiaStatus =
    ZIA_OK
  | ZIA_ERR_INVALID_ARG
  | ZIA_ERR_OUT_OF_MEMORY
  | ZIA_ERR_NOT_INITIALIZED
  | ZIA_ERR_ALREADY_INITIALIZED
  | ZIA_ERR_STORAGE_IO
  | ZIA_ERR_CRYPTO_FAILURE
  | ZIA_ERR_SESSION_NOT_FOUND
  | ZIA_ERR_SIGNATURE_INVALID
  | ZIA_ERR_REPLAY_DETECTED
  | ZIA_ERR_SKIPPED_KEY_LIMIT
  | ZIA_ERR_BUNDLE_EXHAUSTED
  | ZIA_ERR_NOT_IMPLEMENTED

datatype 'a res = Ok 'a | Err ZiaStatus | Crash

fun is_Ok :: "'a res \<Rightarrow> bool" where
  "is_Ok (Ok x) = True"
| "is_Ok (Err s) = False"
| "is_Ok Crash = False"

section \<open>Buffers given by pointer and length\<close>

datatype cbuf = NullBuf nat | Buf bytes

primrec buf_len :: "cbuf \<Rightarrow> nat" where
  "buf_len (NullBuf n) = n"
| "buf_len (Buf bs) = length bs"

text \<open>The test \<open>!p && len > 0\<close>.\<close>

primrec buf_bad :: "cbuf \<Rightarrow> bool" where
  "buf_bad (NullBuf n) = (n > 0)"
| "buf_bad (Buf bs) = False"

text \<open>The bytes read through the pointer: none when a null pointer is given with a length.\<close>

primrec buf_read :: "cbuf \<Rightarrow> bytes option" where
  "buf_read (NullBuf n) = (if n = 0 then Some [] else None)"
| "buf_read (Buf bs) = Some bs"

lemma buf_read_None: "buf_read b = None \<longleftrightarrow> buf_bad b"
  by (cases b) auto

section \<open>Prekey bundle and handshake material\<close>

record ZiaPrekeyBundle =
  b_identity_key :: bytes
  b_signed_prekey :: bytes
  b_signed_prekey_signature :: bytes
  b_one_time_prekey :: bytes
  b_has_one_time_prekey :: u8
  b_pq_prekey :: bytes
  b_pq_prekey_signature :: bytes
  b_has_pq_prekey :: u8

record ZiaHandshakeMaterial =
  h_initiator_identity_key :: bytes
  h_initiator_ephemeral_key :: bytes
  h_used_one_time_prekey :: bytes
  h_has_one_time_prekey :: u8
  h_pq_ciphertext :: bytes
  h_has_pq :: u8

end
