(* ===== verification/Libs.thy ===== *)
theory Libs
  imports Abi
begin

text \<open>
  The code the engine calls but does not contain: libsodium, liboqs, the Secret Service, the
  allocator and the file system.  It is a parameter of the model, the record \<open>lib\<close>; every
  definition that needs it takes it as its first argument.

  Randomness is explicit: the environment counts the draws made so far, and a library function that
  consumes entropy takes the number of its draw.  In the same way heap allocations, file-system
  calls and Secret-Service calls are numbered, and \<open>malloc_ok\<close>, \<open>io_ok\<close> and \<open>service_ok\<close> say which
  of them succeed, so that every failure branch of the code is a branch of the model.

  What the code relies on about these functions is stated by the predicates of the second half of
  this theory (\<open>sizes_ok\<close>, \<open>dh_ok\<close>, \<open>aead_ok\<close>, ...), each of them documented behaviour of the library.
\<close>

section \<open>Library functions\<close>

record lib =
  malloc_ok :: "nat \<Rightarrow> nat \<Rightarrow> bool"
  uninit32 :: "bytes \<Rightarrow> bytes"
  io_ok :: "nat \<Rightarrow> bool"
  io_written :: "nat \<Rightarrow> nat"
  service_ok :: "nat \<Rightarrow> bool"
  sodium_init_ok :: bool
  randombytes_buf :: "nat \<Rightarrow> nat \<Rightarrow> bytes"
  crypto_sign_keypair :: "nat \<Rightarrow> bytes \<times> bytes"
  crypto_sign_detached :: "bytes \<Rightarrow> bytes \<Rightarrow> bytes"
  crypto_sign_verify_detached :: "bytes \<Rightarrow> bytes \<Rightarrow> bytes \<Rightarrow> bool"
  crypto_box_keypair :: "nat \<Rightarrow> bytes \<times> bytes"
  crypto_scalarmult :: "bytes \<Rightarrow> bytes \<Rightarrow> bytes option"
  pk_to_curve25519 :: "bytes \<Rightarrow> bytes option"
  sk_to_curve25519 :: "bytes \<Rightarrow> bytes option"
  hmacsha256_init :: "bytes \<Rightarrow> bytes"
  hmacsha256_update :: "bytes \<Rightarrow> bytes \<Rightarrow> bytes"
  hmacsha256_final :: "bytes \<Rightarrow> bytes"
  crypto_auth_hmacsha256 :: "bytes \<Rightarrow> bytes \<Rightarrow> bytes"
  chacha20poly1305_encrypt :: "bytes \<Rightarrow> bytes \<Rightarrow> bytes \<Rightarrow> bytes \<Rightarrow> bytes option"
  chacha20poly1305_decrypt :: "bytes \<Rightarrow> bytes \<Rightarrow> bytes \<Rightarrow> bytes \<Rightarrow> bytes option"
  xchacha20poly1305_encrypt :: "bytes \<Rightarrow> bytes \<Rightarrow> bytes \<Rightarrow> bytes option"
  xchacha20poly1305_decrypt :: "bytes \<Rightarrow> bytes \<Rightarrow> bytes \<Rightarrow> bytes option"
  secretstream_keygen :: "nat \<Rightarrow> bytes"
  secretstream_init_push :: "nat \<Rightarrow> bytes \<Rightarrow> (bytes \<times> bytes) option"
  secretstream_push :: "bytes \<Rightarrow> bytes \<Rightarrow> u8 \<Rightarrow> bytes option"
  secretstream_init_pull :: "bytes \<Rightarrow> bytes \<Rightarrow> bytes option"
  secretstream_pull :: "bytes \<Rightarrow> bytes \<Rightarrow> (bytes \<times> u8) option"
  sha512_init :: "bytes option"
  sha512_update :: "bytes \<Rightarrow> bytes \<Rightarrow> bytes option"
  sha512_final :: "bytes \<Rightarrow> bytes option"
  crypto_box_seal :: "nat \<Rightarrow> bytes \<Rightarrow> bytes \<Rightarrow> bytes option"
  crypto_box_seal_open :: "bytes \<Rightarrow> bytes \<Rightarrow> bytes \<Rightarrow> bytes option"
  crypto_pwhash :: "bytes \<Rightarrow> bytes \<Rightarrow> u64 \<Rightarrow> u64 \<Rightarrow> bytes option"
  crypto_pwhash_str :: "nat \<Rightarrow> bytes \<Rightarrow> bytes option"
  crypto_pwhash_str_verify :: "bytes \<Rightarrow> bytes \<Rightarrow> bool"
  bin2base64 :: "bytes \<Rightarrow> bytes"
  base642bin :: "nat \<Rightarrow> bytes \<Rightarrow> bytes option"
  OQS_keypair :: "nat \<Rightarrow> (bytes \<times> bytes) option"
  OQS_encaps :: "nat \<Rightarrow> bytes \<Rightarrow> (bytes \<times> bytes) option"
  OQS_decaps :: "bytes \<Rightarrow> bytes \<Rightarrow> bytes option"

text \<open>
  Argument order follows the use in the source with the buffers that only receive output left out:
  \<open>crypto_sign_detached\<close> message and secret key; \<open>crypto_sign_verify_detached\<close> signature, message and
  public key; \<open>crypto_scalarmult\<close> scalar and point; \<open>chacha20poly1305_encrypt\<close> message, additional
  data, nonce and key (likewise the decryption); the extended-nonce AEAD has no additional data;
  \<open>secretstream_init_push\<close> draw and key, giving header and state; \<open>crypto_pwhash\<close> passphrase, salt,
  operation and memory limits; \<open>base642bin\<close> the capacity of the output buffer and the text.
  \<open>uninit32\<close> is the indeterminate content of a 32-byte stack buffer nobody has written to; its argument says
  which buffer, by what the function at hand works on, so that no two need hold the same bytes; and
  \<open>io_written k\<close> how many bytes the failing write number \<open>k\<close> had put on disk.
\<close>

section \<open>The environment\<close>

text \<open>
  \<open>e_draw\<close>, \<open>e_alloc\<close>, \<open>e_io\<close>, \<open>e_service\<close> number the calls; \<open>e_files\<close> is the file system as an
  association list from paths to contents; \<open>e_secret\<close> the item the Secret Service holds under the
  attribute \<open>engine=ziacrypte\<close>.
\<close>

record env =
  e_draw :: nat
  e_alloc :: nat
  e_io :: nat
  e_service :: nat
  e_files :: "(bytes \<times> bytes) list"
  e_secret :: "bytes option"

definition draw :: "env \<Rightarrow> nat \<times> env" where
  "draw e = (e_draw e, e\<lparr>e_draw := Suc (e_draw e)\<rparr>)"

definition malloc :: "lib \<Rightarrow> nat \<Rightarrow> env \<Rightarrow> bool \<times> env" where
  "malloc L n e = (malloc_ok L (e_alloc e) n, e\<lparr>e_alloc := Suc (e_alloc e)\<rparr>)"

section \<open>Documented behaviour of the libraries\<close>

text \<open>The sizes announced by the library constants.\<close>

definition sizes_ok :: "lib \<Rightarrow> bool" where
  "sizes_ok L \<longleftrightarrow>
     (\<forall>x. length (uninit32 L x) = 32) \<and>
     (\<forall>i n. length (randombytes_buf L i n) = n) \<and>
     (\<forall>i. length (fst (crypto_sign_keypair L i)) = 32 \<and> length (snd (crypto_sign_keypair L i)) = 64) \<and>
     (\<forall>m k. length (crypto_sign_detached L m k) = 64) \<and>
     (\<forall>i. length (fst (crypto_box_keypair L i)) = 32 \<and> length (snd (crypto_box_keypair L i)) = 32) \<and>
     (\<forall>k p d. crypto_scalarmult L k p = Some d \<longrightarrow> length d = 32) \<and>
     (\<forall>p x. pk_to_curve25519 L p = Some x \<longrightarrow> length x = 32) \<and>
     (\<forall>p x. sk_to_curve25519 L p = Some x \<longrightarrow> length x = 32) \<and>
     (\<forall>s. length (hmacsha256_final L s) = 32) \<and>
     (\<forall>k m. length (crypto_auth_hmacsha256 L k m) = 32) \<and>
     (\<forall>i. length (secretstream_keygen L i) = 32)"

text \<open>Multi-part HMAC: feeding two pieces is feeding their concatenation.\<close>

definition hmac_multipart :: "lib \<Rightarrow> bool" where
  "hmac_multipart L \<longleftrightarrow>
     (\<forall>s a b. hmacsha256_update L (hmacsha256_update L s a) b = hmacsha256_update L s (a @ b))"

text \<open>X25519 key pairs: generated ones, and identity pairs converted from Ed25519.\<close>

definition x25519_pair :: "lib \<Rightarrow> bytes \<Rightarrow> bytes \<Rightarrow> bool" where
  "x25519_pair L pk sk \<longleftrightarrow>
     (\<exists>i. crypto_box_keypair L i = (pk, sk)) \<or>
     (\<exists>i. pk_to_curve25519 L (fst (crypto_sign_keypair L i)) = Some pk \<and>
          sk_to_curve25519 L (snd (crypto_sign_keypair L i)) = Some sk)"

text \<open>Diffie-Hellman: both sides compute the same secret, and honest keys are not of low order.\<close>

definition dh_ok :: "lib \<Rightarrow> bool" where
  "dh_ok L \<longleftrightarrow>
     (\<forall>p s q t. x25519_pair L p s \<longrightarrow> x25519_pair L q t \<longrightarrow>
        crypto_scalarmult L s q = crypto_scalarmult L t p \<and> crypto_scalarmult L s q \<noteq> None) \<and>
     (\<forall>i. pk_to_curve25519 L (fst (crypto_sign_keypair L i)) \<noteq> None \<and>
          sk_to_curve25519 L (snd (crypto_sign_keypair L i)) \<noteq> None)"

text \<open>The first \<open>N\<close> draws give different public keys.\<close>

definition fresh_keys :: "lib \<Rightarrow> nat \<Rightarrow> bool" where
  "fresh_keys L N \<longleftrightarrow> inj_on (\<lambda>i. fst (crypto_box_keypair L i)) {..<N}"

text \<open>Authenticated encryption: 16 bytes of tag, and decryption inverts encryption.\<close>

definition aead_ok :: "lib \<Rightarrow> bool" where
  "aead_ok L \<longleftrightarrow>
     (\<forall>m ad n k. length n = 12 \<longrightarrow> length k = 32 \<longrightarrow>
        (\<exists>c. chacha20poly1305_encrypt L m ad n k = Some c \<and> length c = length m + 16 \<and>
           chacha20poly1305_decrypt L c ad n k = Some m))"

definition xaead_ok :: "lib \<Rightarrow> bool" where
  "xaead_ok L \<longleftrightarrow>
     (\<forall>m n k. length n = 24 \<longrightarrow> length k = 32 \<longrightarrow>
        (\<exists>c. xchacha20poly1305_encrypt L m n k = Some c \<and> length c = length m + 16 \<and>
           xchacha20poly1305_decrypt L c n k = Some m))"

text \<open>Secret stream with one final block: 24-byte header, 17 bytes of overhead, pull inverts push.\<close>

definition stream_ok :: "lib \<Rightarrow> bool" where
  "stream_ok L \<longleftrightarrow>
     (\<forall>i k. length k = 32 \<longrightarrow> (\<exists>h st. secretstream_init_push L i k = Some (h, st) \<and> length h = 24 \<and>
        (\<exists>st'. secretstream_init_pull L h k = Some st' \<and>
          (\<forall>m tag. \<exists>c. secretstream_push L st m tag = Some c \<and> length c = length m + 17 \<and>
             secretstream_pull L st' c = Some (m, tag)))))"

text \<open>Signatures made with a generated secret key verify under its public key.\<close>

definition sign_ok :: "lib \<Rightarrow> bool" where
  "sign_ok L \<longleftrightarrow>
     (\<forall>i m. crypto_sign_verify_detached L (crypto_sign_detached L m (snd (crypto_sign_keypair L i))) m
        (fst (crypto_sign_keypair L i)))"

text \<open>ML-KEM-768: sizes, and decapsulation recovers the encapsulated secret.\<close>

definition kem_ok :: "lib \<Rightarrow> bool" where
  "kem_ok L \<longleftrightarrow>
     (\<forall>i. \<exists>pk sk. OQS_keypair L i = Some (pk, sk) \<and> length pk = 1184 \<and> length sk = 2400 \<and>
        (\<forall>j. \<exists>ct ss. OQS_encaps L j pk = Some (ct, ss) \<and> length ct = 1088 \<and> length ss = 32 \<and>
           OQS_decaps L sk ct = Some ss))"

text \<open>
  Multi-part SHA-512 never fails and only depends on the concatenation of the pieces; \<open>SHA512\<close> is the
  hash of one piece.
\<close>

definition sha512_ok :: "lib \<Rightarrow> bool" where
  "sha512_ok L \<longleftrightarrow>
     (\<exists>s. sha512_init L = Some s) \<and>
     (\<forall>s. sha512_update L s [] = Some s) \<and>
     (\<forall>s a b. \<exists>s' s''. sha512_update L s a = Some s' \<and> sha512_update L s' b = Some s'' \<and>
        sha512_update L s (a @ b) = Some s'') \<and>
     (\<forall>s. \<exists>d. sha512_final L s = Some d \<and> length d = 64)"

definition SHA512 :: "lib \<Rightarrow> bytes \<Rightarrow> bytes" where
  "SHA512 L m = the (sha512_final L (the (sha512_update L (the (sha512_init L)) m)))"

text \<open>Sealed boxes: 48 bytes of overhead, opened by the recipient's pair.\<close>

definition seal_ok :: "lib \<Rightarrow> bool" where
  "seal_ok L \<longleftrightarrow>
     (\<forall>i m pk sk. x25519_pair L pk sk \<longrightarrow>
        (\<exists>c. crypto_box_seal L i m pk = Some c \<and> length c = length m + 48 \<and>
             crypto_box_seal_open L c pk sk = Some m))"

text \<open>Base64 text is a C string (no NUL), and decoding inverts encoding.\<close>

definition base64_ok :: "lib \<Rightarrow> bool" where
  "base64_ok L \<longleftrightarrow>
     (\<forall>x. 0 \<notin> set (bin2base64 L x) \<and> base642bin L (length x) (bin2base64 L x) = Some x)"

text \<open>Password hashing: a NUL-free string that verifies the password it was made from.\<close>

definition pwhash_ok :: "lib \<Rightarrow> bool" where
  "pwhash_ok L \<longleftrightarrow>
     (\<forall>p s o' m. length s = 16 \<longrightarrow> (\<exists>k. crypto_pwhash L p s o' m = Some k \<and> length k = 32)) \<and>
     (\<forall>i c h. crypto_pwhash_str L i c = Some h \<longrightarrow> 0 \<notin> set h \<and> crypto_pwhash_str_verify L h c) \<and>
     (\<forall>i c. crypto_pwhash_str L i c \<noteq> None)"

text \<open>Every file-system call, respectively every Secret-Service call, succeeds.\<close>

definition disk_ok :: "lib \<Rightarrow> bool" where
  "disk_ok L \<longleftrightarrow> (\<forall>i. io_ok L i)"

definition keyring_ok :: "lib \<Rightarrow> bool" where
  "keyring_ok L \<longleftrightarrow> (\<forall>i. service_ok L i)"

text \<open>Enough memory for every allocation.\<close>

definition mem_ok :: "lib \<Rightarrow> bool" where
  "mem_ok L \<longleftrightarrow> (\<forall>i n. malloc_ok L i n)"

section \<open>Consequences used by the components\<close>

lemma sizes_lens:
  assumes "sizes_ok L"
  shows "length (uninit32 L x) = 32"
    and "length (randombytes_buf L i n) = n"
    and "length (fst (crypto_sign_keypair L i)) = 32"
    and "length (snd (crypto_sign_keypair L i)) = 64"
    and "length (crypto_sign_detached L m k) = 64"
    and "length (fst (crypto_box_keypair L i)) = 32"
    and "length (snd (crypto_box_keypair L i)) = 32"
    and "length (hmacsha256_final L s) = 32"
    and "length (crypto_auth_hmacsha256 L k m) = 32"
    and "length (secretstream_keygen L i) = 32"
  using assms by (simp_all add: sizes_ok_def)

lemma malloc_mem_ok: "mem_ok L \<Longrightarrow> malloc L n e = (True, e\<lparr>e_alloc := Suc (e_alloc e)\<rparr>)"
  by (simp add: malloc_def mem_ok_def)

lemma box_keypair_pair:
  "x25519_pair L (fst (crypto_box_keypair L i)) (snd (crypto_box_keypair L i))"
  unfolding x25519_pair_def by (metis prod.collapse)

lemma dh_commute:
  assumes "dh_ok L" "x25519_pair L p s" "x25519_pair L q t"
  obtains d where "crypto_scalarmult L s q = Some d" "crypto_scalarmult L t p = Some d"
  using assms unfolding dh_ok_def by (metis option.exhaust)

lemma aead_roundtrip:
  assumes "aead_ok L" "length n = 12" "length k = 32"
  obtains c where "chacha20poly1305_encrypt L m ad n k = Some c" "length c = length m + 16"
    "chacha20poly1305_decrypt L c ad n k = Some m"
  using assms unfolding aead_ok_def by metis

end
