(* ===== verification/Codec.thy ===== *)
theory Codec
  imports Prelude
begin

text \<open>
  The byte encodings the engine uses on the wire and on disk: little-endian 32-bit integers
  (\<open>ratchet.cpp\<close>, \<open>session.cpp\<close>, \<open>identity_store.cpp\<close>, \<open>backup.cpp\<close>), big-endian ones
  (\<open>sender_keys.cpp\<close>), 64-bit ones (\<open>backup.cpp\<close>), and the bounds-checked readers.  A reader is
  modelled by the bytes it has not consumed yet, \<open>data_[offset_ .. len_)\<close>, so the guard
  \<open>offset_ + n > len_\<close> is \<open>length r < n\<close>.
\<close>

section \<open>The contract of a fixed-width encoding\<close>

locale fixed_codec =
  fixes put :: "'a \<Rightarrow> bytes"
    and get :: "bytes \<Rightarrow> 'a"
    and width :: nat
  assumes put_len: "length (put v) = width"
    and get_put: "get (put v @ r) = v"
begin

lemma get_put_exact: "get (put v) = v"
  using get_put [of v "[]"] by simp

lemma put_inj: "put v = put w \<longleftrightarrow> v = w"
  using get_put_exact by metis

end

section \<open>32-bit integers, little-endian\<close>

definition write_u32_le :: "u32 \<Rightarrow> bytes" where
  "write_u32_le v = [ucast v, ucast (drop_bit 8 v), ucast (drop_bit 16 v), ucast (drop_bit 24 v)]"

definition read_u32_le :: "bytes \<Rightarrow> u32" where
  "read_u32_le b =
     ucast (b ! 0) OR push_bit 8 (ucast (b ! 1)) OR
     push_bit 16 (ucast (b ! 2)) OR push_bit 24 (ucast (b ! 3))"

lemma length_write_u32_le [simp, lens]: "length (write_u32_le v) = 4"
  by (simp add: write_u32_le_def)

lemma read_write_u32_le: "read_u32_le (write_u32_le v @ r) = v"
proof (rule bit_word_eqI)
  fix n :: nat
  assume "n < LENGTH(32)"
  then have n: "n < 32" by simp
  consider "n < 8" | "8 \<le> n" "n < 16" | "16 \<le> n" "n < 24" | "24 \<le> n" by linarith
  then show "bit (read_u32_le (write_u32_le v @ r)) n = bit v n"
    using n by cases (auto simp: read_u32_le_def write_u32_le_def bit_simps nth_append)
qed

interpretation le32: fixed_codec write_u32_le read_u32_le 4
  by unfold_locales (simp_all add: read_write_u32_le)

section \<open>32-bit integers, big-endian\<close>

definition put_u32 :: "u32 \<Rightarrow> bytes" where
  "put_u32 v = [ucast (drop_bit 24 v), ucast (drop_bit 16 v), ucast (drop_bit 8 v), ucast v]"

definition get_u32 :: "bytes \<Rightarrow> u32" where
  "get_u32 p =
     push_bit 24 (ucast (p ! 0)) OR push_bit 16 (ucast (p ! 1)) OR
     push_bit 8 (ucast (p ! 2)) OR ucast (p ! 3)"

lemma length_put_u32 [simp, lens]: "length (put_u32 v) = 4"
  by (simp add: put_u32_def)

lemma get_put_u32: "get_u32 (put_u32 v @ r) = v"
proof (rule bit_word_eqI)
  fix n :: nat
  assume "n < LENGTH(32)"
  then have n: "n < 32" by simp
  consider "n < 8" | "8 \<le> n" "n < 16" | "16 \<le> n" "n < 24" | "24 \<le> n" by linarith
  then show "bit (get_u32 (put_u32 v @ r)) n = bit v n"
    using n by cases (auto simp: get_u32_def put_u32_def bit_simps nth_append)
qed

interpretation be32: fixed_codec put_u32 get_u32 4
  by unfold_locales (simp_all add: get_put_u32)

section \<open>64-bit integers, little-endian (backup.cpp)\<close>

definition put_u64 :: "u64 \<Rightarrow> bytes" where
  "put_u64 v = map (\<lambda>i. ucast (drop_bit (8 * i) v)) [0..<8]"

text \<open>\<open>for (k = 7; k >= 0; --k) v = (v << 8) | b[k]\<close>\<close>

definition get_u64 :: "bytes \<Rightarrow> u64" where
  "get_u64 b = fold (\<lambda>k v. push_bit 8 v OR ucast (b ! k)) [7, 6, 5, 4, 3, 2, 1, 0] 0"

lemma length_put_u64 [simp, lens]: "length (put_u64 v) = 8"
  by (simp add: put_u64_def)

lemma nth_put_u64: "i < 8 \<Longrightarrow> (put_u64 v @ r) ! i = ucast (drop_bit (8 * i) v)"
  by (simp add: put_u64_def nth_append)

lemma u64_split_byte:
  "drop_bit (8 * k) (v :: u64) =
     push_bit 8 (drop_bit (8 * Suc k) v) OR ucast (ucast (drop_bit (8 * k) v) :: u8)"
  by (rule bit_word_eqI) (auto simp: bit_simps algebra_simps)

lemma get_put_u64: "get_u64 (put_u64 v @ r) = v"
proof -
  have top: "push_bit 8 0 OR ucast (ucast (drop_bit 56 v) :: u8) = drop_bit 56 v"
    by (rule bit_word_eqI) (auto simp: bit_simps dest: bit_imp_le_length)
  note rest = u64_split_byte [symmetric, of 6 v] u64_split_byte [symmetric, of 5 v]
    u64_split_byte [symmetric, of 4 v] u64_split_byte [symmetric, of 3 v]
    u64_split_byte [symmetric, of 2 v] u64_split_byte [symmetric, of 1 v]
    u64_split_byte [symmetric, of 0 v]
  show ?thesis
    using top rest by (simp add: get_u64_def nth_put_u64)
qed

interpretation le64: fixed_codec put_u64 get_u64 8
  by unfold_locales (simp_all add: get_put_u64)

section \<open>Bounds-checked readers\<close>

definition reader_read :: "nat \<Rightarrow> bytes \<Rightarrow> (bytes \<times> bytes) option" where
  "reader_read n r = (if length r < n then None else Some (take n r, drop n r))"

definition reader_u32 :: "bytes \<Rightarrow> (u32 \<times> bytes) option" where
  "reader_u32 r = map_option (\<lambda>(b, r'). (read_u32_le b, r')) (reader_read 4 r)"

definition reader_u64 :: "bytes \<Rightarrow> (u64 \<times> bytes) option" where
  "reader_u64 r = map_option (\<lambda>(b, r'). (get_u64 b, r')) (reader_read 8 r)"

lemma reader_read_append [simp]: "length xs = n \<Longrightarrow> reader_read n (xs @ r) = Some (xs, r)"
  by (simp add: reader_read_def)

lemma reader_read_exact [simp]: "length xs = n \<Longrightarrow> reader_read n xs = Some (xs, [])"
  by (simp add: reader_read_def)

lemma reader_read_1 [simp]: "reader_read (Suc 0) (b # r) = Some ([b], r)"
  by (simp add: reader_read_def)

lemma reader_u32_append [simp]: "reader_u32 (write_u32_le v @ r) = Some (v, r)"
  by (simp add: reader_u32_def le32.get_put_exact)

lemma reader_u64_append [simp]: "reader_u64 (put_u64 v @ r) = Some (v, r)"
  by (simp add: reader_u64_def le64.get_put_exact)

lemma reader_read_Some:
  "reader_read n r = Some (xs, r') \<longleftrightarrow> length xs = n \<and> r = xs @ r'"
  by (auto simp: reader_read_def min_def)

section \<open>Parsers only look at what they consume\<close>

text \<open>A parser that succeeds consumes the same bytes, with the same result, when more bytes follow.\<close>

definition extensible :: "(bytes \<Rightarrow> ('a \<times> bytes) option) \<Rightarrow> bool" where
  "extensible p \<longleftrightarrow> (\<forall>bs a r y. p bs = Some (a, r) \<longrightarrow> p (bs @ y) = Some (a, r @ y))"

lemma extensibleD: "extensible p \<Longrightarrow> p bs = Some (a, r) \<Longrightarrow> p (bs @ y) = Some (a, r @ y)"
  by (simp add: extensible_def)

lemma extensible_read: "extensible (reader_read n)"
  by (auto simp: extensible_def reader_read_Some)

lemma extensible_u32: "extensible reader_u32"
  by (auto simp: extensible_def reader_u32_def reader_read_Some)

lemma extensible_return: "extensible (\<lambda>r. Some (x, r))"
  by (simp add: extensible_def)

lemma extensible_bind:
  assumes "extensible p" "\<And>a. extensible (f a)"
  shows "extensible (\<lambda>bs. Option.bind (p bs) (\<lambda>(a, r). f a r))"
  unfolding extensible_def
proof (intro allI impI)
  fix bs b r y
  assume "Option.bind (p bs) (\<lambda>(a, r). f a r) = Some (b, r)"
  then obtain a r1 where "p bs = Some (a, r1)" "f a r1 = Some (b, r)"
    by (auto simp: bind_eq_Some_conv)
  with assms show "Option.bind (p (bs @ y)) (\<lambda>(a, r). f a r) = Some (b, r @ y)"
    by (simp add: extensibleD)
qed

lemmas extensible_intros = extensible_read extensible_u32 extensible_return extensible_bind

section \<open>The contract of a record parser\<close>

text \<open>
  \<open>read_many dec n\<close> is the loop \<open>for (i = 0; i < n; ++i)\<close> that parses \<open>n\<close> records one after the
  other and gives up at the first that does not parse.
\<close>

primrec read_many :: "(bytes \<Rightarrow> ('a \<times> bytes) option) \<Rightarrow> nat \<Rightarrow> bytes \<Rightarrow> ('a list \<times> bytes) option" where
  "read_many dec 0 r = Some ([], r)"
| "read_many dec (Suc n) r =
     (case dec r of None \<Rightarrow> None
      | Some (x, r') \<Rightarrow> (case read_many dec n r' of None \<Rightarrow> None
          | Some (xs, r'') \<Rightarrow> Some (x # xs, r'')))"

lemma read_many_Suc_bind:
  "read_many dec (Suc n) = (\<lambda>r. Option.bind (dec r) (\<lambda>(x, r). Option.bind (read_many dec n r) (\<lambda>(xs, r). Some (x # xs, r))))"
  by (rule ext) (auto split: option.split)

lemma extensible_read_many: "extensible dec \<Longrightarrow> extensible (read_many dec n)"
proof (induction n)
  case 0
  then show ?case by (simp add: extensible_def)
next
  case (Suc n)
  then show ?case unfolding read_many_Suc_bind by (intro extensible_intros) auto
qed

locale record_codec =
  fixes wf :: "'a \<Rightarrow> bool"
    and enc :: "'a \<Rightarrow> bytes"
    and dec :: "bytes \<Rightarrow> ('a \<times> bytes) option"
    and size :: nat
  assumes enc_len: "wf x \<Longrightarrow> length (enc x) = size"
    and dec_enc: "wf x \<Longrightarrow> dec (enc x @ r) = Some (x, r)"
    and dec_wf: "dec bs = Some (x, r) \<Longrightarrow> wf x \<and> length bs = size + length r"
begin

lemma read_many_enc:
  "list_all wf xs \<Longrightarrow> read_many dec (length xs) (concat (map enc xs) @ r) = Some (xs, r)"
  by (induction xs) (auto simp: dec_enc)

lemma length_enc_list: "list_all wf xs \<Longrightarrow> length (concat (map enc xs)) = size * length xs"
  by (induction xs) (auto simp: enc_len)

lemma read_many_wf:
  "read_many dec n bs = Some (xs, r) \<Longrightarrow>
     list_all wf xs \<and> length bs = size * n + length r"
  by (induction n arbitrary: bs xs r) (fastforce split: option.splits dest: dec_wf)+

end

end
