(* ===== verification/Primitives.thy ===== *)
theory Primitives
  imports Libs Codec
begin

text \<open>
  \<open>src/primitives/primitives.cpp\<close>: thin wrappers around libsodium and liboqs, and the one algorithm
  the engine writes itself, HKDF-SHA256.  The wrappers keep the draw counter of the environment;
  \<open>hmac_sha256\<close> is partial, because the library reads 32 bytes from \<open>key.data()\<close> whatever the size of
  the \<open>SecureBuffer\<close> (an empty one holds a null pointer).

  The specification \<open>rfc5869\<close> is the HKDF of RFC 5869; \<open>hkdf_sha256_rfc5869\<close> shows that the loop of
  the source computes it.
\<close>

definition kAeadNonceLen :: nat where "kAeadNonceLen = 12"
definition kPqSecretKeyLen :: nat where "kPqSecretKeyLen = 2400"

text \<open>A freshly allocated \<open>SecureBuffer\<close>: libsodium fills it with \<open>0xdb\<close>.\<close>

definition SecureBuffer :: "nat \<Rightarrow> bytes" where
  "SecureBuffer n = replicate n 0xdb"

lemma length_SecureBuffer [simp]: "length (SecureBuffer n) = n"
  by (simp add: SecureBuffer_def)

section \<open>Signatures and key agreement\<close>

definition ed25519_keypair :: "lib \<Rightarrow> env \<Rightarrow> (bytes \<times> bytes) \<times> env" where
  "ed25519_keypair L e = (let (i, e') = draw e in (crypto_sign_keypair L i, e'))"

definition ed25519_sign :: "lib \<Rightarrow> bytes \<Rightarrow> bytes \<Rightarrow> bytes" where
  "ed25519_sign L priv msg = crypto_sign_detached L msg priv"

definition ed25519_verify :: "lib \<Rightarrow> bytes \<Rightarrow> bytes \<Rightarrow> bytes \<Rightarrow> bool" where
  "ed25519_verify L pub msg sig = crypto_sign_verify_detached L sig msg pub"

definition x25519_keypair :: "lib \<Rightarrow> env \<Rightarrow> (bytes \<times> bytes) \<times> env" where
  "x25519_keypair L e = (let (i, e') = draw e in (crypto_box_keypair L i, e'))"

definition x25519_scalarmult :: "lib \<Rightarrow> bytes \<Rightarrow> bytes \<Rightarrow> bytes option" where
  "x25519_scalarmult L priv pub = crypto_scalarmult L priv pub"

definition ed25519_to_x25519_public :: "lib \<Rightarrow> bytes \<Rightarrow> bytes option" where
  "ed25519_to_x25519_public L ed_pub = pk_to_curve25519 L ed_pub"

definition ed25519_to_x25519_private :: "lib \<Rightarrow> bytes \<Rightarrow> bytes option" where
  "ed25519_to_x25519_private L ed_priv = sk_to_curve25519 L ed_priv"

section \<open>HKDF-SHA256\<close>

text \<open>
  The expand loop: \<open>t_prev\<close> and \<open>t_prev_len\<close> the previous block, \<open>generated\<close> the bytes produced so
  far, \<open>counter\<close> the 8-bit block counter, \<open>out\<close> the output buffer up to \<open>generated\<close>.
\<close>

function hkdf_expand ::
  "lib \<Rightarrow> bytes \<Rightarrow> bytes \<Rightarrow> nat \<Rightarrow> bytes \<Rightarrow> nat \<Rightarrow> nat \<Rightarrow> u8 \<Rightarrow> bytes \<Rightarrow> bytes" where
  "hkdf_expand L prk info out_len t_prev t_prev_len generated counter out =
     (if generated < out_len then
        let st0 = hmacsha256_init L prk;
            st1 = (if t_prev_len > 0 then hmacsha256_update L st0 (take t_prev_len t_prev) else st0);
            st2 = hmacsha256_update L st1 info;
            st3 = hmacsha256_update L st2 [counter];
            t_cur = hmacsha256_final L st3;
            chunk = min 32 (out_len - generated)
        in hkdf_expand L prk info out_len t_cur 32 (generated + chunk) (counter + 1)
             (out @ take chunk t_cur)
      else out)"
  by pat_completeness auto
termination
  by (relation "measure (\<lambda>(L, prk, info, out_len, t_prev, t_prev_len, generated, counter, out).
        out_len - generated)") auto

declare hkdf_expand.simps [simp del]

definition hkdf_sha256 :: "lib \<Rightarrow> bytes \<Rightarrow> bytes \<Rightarrow> bytes \<Rightarrow> nat \<Rightarrow> bytes" where
  "hkdf_sha256 L salt ikm info out_len =
     (let prk = hmacsha256_final L (hmacsha256_update L (hmacsha256_init L salt) ikm)
      in hkdf_expand L prk info out_len [] 0 0 1 [])"

text \<open>RFC 5869, section 2: extract, then the blocks \<open>T(i) = HMAC(PRK, T(i-1) | info | i)\<close>.\<close>

definition HMAC :: "lib \<Rightarrow> bytes \<Rightarrow> bytes \<Rightarrow> bytes" where
  "HMAC L k m = hmacsha256_final L (hmacsha256_update L (hmacsha256_init L k) m)"

primrec rfc5869_T :: "lib \<Rightarrow> bytes \<Rightarrow> bytes \<Rightarrow> nat \<Rightarrow> bytes" where
  "rfc5869_T L prk info 0 = []"
| "rfc5869_T L prk info (Suc i) =
     HMAC L prk (rfc5869_T L prk info i @ info @ [of_nat (Suc i)])"

definition rfc5869 :: "lib \<Rightarrow> bytes \<Rightarrow> bytes \<Rightarrow> bytes \<Rightarrow> nat \<Rightarrow> bytes" where
  "rfc5869 L salt ikm info n =
     take n (concat (map (rfc5869_T L (HMAC L salt ikm) info) [1..<Suc ((n + 31) div 32)]))"

lemma length_rfc5869_T: "sizes_ok L \<Longrightarrow> length (rfc5869_T L prk info (Suc i)) = 32"
  by (simp add: HMAC_def sizes_lens)

lemma length_rfc5869_blocks:
  "sizes_ok L \<Longrightarrow> length (concat (map (rfc5869_T L prk info) [1..<Suc i])) = 32 * i"
  by (induction i) (simp_all add: length_rfc5869_T del: rfc5869_T.simps)

lemma take_blocks_saturate:
  assumes "sizes_ok L" "n \<le> 32 * i"
  shows "take n (concat (map (rfc5869_T L prk info) [1..<Suc i])) =
         take n (concat (map (rfc5869_T L prk info) [1..<Suc ((n + 31) div 32)]))"
proof -
  let ?B = "\<lambda>a b. concat (map (rfc5869_T L prk info) [a..<b])"
  let ?k = "(n + 31) div 32"
  have k: "?k \<le> i" "n \<le> 32 * ?k" using assms(2) by auto
  have "[1..<Suc i] = [1..<Suc ?k] @ [Suc ?k..<Suc i]"
    using k(1) upt_add_eq_append [of 1 "Suc ?k" "i - ?k"] by simp
  then have "?B 1 (Suc i) = ?B 1 (Suc ?k) @ ?B (Suc ?k) (Suc i)" by simp
  with length_rfc5869_blocks [OF assms(1), of prk info ?k] k(2) show ?thesis by simp
qed

text \<open>The loop invariant: after \<open>i\<close> rounds the buffer holds the first \<open>32 * i\<close> bytes of the blocks.\<close>

lemma hkdf_expand_blocks:
  assumes "sizes_ok L" "hmac_multipart L"
  shows "hkdf_expand L prk info n (rfc5869_T L prk info i) (if i = 0 then 0 else 32)
           (min (32 * i) n) (of_nat (Suc i))
           (take n (concat (map (rfc5869_T L prk info) [1..<Suc i]))) =
         take n (concat (map (rfc5869_T L prk info) [1..<Suc ((n + 31) div 32)]))"
proof (induction "n - 32 * i" arbitrary: i rule: less_induct)
  case less
  let ?T = "rfc5869_T L prk info"
  let ?out = "concat (map ?T [1..<Suc i])"
  show ?case
  proof (cases "32 * i < n")
    case False
    then show ?thesis
      using take_blocks_saturate [OF assms(1), of n i prk info]
      by (subst hkdf_expand.simps) simp
  next
    case True
    let ?m = "min 32 (n - 32 * i)"
    have blk: "hmacsha256_final L (hmacsha256_update L (hmacsha256_update L
        (if (if i = 0 then 0 else 32::nat) > 0
         then hmacsha256_update L (hmacsha256_init L prk) (take (if i = 0 then 0 else 32) (?T i))
         else hmacsha256_init L prk) info) [of_nat (Suc i)]) = ?T (Suc i)"
      using assms length_rfc5869_T [OF assms(1), of prk info "i - 1"]
      by (cases i) (simp_all add: HMAC_def hmac_multipart_def)
    have out: "take n ?out @ take ?m (?T (Suc i)) = take n (concat (map ?T [1..<Suc (Suc i)]))"
      using True length_rfc5869_blocks [OF assms(1), of prk info i] length_rfc5869_T [OF assms(1), of prk info i]
      by (simp add: min_def del: rfc5869_T.simps)
    have gen: "min (32 * i) n + ?m = min (32 * Suc i) n" using True by simp
    have "n - 32 * Suc i < n - 32 * i" using True by simp
    from less.hyps [OF this] True out gen blk show ?thesis
      by (subst hkdf_expand.simps) (simp add: Let_def del: rfc5869_T.simps upt_Suc)
  qed
qed

lemma hkdf_sha256_eq:
  "sizes_ok L \<Longrightarrow> hmac_multipart L \<Longrightarrow> hkdf_sha256 L salt ikm info n = rfc5869 L salt ikm info n"
  using hkdf_expand_blocks [of L "HMAC L salt ikm" info n 0]
  by (simp add: hkdf_sha256_def rfc5869_def HMAC_def)

text \<open>Whatever HMAC does, the loop produces exactly the number of bytes asked for.\<close>

lemma hkdf_expand_length:
  "sizes_ok L \<Longrightarrow> generated \<le> out_len \<Longrightarrow> length out = generated \<Longrightarrow>
     length (hkdf_expand L prk info out_len t_prev t_prev_len generated counter out) = out_len"
proof (induction L prk info out_len t_prev t_prev_len generated counter out rule: hkdf_expand.induct)
  case (1 L prk info out_len t_prev t_prev_len generated counter out)
  then show ?case
    by (subst hkdf_expand.simps) (simp add: Let_def sizes_lens)
qed

lemma length_hkdf_sha256 [lens]: "sizes_ok L \<Longrightarrow> length (hkdf_sha256 L salt ikm info n) = n"
  by (simp add: hkdf_sha256_def hkdf_expand_length)

section \<open>HMAC, AEAD, ML-KEM\<close>

definition hmac_sha256 :: "lib \<Rightarrow> bytes \<Rightarrow> u8 \<Rightarrow> bytes option" where
  "hmac_sha256 L key single_byte_input =
     (if length key < 32 then None
      else Some (crypto_auth_hmacsha256 L (take 32 key) [single_byte_input]))"

definition aead_encrypt :: "lib \<Rightarrow> bytes \<Rightarrow> bytes \<Rightarrow> bytes \<Rightarrow> bytes \<Rightarrow> bytes option" where
  "aead_encrypt L key nonce plaintext ad = chacha20poly1305_encrypt L plaintext ad nonce key"

definition aead_decrypt :: "lib \<Rightarrow> bytes \<Rightarrow> bytes \<Rightarrow> bytes \<Rightarrow> bytes \<Rightarrow> bytes option" where
  "aead_decrypt L key nonce ciphertext ad = chacha20poly1305_decrypt L ciphertext ad nonce key"

definition mlkem768_keypair :: "lib \<Rightarrow> env \<Rightarrow> (bytes \<times> bytes) \<times> env" where
  "mlkem768_keypair L e =
     (let (i, e') = draw e in
      case OQS_keypair L i of
        Some (pk, sk) \<Rightarrow> ((pk, sk), e')
      | None \<Rightarrow> ((replicate 1184 0, []), e'))"

definition mlkem768_encapsulate :: "lib \<Rightarrow> bytes \<Rightarrow> env \<Rightarrow> (bytes \<times> bytes) option \<times> env" where
  "mlkem768_encapsulate L pub e = (let (i, e') = draw e in (OQS_encaps L i pub, e'))"

definition mlkem768_decapsulate :: "lib \<Rightarrow> bytes \<Rightarrow> bytes \<Rightarrow> bytes option" where
  "mlkem768_decapsulate L priv ciphertext =
     (if length priv \<noteq> kPqSecretKeyLen then None else OQS_decaps L priv ciphertext)"

end
