(* ===== verification/Interfaces.thy ===== *)
theory Interfaces
  imports Prelude
begin

text \<open>
  Contracts shared by several components.

  \<^item> \<open>key_cache\<close>: the bounded store of message keys for messages that arrive late.  The Double
    Ratchet (\<open>ratchet.cpp\<close>) and the sender keys of groups (\<open>sender_keys.cpp\<close>) both implement it.
  \<^item> \<open>kdf_iface\<close>: a symmetric key chain, advanced one message at a time.  Again both implement it.
\<close>

section \<open>Bounded caches of message keys\<close>

locale key_cache =
  fixes cap :: nat
    and key_of :: "'e \<Rightarrow> 'k"
    and store :: "'e list \<Rightarrow> 'e \<Rightarrow> 'e list"
    and take_k :: "'e list \<Rightarrow> 'k \<Rightarrow> ('e \<times> 'e list) option"
  assumes cap_pos: "0 < cap"
    and store_room: "length c < cap \<Longrightarrow> store c x = c @ [x]"
    and store_full: "cap \<le> length c \<Longrightarrow> store c x = tl c @ [x]"
    and take_None: "take_k c k = None \<longleftrightarrow> k \<notin> key_of ` set c"
    and take_Some: "take_k c k = Some (x, c') \<Longrightarrow>
      \<exists>i < length c. c ! i = x \<and> key_of x = k \<and> c' = erase_at i c"
begin

lemma store_bound: "length c \<le> cap \<Longrightarrow> length (store c x) \<le> cap"
  using cap_pos by (cases "length c < cap") (auto simp: store_room store_full)

lemma set_store: "set (store c x) \<subseteq> insert x (set c)"
proof (cases "length c < cap")
  case True
  then show ?thesis by (simp add: store_room)
next
  case False
  have "set (tl c) \<subseteq> set c" by (cases c) auto
  with False show ?thesis by (auto simp: store_full)
qed

lemma foldl_store_bound: "length c \<le> cap \<Longrightarrow> length (foldl store c xs) \<le> cap"
  by (induction xs arbitrary: c) (auto simp: store_bound)

lemma set_foldl_store: "set (foldl store c xs) \<subseteq> set c \<union> set xs"
  by (induction xs arbitrary: c) (use set_store in force)+

lemma foldl_store_room: "length c + length xs \<le> cap \<Longrightarrow> foldl store c xs = c @ xs"
  by (induction xs arbitrary: c) (auto simp: store_room)

lemma take_shrinks: "take_k c k = Some (x, c') \<Longrightarrow> length c' < length c"
  by (auto dest!: take_Some simp: length_erase_at)

lemma take_subset: "take_k c k = Some (x, c') \<Longrightarrow> x \<in> set c \<and> set c' \<subseteq> set c"
  using set_erase_at_subset by (fastforce dest!: take_Some)

text \<open>With distinct keys, taking a key removes it and nothing else.\<close>

lemma take_removes:
  assumes "take_k c k = Some (x, c')" "distinct (map key_of c)"
  shows "distinct (map key_of c') \<and> key_of ` set c' = key_of ` set c - {k} \<and> set c' = set c - {x}"
proof -
  from take_Some [OF assms(1)] obtain i where
    i: "i < length c" "c ! i = x" "key_of x = k" "c' = erase_at i c" by blast
  from distinct_erase_at [OF assms(2) i(1)] i
  have d: "distinct (map key_of c')" and im: "key_of ` set c' = key_of ` set c - {k}" by auto
  have "c = take i c @ x # drop (Suc i) c" using i id_take_nth_drop by metis
  then have s: "set c = insert x (set c')" using i(4) by (metis Un_insert_right erase_at_def list.simps(15) set_append)
  moreover have "x \<notin> set c'" using im i(3) by blast
  ultimately show ?thesis using d im by blast
qed

lemma take_once:
  "take_k c k = Some (x, c') \<Longrightarrow> distinct (map key_of c) \<Longrightarrow> take_k c' k = None"
  using take_removes take_None by (metis Diff_iff singletonI)

lemma take_present:
  assumes "x \<in> set c" "distinct (map key_of c)"
  obtains c' where "take_k c (key_of x) = Some (x, c')"
proof -
  from assms(1) have "take_k c (key_of x) \<noteq> None" by (auto simp: take_None)
  then obtain y c' where y: "take_k c (key_of x) = Some (y, c')" by auto
  from take_Some [OF y] have "y \<in> set c" "key_of y = key_of x" by auto
  with assms have "y = x" by (metis distinct_map inj_onD)
  with y that show thesis by blast
qed

end

section \<open>Symmetric key chains\<close>

text \<open>
  A step of the chain gives the next chain key and the message key of the current position; it may
  be undefined.  \<open>chain_next\<close> and \<open>chain_key\<close> are its two components where it is defined.
\<close>

definition chain_next :: "('c \<Rightarrow> ('c \<times> 'm) option) \<Rightarrow> 'c \<Rightarrow> 'c" where
  "chain_next step c = fst (the (step c))"

definition chain_key :: "('c \<Rightarrow> ('c \<times> 'm) option) \<Rightarrow> 'c \<Rightarrow> 'm" where
  "chain_key step c = snd (the (step c))"

text \<open>The message keys of the next \<open>k\<close> positions, in order.\<close>

primrec chain_keys :: "('c \<Rightarrow> ('c \<times> 'm) option) \<Rightarrow> nat \<Rightarrow> 'c \<Rightarrow> 'm list" where
  "chain_keys step 0 c = []"
| "chain_keys step (Suc k) c = chain_key step c # chain_keys step k (chain_next step c)"

lemma length_chain_keys [simp]: "length (chain_keys step k c) = k"
  by (induction k arbitrary: c) auto

locale kdf_iface =
  fixes step :: "'c \<Rightarrow> ('c \<times> 'm) option"
    and ok :: "'c \<Rightarrow> bool"
    and mok :: "'m \<Rightarrow> bool"
  assumes step_defined: "ok c \<Longrightarrow> \<exists>c' m. step c = Some (c', m) \<and> ok c' \<and> mok m"
begin

lemma step_eq: "ok c \<Longrightarrow> step c = Some (chain_next step c, chain_key step c)"
  using step_defined by (fastforce simp: chain_next_def chain_key_def)

lemma next_ok: "ok c \<Longrightarrow> ok (chain_next step c)"
  using step_defined by (fastforce simp: chain_next_def)

lemma key_ok: "ok c \<Longrightarrow> mok (chain_key step c)"
  using step_defined by (fastforce simp: chain_key_def)

lemma funpow_ok: "ok c \<Longrightarrow> ok ((chain_next step ^^ n) c)"
  by (induction n) (auto simp: next_ok)

end

end
