(* ===== verification/Sample_Lib.thy ===== *)
theory Sample_Lib
  imports Libs
begin

text \<open>
  A concrete instance of the library parameter.  It has no cryptographic strength; it is executable
  and satisfies every law of \<open>Libs\<close>, which shows that the laws are jointly satisfiable and lets a
  theorem that assumes them be applied to closed inputs.
\<close>

definition pad :: "nat \<Rightarrow> bytes \<Rightarrow> bytes" where
  "pad n xs = take n (xs @ replicate n 0)"

lemma length_pad [simp]: "length (pad n xs) = n"
  by (simp add: pad_def)

lemma pad_id [simp]: "length xs = n \<Longrightarrow> pad n xs = xs"
  by (simp add: pad_def)

definition sample_tag :: "bytes \<Rightarrow> bytes" where
  "sample_tag xs = replicate 16 (sum_list xs)"

lemma length_sample_tag [simp]: "length (sample_tag xs) = 16"
  by (simp add: sample_tag_def)

text \<open>A tagged message: the tag depends on the message and the context.\<close>

definition sample_enc :: "bytes \<Rightarrow> bytes \<Rightarrow> bytes" where
  "sample_enc ctx m = m @ sample_tag (ctx @ m)"

definition sample_dec :: "bytes \<Rightarrow> bytes \<Rightarrow> bytes option" where
  "sample_dec ctx c =
     (if length c < 16 then None
      else let m = take (length c - 16) c in
        if drop (length c - 16) c = sample_tag (ctx @ m) then Some m else None)"

lemma length_sample_enc [simp]: "length (sample_enc ctx m) = length m + 16"
  by (simp add: sample_enc_def)

lemma sample_dec_enc [simp]: "sample_dec ctx (sample_enc ctx m) = Some m"
  by (simp add: sample_dec_def sample_enc_def)

fun sample_unhex :: "bytes \<Rightarrow> bytes" where
  "sample_unhex (a # b # r) = ((a - 65) * 16 + (b - 65)) # sample_unhex r"
| "sample_unhex _ = []"

definition sample_hex :: "bytes \<Rightarrow> bytes" where
  "sample_hex x = concat (map (\<lambda>b. [65 + b div 16, 65 + b mod 16]) x)"

lemma sample_unhex_hex: "sample_unhex (sample_hex x) = x"
  by (induction x) (auto simp: sample_hex_def div_mult_mod_eq)

lemma sample_hex_nibble: "65 + (b :: u8) div 16 \<noteq> 0" "65 + (b :: u8) mod 16 \<noteq> 0"
proof -
  have "b div 16 < 16"
    using unsigned_less [of b, where 'a = nat] by (simp add: word_less_nat_alt unat_div_distrib)
  moreover have "b mod 16 < 16" by (simp add: word_mod_less_divisor)
  moreover have "65 + c \<noteq> 0" if "c < 16" for c :: u8
  proof
    assume "65 + c = 0"
    then have "c = - 65" by (simp add: eq_neg_iff_add_eq_0 add.commute)
    with that show False by simp
  qed
  ultimately show "65 + b div 16 \<noteq> 0" "65 + b mod 16 \<noteq> 0" by blast+
qed

lemma sample_hex_no_nul: "0 \<notin> set (sample_hex x)"
  using sample_hex_nibble by (auto simp: sample_hex_def)

definition sample_lib :: lib where
  "sample_lib =
    \<lparr>malloc_ok = \<lambda>_ _. True, uninit32 = \<lambda>_. replicate 32 170, io_ok = \<lambda>_. True,
     io_written = \<lambda>_. 0, service_ok = \<lambda>_. True, sodium_init_ok = True,
     randombytes_buf = \<lambda>i n. replicate n (of_nat i),
     crypto_sign_keypair = \<lambda>i. (replicate 32 (of_nat i), replicate 64 (of_nat i)),
     crypto_sign_detached = \<lambda>m sk. pad 32 sk @ replicate 32 (sum_list m),
     crypto_sign_verify_detached = \<lambda>sig m pk. sig = pad 32 pk @ replicate 32 (sum_list m),
     crypto_box_keypair = \<lambda>i. (replicate 32 (of_nat i), replicate 32 (of_nat i)),
     crypto_scalarmult = \<lambda>s p. Some (pad 32 (map2 (+) s p)),
     pk_to_curve25519 = \<lambda>p. Some (pad 32 p),
     sk_to_curve25519 = \<lambda>s. Some (pad 32 s),
     hmacsha256_init = pad 32,
     hmacsha256_update = \<lambda>st m. map ((+) (sum_list m)) st,
     hmacsha256_final = \<lambda>st. pad 32 (map ((+) 1) st),
     crypto_auth_hmacsha256 = \<lambda>k m. pad 32 (map ((+) (1 + sum_list m)) k),
     chacha20poly1305_encrypt = \<lambda>m ad n k. Some (sample_enc (ad @ n @ k) m),
     chacha20poly1305_decrypt = \<lambda>c ad n k. sample_dec (ad @ n @ k) c,
     xchacha20poly1305_encrypt = \<lambda>m n k. Some (sample_enc (n @ k) m),
     xchacha20poly1305_decrypt = \<lambda>c n k. sample_dec (n @ k) c,
     secretstream_keygen = \<lambda>i. replicate 32 (of_nat i),
     secretstream_init_push = \<lambda>i k. Some (replicate 24 (of_nat i), k),
     secretstream_push = \<lambda>st m tag. Some (tag # sample_enc st m),
     secretstream_init_pull = \<lambda>h k. Some k,
     secretstream_pull = \<lambda>st c. (case c of [] \<Rightarrow> None
        | tag # r \<Rightarrow> map_option (\<lambda>m. (m, tag)) (sample_dec st r)),
     sha512_init = Some [],
     sha512_update = \<lambda>st m. Some (st @ m),
     sha512_final = \<lambda>st. Some (pad 64 st),
     crypto_box_seal = \<lambda>i m pk. Some (replicate 32 (of_nat i) @ sample_enc pk m),
     crypto_box_seal_open = \<lambda>c pk sk. if sk = pk then sample_dec pk (drop 32 c) else None,
     crypto_pwhash = \<lambda>p s o' m. Some (pad 32 (map ((+) (sum_list p)) s)),
     crypto_pwhash_str = \<lambda>i c. Some (36 # sample_hex c),
     crypto_pwhash_str_verify = \<lambda>h c. h = 36 # sample_hex c,
     bin2base64 = sample_hex,
     base642bin = \<lambda>n t. (if length (sample_unhex t) \<le> n then Some (sample_unhex t) else None),
     OQS_keypair = \<lambda>i. Some (replicate 1184 (of_nat i), replicate 2400 (of_nat i)),
     OQS_encaps = \<lambda>j pk. Some (replicate 1088 (of_nat j), replicate 32 (of_nat j + hd pk)),
     OQS_decaps = \<lambda>sk ct. Some (replicate 32 (hd ct + hd sk))\<rparr>"

definition env0 :: env where
  "env0 = \<lparr>e_draw = 0, e_alloc = 0, e_io = 0, e_service = 0, e_files = [], e_secret = None\<rparr>"

section \<open>The sample library satisfies the laws\<close>

lemma sample_sizes_ok: "sizes_ok sample_lib"
  by (simp add: sizes_ok_def sample_lib_def)

lemma sample_hmac_multipart: "hmac_multipart sample_lib"
  by (simp add: hmac_multipart_def sample_lib_def add.assoc add.left_commute add.commute)

lemma map2_add_commute: "map2 (+) (xs :: bytes) ys = map2 (+) ys xs"
  by (induction xs arbitrary: ys) (auto split: list.splits simp: zip_Cons add.commute)

lemma sample_pair: "x25519_pair sample_lib p s \<Longrightarrow> p = s"
  by (auto simp: x25519_pair_def sample_lib_def pad_def)

lemma sample_dh_ok: "dh_ok sample_lib"
  unfolding dh_ok_def
  by (auto dest!: sample_pair) (simp_all add: sample_lib_def map2_add_commute)

lemma sample_fresh_keys: "fresh_keys sample_lib 256"
proof (unfold fresh_keys_def, rule inj_onI)
  fix i j :: nat
  assume "i \<in> {..<256}" "j \<in> {..<256}"
    and "fst (crypto_box_keypair sample_lib i) = fst (crypto_box_keypair sample_lib j)"
  then have "(of_nat i :: u8) = of_nat j" by (simp add: sample_lib_def)
  then have "unat (of_nat i :: u8) = unat (of_nat j :: u8)" by simp
  with \<open>i \<in> _\<close> \<open>j \<in> _\<close> show "i = j" by (simp add: unat_of_nat)
qed

lemma sample_aead_ok: "aead_ok sample_lib"
  by (simp add: aead_ok_def sample_lib_def)

lemma sample_xaead_ok: "xaead_ok sample_lib"
  by (simp add: xaead_ok_def sample_lib_def)

lemma sample_stream_ok: "stream_ok sample_lib"
  by (simp add: stream_ok_def sample_lib_def)

lemma sample_sign_ok: "sign_ok sample_lib"
  by (simp add: sign_ok_def sample_lib_def pad_def)

lemma sample_kem_ok: "kem_ok sample_lib"
  by (simp add: kem_ok_def sample_lib_def)

lemma sample_sha512_ok: "sha512_ok sample_lib"
  by (simp add: sha512_ok_def sample_lib_def)

lemma sample_seal_ok: "seal_ok sample_lib"
  unfolding seal_ok_def by (auto dest!: sample_pair) (simp add: sample_lib_def)

lemma sample_base64_ok: "base64_ok sample_lib"
  by (simp add: base64_ok_def sample_lib_def sample_unhex_hex sample_hex_no_nul)

lemma sample_pwhash_ok: "pwhash_ok sample_lib"
  by (simp add: pwhash_ok_def sample_lib_def sample_hex_no_nul)

lemma sample_mem_ok: "mem_ok sample_lib"
  by (simp add: mem_ok_def sample_lib_def)

lemma sample_disk_ok: "disk_ok sample_lib"
  by (simp add: disk_ok_def sample_lib_def)

lemma sample_keyring_ok: "keyring_ok sample_lib"
  by (simp add: keyring_ok_def sample_lib_def)

text \<open>Variants of the sample library in which one call fails.\<close>

definition reject_lib :: lib where
  "reject_lib = sample_lib\<lparr>chacha20poly1305_decrypt := \<lambda>_ _ _ _. None\<rparr>"

lemma reject_laws: "sizes_ok reject_lib" "mem_ok reject_lib"
  using sample_sizes_ok sample_mem_ok by (simp_all add: reject_lib_def sizes_ok_def mem_ok_def)

lemma reject_decrypt [simp]: "chacha20poly1305_decrypt reject_lib c ad n k = None"
  by (simp add: reject_lib_def)

lemmas sample_laws =
  sample_sizes_ok sample_hmac_multipart sample_dh_ok sample_fresh_keys sample_aead_ok
  sample_xaead_ok sample_stream_ok sample_sign_ok sample_kem_ok sample_sha512_ok
  sample_seal_ok sample_base64_ok sample_pwhash_ok sample_mem_ok sample_disk_ok sample_keyring_ok

end
