(* ===== verification/Ratchet.thy ===== *)
theory Ratchet
  imports Primitives Interfaces Sample_Lib
begin

text \<open>
  The Double Ratchet: \<open>src/ratchet/ratchet_state.hpp\<close> and \<open>src/ratchet.cpp\<close>.  The state of a session
  is the record \<open>ZiaSession\<close>; the exported operations are \<open>zia_session_encrypt\<close> and
  \<open>zia_session_decrypt\<close>, with the helpers of the source in the order the file has them.  An operation
  returns its outcome, the session as it is left in memory (also after an error) and the environment.
\<close>

section \<open>State\<close>

record ZiaSkippedKey =
  sk_dh_public :: bytes
  sk_n :: u32
  sk_key :: bytes

record ZiaSession =
  s_ad :: bytes
  s_dhs_public :: bytes
  s_dhs_private :: bytes
  s_has_dhr :: bool
  s_dhr_public :: bytes
  s_root_key :: bytes
  s_has_send_chain :: bool
  s_send_chain_key :: bytes
  s_has_recv_chain :: bool
  s_recv_chain_key :: bytes
  s_ns :: u32
  s_nr :: u32
  s_pn :: u32
  s_skipped :: "ZiaSkippedKey list"

definition kMaxSkippedKeys :: nat where "kMaxSkippedKeys = 1000"

text \<open>\<open>new ZiaSession()\<close>: the member initialisers.\<close>

definition new_ZiaSession :: ZiaSession where
  "new_ZiaSession =
     \<lparr>s_ad = replicate 64 0, s_dhs_public = replicate 32 0, s_dhs_private = [],
      s_has_dhr = False, s_dhr_public = replicate 32 0, s_root_key = [],
      s_has_send_chain = False, s_send_chain_key = [],
      s_has_recv_chain = False, s_recv_chain_key = [],
      s_ns = 0, s_nr = 0, s_pn = 0, s_skipped = []\<rparr>"

section \<open>Message header\<close>

definition kHeaderLen :: nat where "kHeaderLen = 4 + 4 + 32"

definition encode_header :: "u32 \<Rightarrow> u32 \<Rightarrow> bytes \<Rightarrow> bytes" where
  "encode_header pn n dh_public = write_u32_le pn @ write_u32_le n @ take 32 dh_public"

definition decode_header :: "bytes \<Rightarrow> u32 \<times> u32 \<times> bytes" where
  "decode_header inp = (read_u32_le inp, read_u32_le (drop 4 inp), take 32 (drop 8 inp))"

section \<open>Key derivation\<close>

definition kdf_rk :: "lib \<Rightarrow> bytes \<Rightarrow> bytes \<Rightarrow> bytes \<times> bytes" where
  "kdf_rk L rk dh_out =
     (let both = hkdf_sha256 L rk dh_out (ascii ''ZiaCrypteRatchetStep'') 64
      in (take 32 both, take 32 (drop 32 both)))"

definition kdf_ck :: "lib \<Rightarrow> bytes \<Rightarrow> (bytes \<times> bytes) option" where
  "kdf_ck L ck =
     (case hmac_sha256 L ck 0x01 of None \<Rightarrow> None
      | Some mk \<Rightarrow> (case hmac_sha256 L ck 0x02 of None \<Rightarrow> None
          | Some nxt \<Rightarrow> Some (nxt, mk)))"

section \<open>Keys set aside for late messages\<close>

definition cache_store :: "nat \<Rightarrow> 'e list \<Rightarrow> 'e \<Rightarrow> 'e list" where
  "cache_store cap c x = (if length c \<ge> cap then tl c else c) @ [x]"

definition store_skipped_key :: "ZiaSession \<Rightarrow> bytes \<Rightarrow> u32 \<Rightarrow> bytes \<Rightarrow> ZiaSession" where
  "store_skipped_key s dh_public n key =
     s\<lparr>s_skipped := cache_store kMaxSkippedKeys (s_skipped s)
          \<lparr>sk_dh_public = dh_public, sk_n = n, sk_key = key\<rparr>\<rparr>"

definition cache_take :: "('e \<Rightarrow> bool) \<Rightarrow> 'e list \<Rightarrow> ('e \<times> 'e list) option" where
  "cache_take p c = (case find_index p c of None \<Rightarrow> None | Some i \<Rightarrow> Some (c ! i, erase_at i c))"

definition take_skipped_key :: "ZiaSession \<Rightarrow> bytes \<Rightarrow> u32 \<Rightarrow> (bytes \<times> ZiaSession) option" where
  "take_skipped_key s dh_public n =
     (case cache_take (\<lambda>sk. sk_n sk = n \<and> sk_dh_public sk = dh_public) (s_skipped s) of
        None \<Rightarrow> None
      | Some (sk, c) \<Rightarrow> Some (sk_key sk, s\<lparr>s_skipped := c\<rparr>))"

function skip_loop :: "lib \<Rightarrow> ZiaSession \<Rightarrow> u32 \<Rightarrow> ZiaSession option" where
  "skip_loop L s until =
     (if s_nr s < until then
        (case kdf_ck L (s_recv_chain_key s) of
           None \<Rightarrow> None
         | Some (next_ck, mk) \<Rightarrow>
             skip_loop L ((store_skipped_key s (s_dhr_public s) (s_nr s) mk)
               \<lparr>s_recv_chain_key := next_ck, s_nr := s_nr s + 1\<rparr>) until)
      else Some s)"
  by pat_completeness auto
termination
  by (relation "measure (\<lambda>(L, s, until). unat until - unat (s_nr s))")
    (auto simp: store_skipped_key_def word_less_Suc_unat word_less_nat_alt intro!: diff_less_mono2)

declare skip_loop.simps [simp del]

text \<open>\<open>None\<close>: the loop read outside the chain key buffer.\<close>

definition skip_recv_chain_to :: "lib \<Rightarrow> ZiaSession \<Rightarrow> u32 \<Rightarrow> (ZiaStatus \<times> ZiaSession) option" where
  "skip_recv_chain_to L s until =
     (if \<not> s_has_recv_chain s then Some (ZIA_OK, s)
      else if until \<le> s_nr s then Some (ZIA_OK, s)
      else if unat (until - s_nr s) > kMaxSkippedKeys then Some (ZIA_ERR_SKIPPED_KEY_LIMIT, s)
      else map_option (\<lambda>s'. (ZIA_OK, s')) (skip_loop L s until))"

section \<open>Diffie-Hellman ratchet\<close>

text \<open>
  The result of \<open>x25519_scalarmult\<close> is not tested here: when it fails (a public key of low order) the
  output buffer keeps its indeterminate content.
\<close>

definition scalarmult_unchecked :: "lib \<Rightarrow> bytes \<Rightarrow> bytes \<Rightarrow> bytes" where
  "scalarmult_unchecked L priv pub =
     (case x25519_scalarmult L priv pub of Some d \<Rightarrow> d | None \<Rightarrow> uninit32 L (priv @ pub))"

definition dh_ratchet_step :: "lib \<Rightarrow> ZiaSession \<Rightarrow> bytes \<Rightarrow> env \<Rightarrow> ZiaSession \<times> env" where
  "dh_ratchet_step L s their_new_dh_public e =
     (let dh_out = scalarmult_unchecked L (s_dhs_private s) their_new_dh_public;
          (new_rk, new_ckr) = kdf_rk L (s_root_key s) dh_out;
          s1 = s\<lparr>s_pn := s_ns s, s_ns := 0, s_nr := 0, s_dhr_public := their_new_dh_public,
                 s_has_dhr := True, s_recv_chain_key := new_ckr, s_has_recv_chain := True\<rparr>;
          ((new_dhs_pub, new_dhs_priv), e1) = x25519_keypair L e;
          dh_out2 = scalarmult_unchecked L new_dhs_priv their_new_dh_public;
          (new_rk2, new_cks) = kdf_rk L new_rk dh_out2
      in (s1\<lparr>s_dhs_public := new_dhs_pub, s_dhs_private := new_dhs_priv, s_root_key := new_rk2,
             s_send_chain_key := new_cks, s_has_send_chain := True\<rparr>, e1))"

definition init_as_initiator ::
  "lib \<Rightarrow> ZiaSession \<Rightarrow> bytes \<Rightarrow> bytes \<Rightarrow> env \<Rightarrow> ZiaSession \<times> env" where
  "init_as_initiator L session sk their_initial_dh_public e =
     (let ((pub, priv), e1) = x25519_keypair L e;
          dh_out = scalarmult_unchecked L priv their_initial_dh_public;
          (new_rk, new_cks) = kdf_rk L sk dh_out
      in (session\<lparr>s_dhs_public := pub, s_dhs_private := priv,
            s_dhr_public := their_initial_dh_public, s_has_dhr := True,
            s_root_key := new_rk, s_send_chain_key := new_cks, s_has_send_chain := True\<rparr>, e1))"

definition init_as_responder ::
  "ZiaSession \<Rightarrow> bytes \<Rightarrow> bytes \<Rightarrow> bytes \<Rightarrow> ZiaSession" where
  "init_as_responder session sk my_initial_dh_public my_initial_dh_private =
     session\<lparr>s_dhs_public := my_initial_dh_public, s_dhs_private := my_initial_dh_private,
             s_has_dhr := False, s_root_key := sk\<rparr>"

section \<open>Encryption and decryption\<close>

definition zero_nonce :: bytes where "zero_nonce = replicate 12 0"

definition zia_session_encrypt ::
  "lib \<Rightarrow> bool \<Rightarrow> ZiaSession \<Rightarrow> cbuf \<Rightarrow> env \<Rightarrow> (bytes \<times> bytes) res \<times> ZiaSession \<times> env" where
  "zia_session_encrypt L nn session plaintext e =
     (if \<not> nn then (Err ZIA_ERR_INVALID_ARG, session, e)
      else if \<not> s_has_send_chain session then (Err ZIA_ERR_SESSION_NOT_FOUND, session, e)
      else case kdf_ck L (s_send_chain_key session) of
        None \<Rightarrow> (Crash, session, e)
      | Some (next_ck, mk) \<Rightarrow>
          let (okh, e1) = malloc L kHeaderLen e in
          if \<not> okh then (Err ZIA_ERR_OUT_OF_MEMORY, session, e1) else
          let header = encode_header (s_pn session) (s_ns session) (s_dhs_public session);
              (okc, e2) = malloc L (buf_len plaintext + 16) e1 in
          if \<not> okc then (Err ZIA_ERR_OUT_OF_MEMORY, session, e2) else
          (case buf_read plaintext of
             None \<Rightarrow> (Crash, session, e2)
           | Some pt \<Rightarrow>
             (case aead_encrypt L mk zero_nonce pt (s_ad session @ header) of
                None \<Rightarrow> (Err ZIA_ERR_CRYPTO_FAILURE, session, e2)
              | Some ciphertext \<Rightarrow>
                  (Ok (header, ciphertext),
                   session\<lparr>s_send_chain_key := next_ck, s_ns := s_ns session + 1\<rparr>, e2))))"

text \<open>Allocate the output and decrypt under a message key.\<close>

definition open_with ::
  "lib \<Rightarrow> bytes \<Rightarrow> bytes \<Rightarrow> bytes \<Rightarrow> env \<Rightarrow> bytes res \<times> env" where
  "open_with L key ciphertext ad e =
     (let plaintext_len = length ciphertext - 16;
          (ok, e1) = malloc L (if plaintext_len \<noteq> 0 then plaintext_len else 1) e
      in if \<not> ok then (Err ZIA_ERR_OUT_OF_MEMORY, e1)
         else case aead_decrypt L key zero_nonce ciphertext ad of
           None \<Rightarrow> (Err ZIA_ERR_CRYPTO_FAILURE, e1)
         | Some plaintext \<Rightarrow> (Ok plaintext, e1))"

text \<open>Step 3 of the decryption: a new remote key closes the current chain and advances the ratchet.\<close>

definition follow_remote_key ::
  "lib \<Rightarrow> ZiaSession \<Rightarrow> u32 \<Rightarrow> bytes \<Rightarrow> env \<Rightarrow> (ZiaStatus \<times> ZiaSession \<times> env) option" where
  "follow_remote_key L s pn dh_public e =
     (if \<not> s_has_dhr s \<or> s_dhr_public s \<noteq> dh_public then
        (case skip_recv_chain_to L s pn of
           None \<Rightarrow> None
         | Some (rc, s1) \<Rightarrow>
             if rc \<noteq> ZIA_OK then Some (rc, s1, e)
             else let (s2, e2) = dh_ratchet_step L s1 dh_public e in Some (ZIA_OK, s2, e2))
      else Some (ZIA_OK, s, e))"

definition zia_session_decrypt ::
  "lib \<Rightarrow> bool \<Rightarrow> ZiaSession \<Rightarrow> bytes \<Rightarrow> bytes \<Rightarrow> env \<Rightarrow> bytes res \<times> ZiaSession \<times> env" where
  "zia_session_decrypt L nn session header ciphertext e =
     (if \<not> nn \<or> length header \<noteq> kHeaderLen then (Err ZIA_ERR_INVALID_ARG, session, e)
      else if length ciphertext < 16 then (Err ZIA_ERR_INVALID_ARG, session, e)
      else let (pn, n, dh_public) = decode_header header;
               ad = s_ad session @ header in
      case take_skipped_key session dh_public n of
        Some (skipped_key, s1) \<Rightarrow>
          let (r, e1) = open_with L skipped_key ciphertext ad e in (r, s1, e1)
      | None \<Rightarrow>
          if s_has_recv_chain session \<and> s_dhr_public session = dh_public \<and> n < s_nr session
          then (Err ZIA_ERR_REPLAY_DETECTED, session, e)
          else case follow_remote_key L session pn dh_public e of
            None \<Rightarrow> (Crash, session, e)
          | Some (rc, s1, e1) \<Rightarrow>
              if rc \<noteq> ZIA_OK then (Err rc, s1, e1)
              else case skip_recv_chain_to L s1 n of
                None \<Rightarrow> (Crash, s1, e1)
              | Some (rc2, s2) \<Rightarrow>
                  if rc2 \<noteq> ZIA_OK then (Err rc2, s2, e1)
                  else case kdf_ck L (s_recv_chain_key s2) of
                    None \<Rightarrow> (Crash, s2, e1)
                  | Some (next_ck, mk) \<Rightarrow>
                      let (r, e2) = open_with L mk ciphertext ad e1 in
                      (case r of
                         Ok plaintext \<Rightarrow>
                           (Ok plaintext,
                            s2\<lparr>s_recv_chain_key := next_ck, s_nr := s_nr s2 + 1\<rparr>, e2)
                       | _ \<Rightarrow> (r, s2, e2)))"

section \<open>The interfaces it provides\<close>

text \<open>Both the ratchet and the sender keys store and take keys with the same two vector idioms.\<close>

lemma cache_take_None: "cache_take p c = None \<longleftrightarrow> (\<forall>x \<in> set c. \<not> p x)"
  by (auto simp: cache_take_def find_index_None split: option.splits)
    (metis find_index_None option.distinct(1))

lemma cache_take_Some:
  "cache_take p c = Some (x, c') \<Longrightarrow> \<exists>i < length c. c ! i = x \<and> p x \<and> c' = erase_at i c"
  by (auto simp: cache_take_def split: option.splits dest!: find_index_Some)

definition skipped_id :: "ZiaSkippedKey \<Rightarrow> bytes \<times> u32" where
  "skipped_id sk = (sk_dh_public sk, sk_n sk)"

interpretation rcache: key_cache kMaxSkippedKeys skipped_id "cache_store kMaxSkippedKeys"
  "\<lambda>c k. cache_take (\<lambda>sk. sk_n sk = snd k \<and> sk_dh_public sk = fst k) c"
  by unfold_locales
    (auto simp: kMaxSkippedKeys_def cache_store_def cache_take_None skipped_id_def image_iff
      dest!: cache_take_Some)

lemma kdf_ck_defined:
  "sizes_ok L \<Longrightarrow> length ck = 32 \<Longrightarrow>
     kdf_ck L ck = Some (crypto_auth_hmacsha256 L ck [2], crypto_auth_hmacsha256 L ck [1])"
  by (simp add: kdf_ck_def hmac_sha256_def)

lemma kdf_ck_None: "kdf_ck L ck = None \<longleftrightarrow> length ck < 32"
  by (simp add: kdf_ck_def hmac_sha256_def)

text \<open>The chain is live on 32-byte keys as soon as the library produces 32-byte MACs.\<close>

definition chain_live :: "lib \<Rightarrow> bytes \<Rightarrow> bool" where
  "chain_live L ck \<longleftrightarrow> sizes_ok L \<and> length ck = 32"

interpretation rchain: kdf_iface "kdf_ck L" "chain_live L" "\<lambda>mk. length mk = 32" for L
  by unfold_locales (auto simp: chain_live_def kdf_ck_defined sizes_lens)

section \<open>Headers\<close>

lemma length_encode_header [simp]: "length dh = 32 \<Longrightarrow> length (encode_header pn n dh) = kHeaderLen"
  by (simp add: encode_header_def kHeaderLen_def)

lemma decode_encode_header:
  "length dh = 32 \<Longrightarrow> decode_header (encode_header pn n dh) = (pn, n, dh)"
  by (simp add: decode_header_def encode_header_def le32.get_put le32.get_put_exact)

section \<open>The skip loop in closed form\<close>

text \<open>The entries the loop sets aside: one per position, with the message key of that position.\<close>

primrec skip_entries :: "lib \<Rightarrow> bytes \<Rightarrow> u32 \<Rightarrow> nat \<Rightarrow> bytes \<Rightarrow> ZiaSkippedKey list" where
  "skip_entries L dh i 0 ck = []"
| "skip_entries L dh i (Suc k) ck =
     \<lparr>sk_dh_public = dh, sk_n = i, sk_key = chain_key (kdf_ck L) ck\<rparr> #
       skip_entries L dh (i + 1) k (chain_next (kdf_ck L) ck)"

lemma length_skip_entries [simp]: "length (skip_entries L dh i k ck) = k"
  by (induction k arbitrary: i ck) auto

lemma nth_skip_entries:
  "j < k \<Longrightarrow> skip_entries L dh i k ck ! j =
     \<lparr>sk_dh_public = dh, sk_n = i + of_nat j,
      sk_key = chain_key (kdf_ck L) ((chain_next (kdf_ck L) ^^ j) ck)\<rparr>"
proof (induction k arbitrary: i ck j)
  case 0
  then show ?case by simp
next
  case (Suc k)
  then show ?case
    by (cases j) (simp_all add: funpow_swap1 add.assoc add.commute)
qed

lemma skip_loop_closed:
  assumes "chain_live L (s_recv_chain_key s)" "s_nr s \<le> until"
  shows "skip_loop L s until =
    (let k = unat (until - s_nr s) in
     Some (s\<lparr>s_recv_chain_key := (chain_next (kdf_ck L) ^^ k) (s_recv_chain_key s), s_nr := until,
             s_skipped := foldl (cache_store kMaxSkippedKeys) (s_skipped s)
               (skip_entries L (s_dhr_public s) (s_nr s) k (s_recv_chain_key s))\<rparr>))"
  using assms
proof (induction L s until rule: skip_loop.induct)
  case (1 L s until)
  let ?ck = "s_recv_chain_key s"
  let ?s1 = "(store_skipped_key s (s_dhr_public s) (s_nr s) (chain_key (kdf_ck L) ?ck))
    \<lparr>s_recv_chain_key := chain_next (kdf_ck L) ?ck, s_nr := s_nr s + 1\<rparr>"
  show ?case
  proof (cases "s_nr s < until")
    case False
    with "1.prems"(2) have "until = s_nr s" by simp
    then show ?thesis by (subst skip_loop.simps) simp
  next
    case True
    have step: "kdf_ck L ?ck = Some (chain_next (kdf_ck L) ?ck, chain_key (kdf_ck L) ?ck)"
      by (rule rchain.step_eq [OF "1.prems"(1)])
    have le: "s_nr s + 1 \<le> until" using True by (rule word_less_inc_le)
    have k: "unat (until - s_nr s) = Suc (unat (until - (s_nr s + 1)))"
      using True by (rule unat_diff_Suc)
    have "skip_loop L s until = skip_loop L ?s1 until"
      using True step by (subst skip_loop.simps) simp
    also have "\<dots> = Some (?s1\<lparr>s_recv_chain_key :=
          (chain_next (kdf_ck L) ^^ unat (until - (s_nr s + 1))) (chain_next (kdf_ck L) ?ck),
        s_nr := until,
        s_skipped := foldl (cache_store kMaxSkippedKeys) (s_skipped ?s1)
          (skip_entries L (s_dhr_public s) (s_nr s + 1) (unat (until - (s_nr s + 1)))
             (chain_next (kdf_ck L) ?ck))\<rparr>)"
      using "1.IH" [OF True step] "1.prems"(1) le
      by (simp add: rchain.next_ok store_skipped_key_def Let_def)
    finally show ?thesis
      by (simp add: k Let_def store_skipped_key_def funpow_swap1)
  qed
qed

section \<open>The session invariant\<close>

definition wf_skipped :: "ZiaSkippedKey \<Rightarrow> bool" where
  "wf_skipped sk \<longleftrightarrow> length (sk_dh_public sk) = 32 \<and> length (sk_key sk) = 32"

text \<open>
  Every buffer has the size the code assumes of it, a live chain has its key, receiving implies
  knowing the remote key, and the cache of skipped keys respects its bound.
\<close>

definition wf_session :: "ZiaSession \<Rightarrow> bool" where
  "wf_session s \<longleftrightarrow>
     length (s_ad s) = 64 \<and> length (s_dhs_public s) = 32 \<and> length (s_dhs_private s) = 32 \<and>
     length (s_dhr_public s) = 32 \<and> length (s_root_key s) = 32 \<and>
     (s_has_send_chain s \<longrightarrow> length (s_send_chain_key s) = 32) \<and>
     (s_has_recv_chain s \<longrightarrow> length (s_recv_chain_key s) = 32 \<and> s_has_dhr s) \<and>
     length (s_skipped s) \<le> kMaxSkippedKeys \<and> list_all wf_skipped (s_skipped s)"

lemma skip_entries_wf:
  "chain_live L ck \<Longrightarrow> length dh = 32 \<Longrightarrow> list_all wf_skipped (skip_entries L dh i k ck)"
  by (induction k arbitrary: i ck) (auto simp: wf_skipped_def rchain.key_ok rchain.next_ok)

lemma foldl_store_wf:
  "list_all wf_skipped c \<Longrightarrow> list_all wf_skipped xs \<Longrightarrow>
     list_all wf_skipped (foldl (cache_store kMaxSkippedKeys) c xs)"
  using rcache.set_foldl_store [of c xs] by (auto simp: list_all_iff)

text \<open>Skipping never crashes on a well-formed session; it is total and keeps the invariant.\<close>

lemma skip_recv_chain_to_total:
  assumes "sizes_ok L" "wf_session s"
  obtains "skip_recv_chain_to L s until = Some (ZIA_ERR_SKIPPED_KEY_LIMIT, s)"
      "s_has_recv_chain s" "unat (until - s_nr s) > kMaxSkippedKeys" "s_nr s < until"
  | s' where "skip_recv_chain_to L s until = Some (ZIA_OK, s')" "wf_session s'"
      "s_has_recv_chain s' = s_has_recv_chain s" "s_has_dhr s' = s_has_dhr s"
      "s_dhr_public s' = s_dhr_public s" "s_ad s' = s_ad s" "s_root_key s' = s_root_key s"
      "s_dhs_private s' = s_dhs_private s" "s_dhs_public s' = s_dhs_public s"
      "s_ns s' = s_ns s" "s_pn s' = s_pn s"
proof (cases "s_has_recv_chain s \<and> s_nr s < until")
  case False
  then have "skip_recv_chain_to L s until = Some (ZIA_OK, s)"
    by (auto simp: skip_recv_chain_to_def)
  with that(2) assms(2) show thesis by blast
next
  case True
  show thesis
  proof (cases "unat (until - s_nr s) > kMaxSkippedKeys")
    case big: True
    with True have "skip_recv_chain_to L s until = Some (ZIA_ERR_SKIPPED_KEY_LIMIT, s)"
      by (auto simp: skip_recv_chain_to_def)
    with that(1) True big show thesis by blast
  next
    case False
    have live: "chain_live L (s_recv_chain_key s)"
      using assms True by (simp add: chain_live_def wf_session_def)
    note closed = skip_loop_closed [OF live, of until]
    obtain s' where s': "skip_loop L s until = Some s'" using closed True by (auto simp: Let_def)
    have eq: "skip_recv_chain_to L s until = Some (ZIA_OK, s')"
      using True False s' by (auto simp: skip_recv_chain_to_def)
    have "length ((chain_next (kdf_ck L) ^^ n) (s_recv_chain_key s)) = 32" for n
      using rchain.funpow_ok [OF live] by (simp add: chain_live_def)
    moreover have "list_all wf_skipped (skip_entries L (s_dhr_public s) i k (s_recv_chain_key s))" for i k
      using skip_entries_wf [OF live] assms(2) by (simp add: wf_session_def)
    ultimately have "wf_session s'"
      using assms(2) closed True s'
      by (auto simp: Let_def wf_session_def foldl_store_wf rcache.foldl_store_bound)
    with that(2) [OF eq] closed True s' show thesis
      by (auto simp: Let_def)
  qed
qed

lemma kdf_rk_fst_snd_lens:
  "sizes_ok L \<Longrightarrow> length (fst (kdf_rk L rk d)) = 32"
  "sizes_ok L \<Longrightarrow> length (snd (kdf_rk L rk d)) = 32"
  by (simp_all add: kdf_rk_def Let_def length_hkdf_sha256)

text \<open>The ratchet step without the bindings of the code.\<close>

lemma dh_ratchet_step_eq:
  "dh_ratchet_step L s dh e =
     (let r1 = kdf_rk L (s_root_key s) (scalarmult_unchecked L (s_dhs_private s) dh);
          kp = crypto_box_keypair L (e_draw e);
          r2 = kdf_rk L (fst r1) (scalarmult_unchecked L (snd kp) dh)
      in (s\<lparr>s_pn := s_ns s, s_ns := 0, s_nr := 0, s_dhr_public := dh, s_has_dhr := True,
            s_recv_chain_key := snd r1, s_has_recv_chain := True, s_dhs_public := fst kp,
            s_dhs_private := snd kp, s_root_key := fst r2, s_send_chain_key := snd r2,
            s_has_send_chain := True\<rparr>, e\<lparr>e_draw := Suc (e_draw e)\<rparr>))"
  by (simp add: dh_ratchet_step_def x25519_keypair_def draw_def Let_def case_prod_beta)

lemma dh_ratchet_step_wf:
  assumes "sizes_ok L" "wf_session s" "length dh = 32"
  shows "wf_session (fst (dh_ratchet_step L s dh e))"
  using assms
  by (simp add: dh_ratchet_step_eq Let_def wf_session_def kdf_rk_fst_snd_lens sizes_lens)

lemma follow_remote_key_total:
  assumes "sizes_ok L" "wf_session s" "length dh = 32"
  obtains "follow_remote_key L s pn dh e = Some (ZIA_ERR_SKIPPED_KEY_LIMIT, s, e)"
  | s' e' where "follow_remote_key L s pn dh e = Some (ZIA_OK, s', e')" "wf_session s'"
      "s_ad s' = s_ad s" "s_has_dhr s'" "s_dhr_public s' = dh"
      "s_has_recv_chain s' \<longleftrightarrow> s_has_recv_chain s \<or> \<not> s_has_dhr s \<or> s_dhr_public s \<noteq> dh"
proof (cases "s_has_dhr s \<and> s_dhr_public s = dh")
  case True
  then have "follow_remote_key L s pn dh e = Some (ZIA_OK, s, e)"
    by (simp add: follow_remote_key_def)
  with that(2) True assms(2) show thesis by blast
next
  case False
  then have new: "\<not> s_has_dhr s \<or> s_dhr_public s \<noteq> dh" by blast
  from assms(1,2) show thesis
  proof (cases rule: skip_recv_chain_to_total [where until = pn])
    case 1
    with new that(1) show thesis by (simp add: follow_remote_key_def)
  next
    case (2 s')
    let ?p = "dh_ratchet_step L s' dh e"
    have "follow_remote_key L s pn dh e = Some (ZIA_OK, fst ?p, snd ?p)"
      using 2(1) new by (simp add: follow_remote_key_def case_prod_beta)
    moreover have "s_ad (fst ?p) = s_ad s" "s_has_dhr (fst ?p)" "s_dhr_public (fst ?p) = dh"
      "s_has_recv_chain (fst ?p)"
      using 2 by (simp_all add: dh_ratchet_step_eq Let_def)
    ultimately show thesis
      using that(2) dh_ratchet_step_wf [OF assms(1) 2(2) assms(3)] new by blast
  qed
qed

lemma take_skipped_key_wf:
  "take_skipped_key s dh n = Some (k, s') \<Longrightarrow> wf_session s \<Longrightarrow> wf_session s'"
  using rcache.take_subset [where c = "s_skipped s" and k = "(dh, n)"]
    rcache.take_shrinks [where c = "s_skipped s" and k = "(dh, n)"]
  by (fastforce simp: take_skipped_key_def wf_session_def list_all_iff split: option.splits)

lemma encrypt_wf:
  assumes "sizes_ok L" "wf_session s" "zia_session_encrypt L nn s pt e = (r, s', e')"
  shows "wf_session s' \<and> (r = Crash \<longrightarrow> buf_bad pt)"
proof -
  have "kdf_ck L (s_send_chain_key s) =
      Some (crypto_auth_hmacsha256 L (s_send_chain_key s) [2], crypto_auth_hmacsha256 L (s_send_chain_key s) [1])"
    if "s_has_send_chain s"
    using assms(1,2) that by (simp add: kdf_ck_defined wf_session_def)
  with assms show ?thesis
    by (auto simp: zia_session_encrypt_def wf_session_def sizes_lens Let_def buf_read_None
        split: if_splits option.splits prod.splits)
qed

lemma open_with_no_crash: "fst (open_with L k c ad e) \<noteq> Crash"
  by (simp add: open_with_def Let_def case_prod_beta split: option.split)

text \<open>
  The tail of the decryption, after the ratchet has followed the remote key: skip to \<open>n\<close>, derive the
  message key, open the message.
\<close>

definition receive_on_chain ::
  "lib \<Rightarrow> ZiaSession \<Rightarrow> u32 \<Rightarrow> bytes \<Rightarrow> bytes \<Rightarrow> env \<Rightarrow> bytes res \<times> ZiaSession \<times> env" where
  "receive_on_chain L s1 n ciphertext ad e1 =
     (case skip_recv_chain_to L s1 n of
        None \<Rightarrow> (Crash, s1, e1)
      | Some (rc2, s2) \<Rightarrow>
          if rc2 \<noteq> ZIA_OK then (Err rc2, s2, e1)
          else case kdf_ck L (s_recv_chain_key s2) of
            None \<Rightarrow> (Crash, s2, e1)
          | Some (next_ck, mk) \<Rightarrow>
              let (r, e2) = open_with L mk ciphertext ad e1 in
              (case r of
                 Ok plaintext \<Rightarrow>
                   (Ok plaintext, s2\<lparr>s_recv_chain_key := next_ck, s_nr := s_nr s2 + 1\<rparr>, e2)
               | _ \<Rightarrow> (r, s2, e2)))"

lemma decrypt_cases:
  assumes "length header = kHeaderLen" "16 \<le> length ct" "decode_header header = (pn, n, dh)"
  shows "zia_session_decrypt L True s header ct e =
    (case take_skipped_key s dh n of
       Some (k, s1) \<Rightarrow> let (r, e1) = open_with L k ct (s_ad s @ header) e in (r, s1, e1)
     | None \<Rightarrow>
         if s_has_recv_chain s \<and> s_dhr_public s = dh \<and> n < s_nr s
         then (Err ZIA_ERR_REPLAY_DETECTED, s, e)
         else case follow_remote_key L s pn dh e of
           None \<Rightarrow> (Crash, s, e)
         | Some (rc, s1, e1) \<Rightarrow>
             if rc \<noteq> ZIA_OK then (Err rc, s1, e1)
             else receive_on_chain L s1 n ct (s_ad s @ header) e1)"
  using assms by (simp add: zia_session_decrypt_def receive_on_chain_def split: option.split)

lemma decrypt_guard:
  "\<not> nn \<or> length header \<noteq> kHeaderLen \<or> length ct < 16 \<Longrightarrow>
     zia_session_decrypt L nn s header ct e = (Err ZIA_ERR_INVALID_ARG, s, e)"
  by (auto simp: zia_session_decrypt_def)

lemma receive_on_chain_wf:
  assumes "sizes_ok L" "wf_session s" "receive_on_chain L s n ct ad e = (r, s', e')"
  shows "wf_session s' \<and> (r = Crash \<longrightarrow> \<not> s_has_recv_chain s)"
  using assms(1,2)
proof (cases rule: skip_recv_chain_to_total [where until = n])
  case 1
  with assms show ?thesis by (auto simp: receive_on_chain_def)
next
  case (2 s2)
  have next_len: "length c = 32" if "kdf_ck L ck = Some (c, k)" for ck c k
    using that assms(1)
    by (auto simp: kdf_ck_def hmac_sha256_def sizes_lens split: option.splits if_splits)
  show ?thesis
  proof (cases "kdf_ck L (s_recv_chain_key s2)")
    case None
    then have "length (s_recv_chain_key s2) < 32" by (simp add: kdf_ck_None)
    with 2 None assms(3) show ?thesis by (auto simp: receive_on_chain_def wf_session_def)
  next
    case (Some p)
    obtain nc mk where p: "p = (nc, mk)" by (cases p)
    obtain r1 e1 where o: "open_with L mk ct ad e = (r1, e1)" by (cases "open_with L mk ct ad e")
    have "r1 \<noteq> Crash" using open_with_no_crash [of L mk ct ad e] o by simp
    moreover have "wf_session (s2\<lparr>s_recv_chain_key := nc, s_nr := s_nr s2 + 1\<rparr>)"
      using 2(2) next_len Some p by (simp add: wf_session_def)
    ultimately show ?thesis
      using 2 Some p o assms(3) by (auto simp: receive_on_chain_def split: res.splits)
  qed
qed

lemma decode_header_len:
  "decode_header header = (pn, n, dh) \<Longrightarrow> length header = kHeaderLen \<Longrightarrow> length dh = 32"
  by (auto simp: decode_header_def kHeaderLen_def)

lemma decrypt_wf:
  assumes "sizes_ok L" "wf_session s" "zia_session_decrypt L nn s header ct e = (r, s', e')"
  shows "wf_session s' \<and>
    (r = Crash \<longrightarrow> s_has_dhr s \<and> \<not> s_has_recv_chain s \<and> snd (snd (decode_header header)) = s_dhr_public s)"
proof (cases "nn \<and> length header = kHeaderLen \<and> 16 \<le> length ct")
  case False
  then have "zia_session_decrypt L nn s header ct e = (Err ZIA_ERR_INVALID_ARG, s, e)"
    by (intro decrypt_guard) auto
  with assms show ?thesis by auto
next
  case True
  obtain pn n dh where d: "decode_header header = (pn, n, dh)" by (cases "decode_header header")
  have dh: "length dh = 32" using decode_header_len [OF d] True by blast
  note eq = decrypt_cases [of header ct pn n dh L s e, OF _ _ d]
  show ?thesis
  proof (cases "take_skipped_key s dh n")
    case (Some p)
    obtain k s1 where p: "p = (k, s1)" by (cases p)
    have "wf_session s1" using take_skipped_key_wf Some p assms(2) by blast
    with Some p eq True assms(3) open_with_no_crash [of L k ct "s_ad s @ header" e] show ?thesis
      by (auto simp: case_prod_beta)
  next
    case None
    show ?thesis
    proof (cases "s_has_recv_chain s \<and> s_dhr_public s = dh \<and> n < s_nr s")
      case True
      with None eq \<open>nn \<and> _\<close> assms show ?thesis by auto
    next
      case False
      from assms(1,2) dh show ?thesis
      proof (cases rule: follow_remote_key_total [where pn = pn and e = e])
        case 1
        with None False eq True assms show ?thesis by auto
      next
        case (2 s1 e1)
        have "receive_on_chain L s1 n ct (s_ad s @ header) e1 = (r, s', e')"
          using None False eq True assms(3) 2(1) by auto
        from receive_on_chain_wf [OF assms(1) 2(2) this] 2 d show ?thesis by auto
      qed
    qed
  qed
qed

section \<open>Initial sessions\<close>

lemma init_as_initiator_wf:
  assumes "sizes_ok L" "length sk = 32" "length their = 32" "length (s_ad s) = 64" "\<not> s_has_recv_chain s"
    "length (s_skipped s) \<le> kMaxSkippedKeys" "list_all wf_skipped (s_skipped s)"
  shows "wf_session (fst (init_as_initiator L s sk their e))"
  using assms
  by (simp add: init_as_initiator_def x25519_keypair_def draw_def case_prod_beta Let_def wf_session_def
      kdf_rk_fst_snd_lens sizes_lens)

lemma init_as_responder_wf:
  assumes "length sk = 32" "length pub = 32" "length priv = 32" "length (s_ad s) = 64"
    "length (s_dhr_public s) = 32" "\<not> s_has_send_chain s" "\<not> s_has_recv_chain s"
    "length (s_skipped s) \<le> kMaxSkippedKeys" "list_all wf_skipped (s_skipped s)"
  shows "wf_session (init_as_responder s sk pub priv)"
  using assms by (simp add: init_as_responder_def wf_session_def)

text \<open>A concrete initiator session, used to apply the theorems below to closed inputs.\<close>

definition sample_initiator :: ZiaSession where
  "sample_initiator =
     fst (init_as_initiator sample_lib (new_ZiaSession\<lparr>s_ad := replicate 64 1\<rparr>)
       (replicate 32 7) (replicate 32 9) env0)"

lemma sample_initiator_wf: "wf_session sample_initiator"
  unfolding sample_initiator_def
  by (rule init_as_initiator_wf) (simp_all add: sample_laws new_ZiaSession_def)

lemma sample_initiator_fields:
  "s_ad sample_initiator = replicate 64 1" "s_has_send_chain sample_initiator"
  "\<not> s_has_recv_chain sample_initiator" "s_recv_chain_key sample_initiator = []"
  "s_has_dhr sample_initiator" "s_dhr_public sample_initiator = replicate 32 9"
  "s_skipped sample_initiator = []" "s_ns sample_initiator = 0" "s_nr sample_initiator = 0"
  by (simp_all add: sample_initiator_def init_as_initiator_def new_ZiaSession_def x25519_keypair_def
      draw_def case_prod_beta Let_def)

section \<open>Properties\<close>

text \<open>
  On a session with a sending chain, \<open>zia_session_encrypt\<close> returns a header carrying
  the session's counters and current public key and a ciphertext 16 bytes longer than the plaintext;
  the ciphertext opens, under the message key of the current chain position and with the identities
  and the header as additional data, to the plaintext.  The session moves exactly one position along
  its sending chain and nothing else of it changes.
\<close>

lemma encrypt_advances_chain:
  assumes "sizes_ok L" "aead_ok L" "mem_ok L" "wf_session s" "s_has_send_chain s"
  shows "\<exists>ct e'. zia_session_encrypt L True s (Buf pt) e =
      (Ok (encode_header (s_pn s) (s_ns s) (s_dhs_public s), ct),
       s\<lparr>s_send_chain_key := crypto_auth_hmacsha256 L (s_send_chain_key s) [2], s_ns := s_ns s + 1\<rparr>, e') \<and>
    length ct = length pt + 16 \<and>
    decode_header (encode_header (s_pn s) (s_ns s) (s_dhs_public s)) = (s_pn s, s_ns s, s_dhs_public s) \<and>
    aead_decrypt L (crypto_auth_hmacsha256 L (s_send_chain_key s) [1]) zero_nonce ct
      (s_ad s @ encode_header (s_pn s) (s_ns s) (s_dhs_public s)) = Some pt"
proof -
  let ?h = "encode_header (s_pn s) (s_ns s) (s_dhs_public s)"
  let ?mk = "crypto_auth_hmacsha256 L (s_send_chain_key s) [1]"
  have len: "length (s_send_chain_key s) = 32" "length (s_dhs_public s) = 32"
    using assms(4,5) by (simp_all add: wf_session_def)
  obtain ct where ct: "chacha20poly1305_encrypt L pt (s_ad s @ ?h) zero_nonce ?mk = Some ct"
    "length ct = length pt + 16" "chacha20poly1305_decrypt L ct (s_ad s @ ?h) zero_nonce ?mk = Some pt"
    using aead_roundtrip [OF assms(2), of zero_nonce ?mk pt "s_ad s @ ?h"] assms(1)
    by (auto simp: zero_nonce_def sizes_lens)
  with assms len show ?thesis
    by (simp add: zia_session_encrypt_def kdf_ck_defined malloc_mem_ok aead_encrypt_def
        aead_decrypt_def decode_encode_header)
qed

text \<open>
  Encryption is atomic: whenever \<open>zia_session_encrypt\<close> does not return a message (null
  pointers, no sending chain, either allocation failing, AEAD failure), the session is unchanged.
\<close>

lemma encrypt_error_keeps_session:
  assumes "zia_session_encrypt L nn s pt e = (r, s', e')" "\<not> is_Ok r"
  shows "s' = s"
  using assms
  by (auto simp: zia_session_encrypt_def Let_def split: if_splits option.splits prod.splits)

section \<open>Skipping, replay, and what a rejected message leaves behind\<close>

lemma take_skipped_key_None:
  "take_skipped_key s dh n = None \<longleftrightarrow> (dh, n) \<notin> skipped_id ` set (s_skipped s)"
  using rcache.take_None [where c = "s_skipped s" and k = "(dh, n)"]
  by (auto simp: take_skipped_key_def split: option.split)

lemma skip_too_far:
  assumes "s_has_recv_chain s" "unat (s_nr s) + 1000 < unat until"
  shows "skip_recv_chain_to L s until = Some (ZIA_ERR_SKIPPED_KEY_LIMIT, s)"
proof -
  have lt: "s_nr s < until" using assms(2) by (simp add: word_less_nat_alt)
  then have "unat (until - s_nr s) = unat until - unat (s_nr s)" by (rule unat_sub_less)
  then have "kMaxSkippedKeys < unat (until - s_nr s)" using assms(2) by (simp add: kMaxSkippedKeys_def)
  then show ?thesis using lt assms(1) by (auto simp: skip_recv_chain_to_def)
qed

lemma skip_near:
  assumes "sizes_ok L" "wf_session s" "s_has_recv_chain s \<longrightarrow> unat until \<le> unat (s_nr s) + 1000"
  obtains s' where "skip_recv_chain_to L s until = Some (ZIA_OK, s')"
  using assms(1,2)
proof (cases rule: skip_recv_chain_to_total [where until = until])
  case 1
  then have "unat (until - s_nr s) = unat until - unat (s_nr s)" by (intro unat_sub_less) simp
  with 1 assms(3) show thesis by (simp add: kMaxSkippedKeys_def)
qed (use that in blast)

text \<open>
  C23 (bounds).  How far a header can make the receiver run ahead, for every kind of header whose key is not set
  aside.  On the current receiving chain a number more than 1000 ahead is refused with \<open>ZIA_ERR_SKIPPED_KEY_LIMIT\<close>
  before any key is derived, and nothing changes.  A header with another remote key is refused in the same way,
  and nothing changes, if it places the end of the current chain more than 1000 ahead.  If it does not, but its own number
  exceeds 1000, it is refused with the same status after the Diffie-Hellman step: the session keeps the step, with
  the keys of the old chain set aside, and no message key of the new chain has been derived.
\<close>

theorem decrypt_skip_limit:
  assumes "sizes_ok L" "wf_session s" "length header = kHeaderLen" "16 \<le> length ct"
    and "decode_header header = (pn, n, dh)" "(dh, n) \<notin> skipped_id ` set (s_skipped s)"
  shows "(s_has_recv_chain s \<and> s_dhr_public s = dh \<and> unat (s_nr s) + 1000 < unat n \<longrightarrow>
      zia_session_decrypt L True s header ct e = (Err ZIA_ERR_SKIPPED_KEY_LIMIT, s, e)) \<and>
    (s_has_recv_chain s \<and> s_dhr_public s \<noteq> dh \<and> unat (s_nr s) + 1000 < unat pn \<longrightarrow>
      zia_session_decrypt L True s header ct e = (Err ZIA_ERR_SKIPPED_KEY_LIMIT, s, e)) \<and>
    ((\<not> s_has_dhr s \<or> s_dhr_public s \<noteq> dh) \<and> (s_has_recv_chain s \<longrightarrow> unat pn \<le> unat (s_nr s) + 1000) \<and> 1000 < unat n \<longrightarrow>
      (\<exists>s0 s1 e1. skip_recv_chain_to L s pn = Some (ZIA_OK, s0) \<and> dh_ratchet_step L s0 dh e = (s1, e1) \<and>
         zia_session_decrypt L True s header ct e = (Err ZIA_ERR_SKIPPED_KEY_LIMIT, s1, e1)))"
proof -
  note eq = decrypt_cases [OF assms(3-5), of L s e]
  have none: "take_skipped_key s dh n = None" using assms(6) by (simp add: take_skipped_key_None)
  have dhr: "s_has_recv_chain s \<longrightarrow> s_has_dhr s" using assms(2) by (simp add: wf_session_def)
  have "zia_session_decrypt L True s header ct e = (Err ZIA_ERR_SKIPPED_KEY_LIMIT, s, e)"
    if "s_has_recv_chain s" "s_dhr_public s = dh" "unat (s_nr s) + 1000 < unat n"
    using skip_too_far [OF that(1,3)] eq none dhr that
    by (simp add: follow_remote_key_def receive_on_chain_def word_less_nat_alt)
  moreover have "zia_session_decrypt L True s header ct e = (Err ZIA_ERR_SKIPPED_KEY_LIMIT, s, e)"
    if "s_has_recv_chain s" "s_dhr_public s \<noteq> dh" "unat (s_nr s) + 1000 < unat pn"
    using skip_too_far [OF that(1,3)] eq none that by (simp add: follow_remote_key_def)
  moreover have "\<exists>s0 s1 e1. skip_recv_chain_to L s pn = Some (ZIA_OK, s0) \<and> dh_ratchet_step L s0 dh e = (s1, e1) \<and>
      zia_session_decrypt L True s header ct e = (Err ZIA_ERR_SKIPPED_KEY_LIMIT, s1, e1)"
    if new: "\<not> s_has_dhr s \<or> s_dhr_public s \<noteq> dh" and pn: "s_has_recv_chain s \<longrightarrow> unat pn \<le> unat (s_nr s) + 1000"
      and n: "1000 < unat n"
  proof -
    obtain s0 where s0: "skip_recv_chain_to L s pn = Some (ZIA_OK, s0)" by (rule skip_near [OF assms(1,2) pn])
    obtain s1 e1 where s1: "dh_ratchet_step L s0 dh e = (s1, e1)" by fastforce
    then have "s_has_recv_chain s1" "s_nr s1 = 0" by (auto simp: dh_ratchet_step_eq Let_def)
    then have "skip_recv_chain_to L s1 n = Some (ZIA_ERR_SKIPPED_KEY_LIMIT, s1)" using n by (intro skip_too_far) simp_all
    with s0 s1 eq none new dhr show ?thesis by (auto simp: follow_remote_key_def receive_on_chain_def)
  qed
  ultimately show ?thesis by blast
qed

definition sample_receiver :: ZiaSession where
  "sample_receiver = sample_initiator\<lparr>s_has_recv_chain := True, s_recv_chain_key := replicate 32 4\<rparr>"

lemma sample_receiver_fields:
  "s_has_dhr sample_receiver" "s_has_recv_chain sample_receiver" "s_nr sample_receiver = 0"
  "s_dhr_public sample_receiver = replicate 32 9" "s_skipped sample_receiver = []"
  "s_ad sample_receiver = replicate 64 1"
  by (simp_all add: sample_receiver_def sample_initiator_fields)

lemma sample_receiver_wf: "wf_session sample_receiver"
  using sample_initiator_wf sample_initiator_fields by (simp add: sample_receiver_def wf_session_def)

theorem decrypt_skip_limit_witness:
  "zia_session_decrypt sample_lib True sample_receiver (encode_header 0 1001 (replicate 32 9))
     (replicate 16 0) env0 = (Err ZIA_ERR_SKIPPED_KEY_LIMIT, sample_receiver, env0) \<and>
   zia_session_decrypt sample_lib True sample_receiver (encode_header 1001 0 (replicate 32 66))
     (replicate 16 0) env0 = (Err ZIA_ERR_SKIPPED_KEY_LIMIT, sample_receiver, env0) \<and>
   (\<exists>s1 e1. zia_session_decrypt sample_lib True sample_receiver (encode_header 0 1001 (replicate 32 66))
     (replicate 16 0) env0 = (Err ZIA_ERR_SKIPPED_KEY_LIMIT, s1, e1))"
proof -
  have d: "length (encode_header pn n (replicate 32 b)) = kHeaderLen"
    "decode_header (encode_header pn n (replicate 32 b)) = (pn, n, replicate 32 b)" for pn n b
    by (simp_all add: decode_encode_header)
  have x: "replicate 32 9 \<noteq> (replicate 32 66 :: bytes)" by simp
  note lim = decrypt_skip_limit [OF sample_sizes_ok sample_receiver_wf d(1) _ d(2), where ct = "replicate 16 0" and e = env0]
  show ?thesis
    using lim [of 9 1001 0] lim [of 66 0 1001] lim [of 66 1001 0] x by (auto simp: sample_receiver_fields)
qed

lemma skip_recv_frame:
  assumes "sizes_ok L" "wf_session s" "skip_recv_chain_to L s until = Some (rc, s')"
  shows "s_has_recv_chain s' = s_has_recv_chain s" "s_has_dhr s' = s_has_dhr s"
    "s_dhr_public s' = s_dhr_public s" "s_ad s' = s_ad s" "wf_session s'"
  using assms(1,2)
  by (cases rule: skip_recv_chain_to_total [where until = until]; use assms(2,3) in simp)+

lemma set_skip_entries_id:
  "skipped_id ` set (skip_entries L dh i k ck) = (\<lambda>j. (dh, i + of_nat j)) ` {..<k}"
  by (force simp: set_conv_nth nth_skip_entries skipped_id_def image_iff)

text \<open>Skipping sets aside keys of the current remote key below the target only.\<close>

lemma skip_recv_ids:
  assumes "sizes_ok L" "wf_session s" "skip_recv_chain_to L s until = Some (ZIA_OK, s')"
  shows "skipped_id ` set (s_skipped s') \<subseteq>
           skipped_id ` set (s_skipped s) \<union>
           (if s_has_recv_chain s then {s_dhr_public s} \<times> {n. n < until} else {})"
    and "s_has_recv_chain s \<Longrightarrow> s_nr s' = max (s_nr s) until"
proof -
  have "skipped_id ` set (s_skipped s') \<subseteq> skipped_id ` set (s_skipped s) \<union>
      (if s_has_recv_chain s then {s_dhr_public s} \<times> {n. n < until} else {}) \<and>
    (s_has_recv_chain s \<longrightarrow> s_nr s' = max (s_nr s) until)"
  proof (cases "s_has_recv_chain s \<and> s_nr s < until")
    case False
    then have "s' = s" using assms(3) by (auto simp: skip_recv_chain_to_def split: if_splits)
    with False show ?thesis by (auto simp: max_def)
  next
    case True
    let ?k = "unat (until - s_nr s)"
    have live: "chain_live L (s_recv_chain_key s)"
      using assms True by (simp add: chain_live_def wf_session_def)
    have "skip_loop L s until = Some s'"
      using True assms(3) by (auto simp: skip_recv_chain_to_def split: if_splits)
    then have sk: "s_skipped s' = foldl (cache_store kMaxSkippedKeys) (s_skipped s)
        (skip_entries L (s_dhr_public s) (s_nr s) ?k (s_recv_chain_key s))" and nr: "s_nr s' = until"
      using skip_loop_closed [OF live, of until] True by (auto simp: Let_def)
    have "s_nr s + of_nat j < until" if "j < ?k" for j
    proof -
      have k: "?k = unat until - unat (s_nr s)" using True by (simp add: unat_sub_less)
      then have "unat (s_nr s) + j < unat until" using that by linarith
      moreover have "unat until < 2 ^ 32" using unsigned_less [of until, where 'a = nat] by simp
      ultimately have "unat (s_nr s + of_nat j) = unat (s_nr s) + j"
        by (simp add: unat_word_ariths unat_of_nat)
      with k that show ?thesis by (simp add: word_less_nat_alt)
    qed
    then have "skipped_id ` set (skip_entries L (s_dhr_public s) (s_nr s) ?k (s_recv_chain_key s))
        \<subseteq> {s_dhr_public s} \<times> {n. n < until}"
      by (auto simp: set_skip_entries_id)
    with sk nr True rcache.set_foldl_store show ?thesis by (fastforce simp: max_def)
  qed
  then show "skipped_id ` set (s_skipped s') \<subseteq> skipped_id ` set (s_skipped s) \<union>
      (if s_has_recv_chain s then {s_dhr_public s} \<times> {n. n < until} else {})"
    and "s_has_recv_chain s \<Longrightarrow> s_nr s' = max (s_nr s) until" by blast+
qed

text \<open>A message at exactly the current position of the receiving chain.\<close>

lemma decrypt_current:
  assumes "sizes_ok L" "mem_ok L" "wf_session s" "s_has_recv_chain s"
    and "(s_dhr_public s, s_nr s) \<notin> skipped_id ` set (s_skipped s)" "16 \<le> length ct"
    and "aead_decrypt L (chain_key (kdf_ck L) (s_recv_chain_key s)) zero_nonce ct
           (s_ad s @ encode_header pn (s_nr s) (s_dhr_public s)) = Some pt"
  shows "zia_session_decrypt L True s (encode_header pn (s_nr s) (s_dhr_public s)) ct e =
    (Ok pt, s\<lparr>s_recv_chain_key := chain_next (kdf_ck L) (s_recv_chain_key s), s_nr := s_nr s + 1\<rparr>,
     e\<lparr>e_alloc := Suc (e_alloc e)\<rparr>)"
proof -
  have len: "length (s_dhr_public s) = 32" "s_has_dhr s" "chain_live L (s_recv_chain_key s)"
    using assms(1,3,4) by (simp_all add: wf_session_def chain_live_def)
  have "take_skipped_key s (s_dhr_public s) (s_nr s) = None"
    using assms(5) by (simp add: take_skipped_key_None)
  with decrypt_cases [OF length_encode_header [OF len(1)] assms(6) decode_encode_header [OF len(1)]]
    assms(2,4,7) len(2) rchain.step_eq [OF len(3)]
  show ?thesis
    by (simp add: follow_remote_key_def receive_on_chain_def skip_recv_chain_to_def open_with_def
        malloc_mem_ok)
qed

lemma minus_one_u32: "(- 1 :: u32) = 0xffffffff"
  by simp

lemma receive_on_chain_Ok:
  assumes "receive_on_chain L s n ct ad e = (Ok pt, s', e')"
  obtains s2 ck where "skip_recv_chain_to L s n = Some (ZIA_OK, s2)"
    "s' = s2\<lparr>s_recv_chain_key := ck, s_nr := s_nr s2 + 1\<rparr>"
  using assms that
  by (auto simp: receive_on_chain_def Let_def split: option.splits if_splits prod.splits res.splits)

text \<open>Following the peer's key does not add a key of the new chain to the cache.\<close>

lemma follow_remote_key_ids:
  assumes "sizes_ok L" "wf_session s" "follow_remote_key L s pn dh e = Some (ZIA_OK, s1, e1)"
    and "(dh, n) \<notin> skipped_id ` set (s_skipped s)"
  shows "(dh, n) \<notin> skipped_id ` set (s_skipped s1)"
proof (cases "s_has_dhr s \<and> s_dhr_public s = dh")
  case True
  then have "s1 = s" using assms(3) by (simp add: follow_remote_key_def)
  with assms(4) show ?thesis by simp
next
  case False
  then obtain s0 where s0: "skip_recv_chain_to L s pn = Some (ZIA_OK, s0)" "s_skipped s1 = s_skipped s0"
    using assms(3) by (auto simp: follow_remote_key_def dh_ratchet_step_eq Let_def case_prod_beta
        split: option.splits if_splits)
  from skip_recv_ids(1) [OF assms(1,2) s0(1)] False assms(2,4) s0(2) show ?thesis
    by (auto simp: wf_session_def split: if_splits)
qed

text \<open>
  C7 (safety).  Replay: once a message has been decrypted on the chain of its key (not through a
  cached key), presenting the same header again, with any ciphertext, is refused with
  \<open>ZIA_ERR_REPLAY_DETECTED\<close> and leaves the session unchanged.  The one number excluded is
  \<open>0xffffffff\<close>, after which the 32-bit counter wraps.
\<close>

theorem replay_rejected:
  assumes "sizes_ok L" "wf_session s"
    and "zia_session_decrypt L True s header ct e = (Ok pt, s', e')"
    and "decode_header header = (pn, n, dh)" "n \<noteq> 0xffffffff"
    and "(dh, n) \<notin> skipped_id ` set (s_skipped s)"
    and "s_has_recv_chain s \<or> \<not> s_has_dhr s \<or> s_dhr_public s \<noteq> dh"
    and "16 \<le> length ct'"
  shows "zia_session_decrypt L True s' header ct' e'' = (Err ZIA_ERR_REPLAY_DETECTED, s', e'')"
proof -
  have g: "length header = kHeaderLen" "16 \<le> length ct"
    using assms(3) decrypt_guard [of True header ct L s e] by force+
  have dh: "length dh = 32" using decode_header_len [OF assms(4) g(1)] .
  have none: "take_skipped_key s dh n = None" using assms(6) by (simp add: take_skipped_key_None)
  note eq = decrypt_cases [OF g assms(4), of L s e]
  from assms(1,2) dh show ?thesis
  proof (cases rule: follow_remote_key_total [where pn = pn and e = e])
    case 1
    with eq none assms(3) show ?thesis by (auto split: if_splits)
  next
    case (2 s1 e1)
    then have rec: "s_has_recv_chain s1" using assms(7) by blast
    have ids: "(dh, n) \<notin> skipped_id ` set (s_skipped s1)"
      by (rule follow_remote_key_ids [OF assms(1,2) 2(1) assms(6)])
    have "receive_on_chain L s1 n ct (s_ad s @ header) e1 = (Ok pt, s', e')"
      using eq none assms(3) 2(1) by (auto split: if_splits)
    then obtain s2 ck where s2: "skip_recv_chain_to L s1 n = Some (ZIA_OK, s2)"
      "s' = s2\<lparr>s_recv_chain_key := ck, s_nr := s_nr s2 + 1\<rparr>" by (rule receive_on_chain_Ok)
    have nr: "s_nr s2 = max (s_nr s1) n" using skip_recv_ids(2) [OF assms(1) 2(2) s2(1) rec] .
    have "s_nr s1 \<le> n"
      using 2(1) eq none assms(3) rec
      by (auto simp: follow_remote_key_def dh_ratchet_step_eq Let_def case_prod_beta
          split: option.splits if_splits)
    then have nr': "n < s_nr s'"
      using nr s2(2) word_less_inc [of n] assms(5) minus_one_u32 by (simp add: max_def)
    have fr: "s_has_recv_chain s'" "s_dhr_public s' = dh"
      using skip_recv_frame [OF assms(1) 2(2) s2(1)] s2(2) rec 2(5) by simp_all
    have "(dh, n) \<notin> skipped_id ` set (s_skipped s')"
      using skip_recv_ids(1) [OF assms(1) 2(2) s2(1)] ids s2(2) by (auto split: if_splits)
    then have "take_skipped_key s' dh n = None" by (simp add: take_skipped_key_None)
    with decrypt_cases [OF g(1) assms(8,4), of L s' e''] nr' fr show ?thesis by simp
  qed
qed

definition sample_message :: bytes where
  "sample_message = the (aead_encrypt sample_lib
     (chain_key (kdf_ck sample_lib) (s_recv_chain_key sample_receiver)) zero_nonce [104, 105]
     (s_ad sample_receiver @ encode_header 0 0 (replicate 32 9)))"

lemma sample_message_opens:
  "zia_session_decrypt sample_lib True sample_receiver (encode_header 0 0 (replicate 32 9)) sample_message env0 =
     (Ok [104, 105], sample_receiver\<lparr>s_recv_chain_key :=
        chain_next (kdf_ck sample_lib) (s_recv_chain_key sample_receiver), s_nr := 1\<rparr>,
      env0\<lparr>e_alloc := Suc (e_alloc env0)\<rparr>)"
proof -
  let ?k = "chain_key (kdf_ck sample_lib) (s_recv_chain_key sample_receiver)"
  have "length ?k = 32"
    by (rule rchain.key_ok) (simp add: chain_live_def sample_laws sample_receiver_def)
  then obtain c where "aead_encrypt sample_lib ?k zero_nonce [104, 105]
      (s_ad sample_receiver @ encode_header 0 0 (replicate 32 9)) = Some c" "length c = 18"
    "aead_decrypt sample_lib ?k zero_nonce c
      (s_ad sample_receiver @ encode_header 0 0 (replicate 32 9)) = Some [104, 105]"
    using aead_roundtrip [OF sample_aead_ok, of zero_nonce ?k "[104, 105]"]
    by (auto simp: zero_nonce_def aead_encrypt_def aead_decrypt_def)
  then have "16 \<le> length sample_message" "aead_decrypt sample_lib ?k zero_nonce sample_message
      (s_ad sample_receiver @ encode_header 0 0 (replicate 32 9)) = Some [104, 105]"
    by (simp_all add: sample_message_def)
  with decrypt_current [OF sample_sizes_ok sample_mem_ok sample_receiver_wf, of sample_message 0 "[104, 105]" env0]
  show ?thesis by (simp add: sample_receiver_fields)
qed

theorem replay_rejected_witness:
  "zia_session_decrypt sample_lib True
     (fst (snd (zia_session_decrypt sample_lib True sample_receiver (encode_header 0 0 (replicate 32 9)) sample_message env0)))
     (encode_header 0 0 (replicate 32 9)) (replicate 16 0) env0 =
   (Err ZIA_ERR_REPLAY_DETECTED,
     fst (snd (zia_session_decrypt sample_lib True sample_receiver (encode_header 0 0 (replicate 32 9)) sample_message env0)),
     env0)"
  by (rule replay_rejected [where s = sample_receiver and ct = sample_message and e = env0 and pt = "[104, 105]"
        and pn = 0 and n = 0 and dh = "replicate 32 9" and e' = "env0\<lparr>e_alloc := Suc (e_alloc env0)\<rparr>"])
    (simp_all add: sample_laws sample_receiver_wf sample_receiver_fields sample_message_opens decode_encode_header)

text \<open>
  C36 (safety).  The receiver does not discard its changes when a message fails to authenticate: a
  header naming an unknown public key makes \<open>zia_session_decrypt\<close> follow that key before the
  ciphertext is checked.  After the failure the session holds the unauthenticated key as its remote
  key, a new key pair of its own and a root key derived from both; the old root key is gone, so the
  messages of the real peer no longer decrypt.
\<close>

theorem failed_decrypt_commits_ratchet:
  assumes "sizes_ok L" "wf_session s"
    and "zia_session_decrypt L True s header ct e = (Err ZIA_ERR_CRYPTO_FAILURE, s', e')"
    and "decode_header header = (pn, n, dh)"
    and "(dh, n) \<notin> skipped_id ` set (s_skipped s)"
    and "\<not> s_has_dhr s \<or> s_dhr_public s \<noteq> dh"
  shows "s_dhr_public s' = dh \<and> s_dhs_private s' = snd (crypto_box_keypair L (e_draw e)) \<and>
    s_root_key s' =
      fst (kdf_rk L (fst (kdf_rk L (s_root_key s) (scalarmult_unchecked L (s_dhs_private s) dh)))
        (scalarmult_unchecked L (snd (crypto_box_keypair L (e_draw e))) dh))"
proof -
  have g: "length header = kHeaderLen" "16 \<le> length ct"
    using assms(3) decrypt_guard [of True header ct L s e] by force+
  have dh: "length dh = 32" using decode_header_len [OF assms(4) g(1)] .
  have none: "take_skipped_key s dh n = None" using assms(5) by (simp add: take_skipped_key_None)
  note eq = decrypt_cases [OF g assms(4), of L s e]
  have norep: "\<not> (s_has_recv_chain s \<and> s_dhr_public s = dh \<and> n < s_nr s)"
    using assms(2,6) by (auto simp: wf_session_def)
  have eq': "zia_session_decrypt L True s header ct e =
      (case follow_remote_key L s pn dh e of
         None \<Rightarrow> (Crash, s, e)
       | Some (rc, s1, e1) \<Rightarrow>
           if rc \<noteq> ZIA_OK then (Err rc, s1, e1)
           else receive_on_chain L s1 n ct (s_ad s @ header) e1)"
    using eq none norep by auto
  from assms(1,2) show ?thesis
  proof (cases rule: skip_recv_chain_to_total [where until = pn])
    case 1
    with eq' assms(3,6) show ?thesis by (auto simp: follow_remote_key_def)
  next
    case (2 s0)
    let ?p = "dh_ratchet_step L s0 dh e"
    have "receive_on_chain L (fst ?p) n ct (s_ad s @ header) (snd ?p) = (Err ZIA_ERR_CRYPTO_FAILURE, s', e')"
      using eq' assms(3,6) 2(1) by (auto simp: follow_remote_key_def case_prod_beta)
    moreover have "wf_session (fst ?p)" by (rule dh_ratchet_step_wf [OF assms(1) 2(2) dh])
    ultimately have "s_dhr_public s' = s_dhr_public (fst ?p) \<and> s_dhs_private s' = s_dhs_private (fst ?p) \<and>
        s_root_key s' = s_root_key (fst ?p)"
      using skip_recv_chain_to_total [OF assms(1), of "fst ?p" n]
      by (auto simp: receive_on_chain_def Let_def split: option.splits if_splits prod.splits res.splits)
    then show ?thesis using 2 by (simp add: dh_ratchet_step_eq Let_def)
  qed
qed

theorem failed_decrypt_commits_ratchet_witness:
  "\<exists>s' e'. zia_session_decrypt reject_lib True sample_receiver (encode_header 0 0 (replicate 32 66))
       (replicate 16 0) env0 = (Err ZIA_ERR_CRYPTO_FAILURE, s', e') \<and>
     s_dhr_public s' = replicate 32 66 \<and> s_dhs_private s' = snd (crypto_box_keypair reject_lib (e_draw env0))"
proof -
  let ?h = "encode_header 0 0 (replicate 32 66) :: bytes"
  let ?p = "dh_ratchet_step reject_lib sample_receiver (replicate 32 66) env0"
  obtain r s' e' where d: "zia_session_decrypt reject_lib True sample_receiver ?h (replicate 16 0) env0 = (r, s', e')"
    by (cases "zia_session_decrypt reject_lib True sample_receiver ?h (replicate 16 0) env0")
  have h: "length ?h = kHeaderLen" "decode_header ?h = (0, 0, replicate 32 66)"
    by (simp_all add: decode_encode_header)
  have none: "take_skipped_key sample_receiver (replicate 32 66) 0 = None"
    by (simp add: take_skipped_key_None sample_receiver_fields)
  have ck: "kdf_ck reject_lib (s_recv_chain_key (fst ?p)) \<noteq> None"
    by (simp add: kdf_ck_None dh_ratchet_step_eq Let_def kdf_rk_fst_snd_lens reject_laws)
  have "r = Err ZIA_ERR_CRYPTO_FAILURE"
    using d ck decrypt_cases [OF h(1) _ h(2), of "replicate 16 0" reject_lib sample_receiver env0] none
    by (auto simp: follow_remote_key_def sample_receiver_fields skip_recv_chain_to_def case_prod_beta
        receive_on_chain_def open_with_def malloc_mem_ok reject_laws aead_decrypt_def Let_def
        dh_ratchet_step_eq split: option.splits)
  with d failed_decrypt_commits_ratchet [OF reject_laws(1) sample_receiver_wf, of ?h "replicate 16 0" env0 s' e' 0 0 "replicate 32 66"]
  show ?thesis by (auto simp: h sample_receiver_fields)
qed

text \<open>
  C37 (safety).  A session just opened by its initiator has no receiving chain yet; a message whose
  header names the signed prekey of the responder (public data) passes every test of
  \<open>zia_session_decrypt\<close> and reaches the key derivation with the empty receiving chain key, which is
  read through a null pointer.
\<close>

theorem initiator_crashes_on_prekey_header:
  assumes "init_as_initiator L (new_ZiaSession\<lparr>s_ad := ad\<rparr>) sk spk e = (s, e')"
    and "length spk = 32" "16 \<le> length ct"
  shows "fst (zia_session_decrypt L True s (encode_header pn n spk) ct e'') = Crash"
proof -
  have s: "s_has_dhr s" "s_dhr_public s = spk" "\<not> s_has_recv_chain s" "s_recv_chain_key s = []"
    "s_skipped s = []"
    using assms(1)
    by (auto simp: init_as_initiator_def new_ZiaSession_def x25519_keypair_def draw_def case_prod_beta Let_def)
  then have "take_skipped_key s spk n = None" by (simp add: take_skipped_key_None)
  with s decrypt_cases [OF length_encode_header [OF assms(2)] assms(3) decode_encode_header [OF assms(2)]]
  show ?thesis
    by (simp add: follow_remote_key_def receive_on_chain_def skip_recv_chain_to_def kdf_ck_def hmac_sha256_def)
qed

theorem initiator_crashes_on_prekey_header_witness:
  "fst (zia_session_decrypt sample_lib True sample_initiator (encode_header 0 0 (replicate 32 9))
     (replicate 16 0) env0) = Crash"
  by (rule initiator_crashes_on_prekey_header [where ad = "replicate 64 1" and sk = "replicate 32 7" and e = env0
      and e' = "snd (init_as_initiator sample_lib (new_ZiaSession\<lparr>s_ad := replicate 64 1\<rparr>)
       (replicate 32 7) (replicate 32 9) env0)"])
    (simp_all add: sample_initiator_def)

end
