(* ===== verification/Delivery.thy ===== *)
theory Delivery
  imports Ratchet
begin

text \<open>
  Two ends of a chain.  \<open>send_all\<close> and \<open>deliver_all\<close> run \<open>zia_session_encrypt\<close> and
  \<open>zia_session_decrypt\<close> over lists; \<open>chain_message\<close> is what the sender puts on the wire for its
  \<open>j\<close>-th message.  The invariant \<open>chain_delivery\<close> describes the receiver after an arbitrary subset of
  the messages has arrived, in any order: how far it has advanced and which keys it keeps.
\<close>

section \<open>Runs of the two operations\<close>

primrec send_all ::
  "lib \<Rightarrow> ZiaSession \<Rightarrow> bytes list \<Rightarrow> env \<Rightarrow> (bytes \<times> bytes) res list \<times> ZiaSession \<times> env" where
  "send_all L s [] e = ([], s, e)"
| "send_all L s (p # ps) e =
     (let (r, s1, e1) = zia_session_encrypt L True s (Buf p) e;
          (rs, s2, e2) = send_all L s1 ps e1
      in (r # rs, s2, e2))"

primrec deliver_all ::
  "lib \<Rightarrow> ZiaSession \<Rightarrow> (bytes \<times> bytes) list \<Rightarrow> env \<Rightarrow> bytes res list \<times> ZiaSession \<times> env" where
  "deliver_all L s [] e = ([], s, e)"
| "deliver_all L s (m # ms) e =
     (let (r, s1, e1) = zia_session_decrypt L True s (fst m) (snd m) e;
          (rs, s2, e2) = deliver_all L s1 ms e1
      in (r # rs, s2, e2))"

section \<open>What the sender produces\<close>

definition position_key :: "lib \<Rightarrow> ZiaSession \<Rightarrow> nat \<Rightarrow> bytes" where
  "position_key L A j = chain_key (kdf_ck L) ((chain_next (kdf_ck L) ^^ j) (s_send_chain_key A))"

definition position_header :: "ZiaSession \<Rightarrow> nat \<Rightarrow> bytes" where
  "position_header A j = encode_header (s_pn A) (s_ns A + of_nat j) (s_dhs_public A)"

definition chain_message :: "lib \<Rightarrow> ZiaSession \<Rightarrow> nat \<Rightarrow> bytes \<Rightarrow> bytes \<times> bytes" where
  "chain_message L A j p =
     (position_header A j,
      the (aead_encrypt L (position_key L A j) zero_nonce p (s_ad A @ position_header A j)))"

lemma send_chain_live: "sizes_ok L \<Longrightarrow> wf_session A \<Longrightarrow> s_has_send_chain A \<Longrightarrow> chain_live L (s_send_chain_key A)"
  by (simp add: chain_live_def wf_session_def)

lemma position_key_len:
  "sizes_ok L \<Longrightarrow> wf_session A \<Longrightarrow> s_has_send_chain A \<Longrightarrow> length (position_key L A j) = 32"
  unfolding position_key_def by (intro rchain.key_ok rchain.funpow_ok send_chain_live)

lemma chain_message_opens:
  assumes "sizes_ok L" "aead_ok L" "wf_session A" "s_has_send_chain A" "chain_message L A j p = (h, c)"
  shows "h = position_header A j" "length c = length p + 16"
    "aead_encrypt L (position_key L A j) zero_nonce p (s_ad A @ h) = Some c"
    "aead_decrypt L (position_key L A j) zero_nonce c (s_ad A @ h) = Some p"
proof -
  show h: "h = position_header A j" using assms(5) by (simp add: chain_message_def)
  obtain x where "aead_encrypt L (position_key L A j) zero_nonce p (s_ad A @ h) = Some x"
    "length x = length p + 16" "aead_decrypt L (position_key L A j) zero_nonce x (s_ad A @ h) = Some p"
    using aead_roundtrip [OF assms(2) _ position_key_len [OF assms(1,3,4)], of zero_nonce p "s_ad A @ h" j]
    by (auto simp: zero_nonce_def aead_encrypt_def aead_decrypt_def)
  with assms(5) h show "length c = length p + 16"
    "aead_encrypt L (position_key L A j) zero_nonce p (s_ad A @ h) = Some c"
    "aead_decrypt L (position_key L A j) zero_nonce c (s_ad A @ h) = Some p"
    by (simp_all add: chain_message_def)
qed

lemma encrypt_chain_message:
  assumes "sizes_ok L" "aead_ok L" "mem_ok L" "wf_session A" "s_has_send_chain A"
  shows "zia_session_encrypt L True A (Buf p) e =
    (Ok (chain_message L A 0 p),
     A\<lparr>s_send_chain_key := chain_next (kdf_ck L) (s_send_chain_key A), s_ns := s_ns A + 1\<rparr>,
     e\<lparr>e_alloc := Suc (Suc (e_alloc e))\<rparr>)"
proof -
  obtain h c where m: "chain_message L A 0 p = (h, c)" by (cases "chain_message L A 0 p")
  note o = chain_message_opens [OF assms(1,2,4,5) m]
  show ?thesis
    using rchain.step_eq [OF send_chain_live [OF assms(1,4,5)]] o(1,3) m assms(3,5)
    by (simp add: zia_session_encrypt_def position_header_def position_key_def malloc_mem_ok)
qed

lemma chain_message_shift:
  "chain_message L (A\<lparr>s_send_chain_key := chain_next (kdf_ck L) (s_send_chain_key A), s_ns := s_ns A + 1\<rparr>) j p =
     chain_message L A (Suc j) p"
  by (simp add: chain_message_def position_key_def position_header_def funpow_swap1 add.assoc)

lemma send_all_eq:
  assumes "sizes_ok L" "aead_ok L" "mem_ok L" "wf_session A" "s_has_send_chain A"
  shows "\<exists>e'. send_all L A ps e =
    (map (\<lambda>j. Ok (chain_message L A j (ps ! j))) [0..<length ps],
     A\<lparr>s_send_chain_key := (chain_next (kdf_ck L) ^^ length ps) (s_send_chain_key A),
       s_ns := s_ns A + of_nat (length ps)\<rparr>, e')"
  using assms(4,5)
proof (induction ps arbitrary: A e)
  case Nil
  then show ?case by simp
next
  case (Cons p ps)
  let ?A = "A\<lparr>s_send_chain_key := chain_next (kdf_ck L) (s_send_chain_key A), s_ns := s_ns A + 1\<rparr>"
  have "length (chain_next (kdf_ck L) (s_send_chain_key A)) = 32"
    using rchain.next_ok [OF send_chain_live [OF assms(1) Cons.prems]] by (simp add: chain_live_def)
  then have wf: "wf_session ?A" using Cons.prems by (simp add: wf_session_def)
  have e: "zia_session_encrypt L True A (Buf p) e =
      (Ok (chain_message L A 0 p), ?A, e\<lparr>e_alloc := Suc (Suc (e_alloc e))\<rparr>)"
    by (rule encrypt_chain_message [OF assms(1-3) Cons.prems])
  obtain e' where "send_all L ?A ps (e\<lparr>e_alloc := Suc (Suc (e_alloc e))\<rparr>) =
      (map (\<lambda>j. Ok (chain_message L A (Suc j) (ps ! j))) [0..<length ps],
       ?A\<lparr>s_send_chain_key := (chain_next (kdf_ck L) ^^ length ps) (s_send_chain_key ?A),
          s_ns := s_ns ?A + of_nat (length ps)\<rparr>, e')"
    using Cons.IH [OF wf, of "e\<lparr>e_alloc := Suc (Suc (e_alloc e))\<rparr>"] Cons.prems(2)
    by (auto simp: chain_message_shift)
  moreover have "map (\<lambda>j. Ok (chain_message L A j ((p # ps) ! j))) [0..<length (p # ps)] =
      Ok (chain_message L A 0 p) # map (\<lambda>j. Ok (chain_message L A (Suc j) (ps ! j))) [0..<length ps]"
    by (simp only: length_Cons upt_rec [of 0 "Suc (length ps)"])
      (simp add: map_Suc_upt [symmetric] comp_def del: upt_Suc)
  ultimately show ?case
    using e by (simp add: funpow_swap1 add.assoc add.commute del: upt_Suc)
qed

section \<open>The receiver after an arbitrary part of the chain has arrived\<close>

definition aligned :: "ZiaSession \<Rightarrow> ZiaSession \<Rightarrow> bool" where
  "aligned A B \<longleftrightarrow>
     s_ad B = s_ad A \<and> s_has_send_chain A \<and> s_has_recv_chain B \<and>
     s_dhr_public B = s_dhs_public A \<and> s_recv_chain_key B = s_send_chain_key A \<and> s_nr B = s_ns A"

definition position_entry :: "lib \<Rightarrow> ZiaSession \<Rightarrow> nat \<Rightarrow> ZiaSkippedKey" where
  "position_entry L A j =
     \<lparr>sk_dh_public = s_dhs_public A, sk_n = s_ns A + of_nat j, sk_key = position_key L A j\<rparr>"

definition chain_delivery ::
  "lib \<Rightarrow> ZiaSession \<Rightarrow> ZiaSkippedKey list \<Rightarrow> nat \<Rightarrow> nat set \<Rightarrow> nat \<Rightarrow> ZiaSession \<Rightarrow> bool" where
  "chain_delivery L A base k D m B \<longleftrightarrow>
     m \<le> k \<and> D \<subseteq> {..<m} \<and> wf_session B \<and> s_has_recv_chain B \<and> s_ad B = s_ad A \<and>
     s_dhr_public B = s_dhs_public A \<and> s_nr B = s_ns A + of_nat m \<and>
     s_recv_chain_key B = (chain_next (kdf_ck L) ^^ m) (s_send_chain_key A) \<and>
     distinct (map skipped_id (s_skipped B)) \<and>
     set (s_skipped B) = set base \<union> position_entry L A ` ({..<m} - D)"

lemma u32_index: "unat a + j < 2 ^ 32 \<Longrightarrow> unat (a + of_nat j) = unat a + j" for a :: u32
  by (simp add: unat_word_ariths unat_of_nat)

lemma chain_delivery_start:
  assumes "aligned A B" "wf_session B" "distinct (map skipped_id (s_skipped B))"
  shows "chain_delivery L A (s_skipped B) k {} 0 B"
  using assms by (simp add: chain_delivery_def aligned_def)

lemma chain_delivery_cache_size:
  assumes "chain_delivery L A base k D m B"
  shows "length (s_skipped B) \<le> length base + m"
proof -
  have "distinct (s_skipped B)" using assms by (simp add: chain_delivery_def distinct_map)
  then have "length (s_skipped B) = card (set (s_skipped B))" by (rule distinct_card [symmetric])
  also have "\<dots> \<le> card (set base) + card (position_entry L A ` ({..<m} - D))"
    using assms by (simp add: chain_delivery_def card_Un_le)
  also have "\<dots> \<le> length base + card ({..<m} - D)"
    by (intro add_mono card_length card_image_le) simp
  also have "\<dots> \<le> length base + m"
    using card_mono [of "{..<m}" "{..<m} - D"] by simp
  finally show ?thesis .
qed

lemma position_id: "skipped_id (position_entry L A i) = (s_dhs_public A, s_ns A + of_nat i)"
  by (simp add: skipped_id_def position_entry_def)

lemma position_entry_inj:
  assumes "unat (s_ns A) + k < 2 ^ 32" "i < k" "j < k" "position_entry L A i = position_entry L A j"
  shows "i = j"
proof -
  have "unat (s_ns A + of_nat i) = unat (s_ns A + of_nat j)" using assms(4) by (simp add: position_entry_def)
  then show ?thesis using assms(1-3) by (simp add: u32_index)
qed

lemma position_not_cached:
  assumes I: "chain_delivery L A base k D m B" and i: "m \<le> i" "i < k"
    and k: "unat (s_ns A) + k < 2 ^ 32" and base: "s_dhs_public A \<notin> sk_dh_public ` set base"
  shows "(s_dhs_public A, s_ns A + of_nat i) \<notin> skipped_id ` set (s_skipped B)"
proof
  assume "(s_dhs_public A, s_ns A + of_nat i) \<in> skipped_id ` set (s_skipped B)"
  then obtain x where x: "x \<in> set (s_skipped B)" "skipped_id x = (s_dhs_public A, s_ns A + of_nat i)" by force
  then have "sk_dh_public x = s_dhs_public A" by (simp add: skipped_id_def)
  with base have "x \<notin> set base" by (metis image_eqI)
  then obtain i' where i': "i' < m" "s_ns A + of_nat i' = s_ns A + of_nat i"
    using x I position_id by (auto simp: chain_delivery_def)
  moreover have "unat (s_ns A) + i' < 2 ^ 32" "unat (s_ns A) + i < 2 ^ 32" using i i'(1) k by linarith+
  ultimately have "unat (s_ns A) + i' = unat (s_ns A) + i" using u32_index by metis
  with i'(1) i(1) show False by simp
qed

text \<open>The cache after the keys up to position \<open>j\<close> have been set aside.\<close>

lemma cache_extended:
  assumes I: "chain_delivery L A base k D m B" and j: "m \<le> j" "j < k"
    and k: "unat (s_ns A) + k < 2 ^ 32" and base: "s_dhs_public A \<notin> sk_dh_public ` set base"
  shows "distinct (map skipped_id (s_skipped B @ map (position_entry L A) [m..<j]))"
    and "set (s_skipped B @ map (position_entry L A) [m..<j]) = set base \<union> position_entry L A ` ({..<Suc j} - insert j D)"
proof -
  have "unat (s_ns A + of_nat i) = unat (s_ns A) + i" if "i < j" for i using that j(2) k by (simp add: u32_index)
  then have "inj_on (\<lambda>i. s_ns A + of_nat i) {m..<j}"
    by (intro inj_onI) (metis add_left_cancel atLeastLessThan_iff)
  then have "distinct (map (\<lambda>i. skipped_id (position_entry L A i)) [m..<j])"
    by (simp add: distinct_map inj_on_def position_id)
  moreover have "distinct (map skipped_id (s_skipped B))" using I by (simp add: chain_delivery_def)
  moreover have "skipped_id ` set (s_skipped B) \<inter> (\<lambda>i. skipped_id (position_entry L A i)) ` {m..<j} = {}"
    using position_not_cached [OF I _ _ k base] j(2) by (fastforce simp: position_id)
  ultimately show "distinct (map skipped_id (s_skipped B @ map (position_entry L A) [m..<j]))"
    by (simp add: comp_def)
  have "{..<Suc j} - insert j D = ({..<m} - D) \<union> {m..<j}"
    using I j(1) by (auto simp: chain_delivery_def subset_iff)
  then show "set (s_skipped B @ map (position_entry L A) [m..<j]) = set base \<union> position_entry L A ` ({..<Suc j} - insert j D)"
    using I by (simp add: chain_delivery_def image_Un Un_assoc)
qed

text \<open>A late message: its key is in the cache.\<close>

lemma deliver_late:
  assumes L: "sizes_ok L" "aead_ok L" "mem_ok L" and A: "wf_session A" "s_has_send_chain A"
    and I: "chain_delivery L A base k D m B" and j: "j < m" "j \<notin> D"
    and k: "unat (s_ns A) + k < 2 ^ 32" and base: "s_dhs_public A \<notin> sk_dh_public ` set base"
    and msg: "chain_message L A j p = (h, c)"
  shows "\<exists>B'. zia_session_decrypt L True B h c e = (Ok p, B', e\<lparr>e_alloc := Suc (e_alloc e)\<rparr>) \<and>
    chain_delivery L A base k (insert j D) m B'"
proof -
  note o = chain_message_opens [OF L(1,2) A msg]
  have dh: "length (s_dhs_public A) = 32" using A by (simp add: wf_session_def)
  have h: "length h = kHeaderLen" "decode_header h = (s_pn A, s_ns A + of_nat j, s_dhs_public A)"
    using dh o(1) by (simp_all add: position_header_def decode_encode_header)
  have dist: "distinct (map skipped_id (s_skipped B))"
    and cache: "set (s_skipped B) = set base \<union> position_entry L A ` ({..<m} - D)"
    using I by (simp_all add: chain_delivery_def)
  have "position_entry L A j \<in> set (s_skipped B)" using j cache by auto
  from rcache.take_present [OF this dist] obtain c' where
    tk: "cache_take (\<lambda>sk. sk_n sk = s_ns A + of_nat j \<and> sk_dh_public sk = s_dhs_public A) (s_skipped B) =
      Some (position_entry L A j, c')"
    by (auto simp: skipped_id_def position_entry_def)
  have rm: "distinct (map skipped_id c') \<and> set c' = set (s_skipped B) - {position_entry L A j}"
    using rcache.take_removes [where k = "(s_dhs_public A, s_ns A + of_nat j)"] tk dist by simp
  have inj: "i = j" if "i < m" "position_entry L A i = position_entry L A j" for i
    using position_entry_inj [OF k, of i j L] that j(1) I by (simp add: chain_delivery_def)
  have "sk_dh_public (position_entry L A j) = s_dhs_public A" by (simp add: position_entry_def)
  with base have nb: "set base - {position_entry L A j} = set base" by force
  have "position_entry L A ` ({..<m} - D) - {position_entry L A j} =
      position_entry L A ` ({..<m} - insert j D)"
    using inj by (intro set_eqI iffI) fastforce+
  then have "set c' = set base \<union> position_entry L A ` ({..<m} - insert j D)"
    using rm cache nb by (simp add: Un_Diff)
  moreover have take: "take_skipped_key B (s_dhs_public A) (s_ns A + of_nat j) =
      Some (position_key L A j, B\<lparr>s_skipped := c'\<rparr>)"
    using tk by (simp add: take_skipped_key_def position_entry_def)
  moreover have "wf_session (B\<lparr>s_skipped := c'\<rparr>)"
    using take_skipped_key_wf [OF take] I by (simp add: chain_delivery_def)
  ultimately have "chain_delivery L A base k (insert j D) m (B\<lparr>s_skipped := c'\<rparr>)"
    using I rm j(1) by (simp add: chain_delivery_def)
  moreover have "zia_session_decrypt L True B h c e = (Ok p, B\<lparr>s_skipped := c'\<rparr>, e\<lparr>e_alloc := Suc (e_alloc e)\<rparr>)"
    using decrypt_cases [OF h(1) _ h(2), of c L B e] take o L(3) I
    by (simp add: open_with_def malloc_mem_ok chain_delivery_def)
  ultimately show ?thesis by blast
qed

text \<open>A message ahead of the receiver: the keys in between are set aside, without eviction.\<close>

lemma skip_with_room:
  assumes "chain_live L (s_recv_chain_key s)" "s_has_recv_chain s" "s_nr s \<le> n"
    and "length (s_skipped s) + unat (n - s_nr s) \<le> kMaxSkippedKeys"
  shows "skip_recv_chain_to L s n =
    Some (ZIA_OK, s\<lparr>s_recv_chain_key := (chain_next (kdf_ck L) ^^ unat (n - s_nr s)) (s_recv_chain_key s),
      s_nr := n, s_skipped := s_skipped s @
        skip_entries L (s_dhr_public s) (s_nr s) (unat (n - s_nr s)) (s_recv_chain_key s)\<rparr>)"
proof (cases "s_nr s = n")
  case True
  then show ?thesis using assms(2) by (auto simp: skip_recv_chain_to_def)
next
  case False
  have "foldl (cache_store kMaxSkippedKeys) (s_skipped s)
      (skip_entries L (s_dhr_public s) (s_nr s) (unat (n - s_nr s)) (s_recv_chain_key s)) =
      s_skipped s @ skip_entries L (s_dhr_public s) (s_nr s) (unat (n - s_nr s)) (s_recv_chain_key s)"
    by (rule rcache.foldl_store_room) (use assms(4) in simp)
  with skip_loop_closed [OF assms(1,3)] False assms show ?thesis
    by (auto simp: skip_recv_chain_to_def Let_def)
qed

lemma skip_entries_positions:
  "skip_entries L (s_dhs_public A) (s_ns A + of_nat m) d ((chain_next (kdf_ck L) ^^ m) (s_send_chain_key A)) =
     map (position_entry L A) [m..<m + d]"
  by (rule nth_equalityI)
    (simp_all add: nth_skip_entries position_entry_def position_key_def funpow_add add.commute add.left_commute)

lemma skip_ahead:
  assumes "sizes_ok L" and A: "wf_session A" "s_has_send_chain A"
    and I: "chain_delivery L A base k D m B" and j: "m \<le> j" "j < k"
    and k: "unat (s_ns A) + k < 2 ^ 32" and room: "length base + k \<le> kMaxSkippedKeys"
  shows "skip_recv_chain_to L B (s_ns A + of_nat j) =
      Some (ZIA_OK, B\<lparr>s_recv_chain_key := (chain_next (kdf_ck L) ^^ j) (s_send_chain_key A),
        s_nr := s_ns A + of_nat j, s_skipped := s_skipped B @ map (position_entry L A) [m..<j]\<rparr>)"
    and "\<not> s_ns A + of_nat j < s_nr B"
proof -
  let ?n = "s_ns A + of_nat j" and ?x = "chain_next (kdf_ck L)"
  have B: "s_has_recv_chain B" "s_dhr_public B = s_dhs_public A" "s_nr B = s_ns A + of_nat m"
    "s_recv_chain_key B = (?x ^^ m) (s_send_chain_key A)" using I by (simp_all add: chain_delivery_def)
  have u: "unat ?n = unat (s_ns A) + j" "unat (s_nr B) = unat (s_ns A) + m" using j k B(3) by (simp_all add: u32_index)
  have le: "s_nr B \<le> ?n" using u j(1) by (simp add: word_le_nat_alt)
  then show "\<not> ?n < s_nr B" by simp
  have d: "unat (?n - s_nr B) = j - m" using unat_sub [OF le] u by simp
  have "chain_live L (s_recv_chain_key B)"
    unfolding B(4) by (rule rchain.funpow_ok [OF send_chain_live [OF assms(1) A]])
  moreover have "(?x ^^ (j - m)) ((?x ^^ m) (s_send_chain_key A)) = (?x ^^ j) (s_send_chain_key A)"
    using funpow_add [of "j - m" m ?x] j(1) by simp
  ultimately show "skip_recv_chain_to L B ?n = Some (ZIA_OK, B\<lparr>s_recv_chain_key := (?x ^^ j) (s_send_chain_key A),
        s_nr := ?n, s_skipped := s_skipped B @ map (position_entry L A) [m..<j]\<rparr>)"
    using skip_with_room [of L B ?n] B le d chain_delivery_cache_size [OF I] room j
      skip_entries_positions [of L A m "j - m"] by simp
qed

lemma deliver_ahead:
  assumes L: "sizes_ok L" "aead_ok L" "mem_ok L" and A: "wf_session A" "s_has_send_chain A"
    and I: "chain_delivery L A base k D m B" and j: "m \<le> j" "j < k"
    and k: "unat (s_ns A) + k < 2 ^ 32" and base: "s_dhs_public A \<notin> sk_dh_public ` set base"
    and room: "length base + k \<le> kMaxSkippedKeys"
    and msg: "chain_message L A j p = (h, c)"
  shows "\<exists>B'. zia_session_decrypt L True B h c e = (Ok p, B', e\<lparr>e_alloc := Suc (e_alloc e)\<rparr>) \<and>
    chain_delivery L A base k (insert j D) (Suc j) B'"
proof -
  let ?n = "s_ns A + of_nat j" and ?x = "chain_next (kdf_ck L)" and ?dh = "s_dhs_public A"
  let ?B2 = "B\<lparr>s_recv_chain_key := (?x ^^ j) (s_send_chain_key A), s_nr := ?n,
    s_skipped := s_skipped B @ map (position_entry L A) [m..<j]\<rparr>"
  let ?B3 = "?B2\<lparr>s_recv_chain_key := (?x ^^ Suc j) (s_send_chain_key A), s_nr := ?n + 1\<rparr>"
  note o = chain_message_opens [OF L(1,2) A msg] and skip = skip_ahead [OF L(1) A I j k room]
  have dh: "length ?dh = 32" using A by (simp add: wf_session_def)
  have h: "length h = kHeaderLen" "decode_header h = (s_pn A, ?n, ?dh)"
    using dh o(1) by (simp_all add: position_header_def decode_encode_header)
  have B: "wf_session B" "s_has_recv_chain B" "s_ad B = s_ad A" "s_dhr_public B = ?dh" "D \<subseteq> {..<m}"
    using I by (simp_all add: chain_delivery_def)
  have "kdf_ck L ((?x ^^ j) (s_send_chain_key A)) = Some ((?x ^^ Suc j) (s_send_chain_key A), position_key L A j)"
    using rchain.step_eq [OF rchain.funpow_ok [OF send_chain_live [OF L(1) A]]] by (simp add: position_key_def)
  moreover have "take_skipped_key B ?dh ?n = None"
    using position_not_cached [OF I j k base] by (simp add: take_skipped_key_None)
  ultimately have dec: "zia_session_decrypt L True B h c e = (Ok p, ?B3, e\<lparr>e_alloc := Suc (e_alloc e)\<rparr>)"
    using decrypt_cases [OF h(1) _ h(2), of c L B e] skip o L(3) B
    by (simp add: follow_remote_key_def receive_on_chain_def open_with_def malloc_mem_ok wf_session_def)
  have "chain_delivery L A base k (insert j D) (Suc j) ?B3"
    using decrypt_wf [OF L(1) B(1) dec] cache_extended [OF I j k base] B j
    by (auto simp: chain_delivery_def add.assoc add.commute simp del: map_append set_append)
  with dec show ?thesis by blast
qed

lemma deliver_any:
  assumes "sizes_ok L" "aead_ok L" "mem_ok L" "wf_session A" "s_has_send_chain A"
    and "unat (s_ns A) + k < 2 ^ 32" "s_dhs_public A \<notin> sk_dh_public ` set base"
    and "length base + k \<le> kMaxSkippedKeys"
    and "chain_delivery L A base k D m B" "distinct js" "set js \<subseteq> {..<k} - D"
  shows "\<exists>D' m' B' e'. deliver_all L B (map (\<lambda>j. chain_message L A j (ps ! j)) js) e =
      (map (\<lambda>j. Ok (ps ! j)) js, B', e') \<and> chain_delivery L A base k D' m' B'"
  using assms(9-11)
proof (induction js arbitrary: D m B e)
  case Nil
  then show ?case by auto
next
  case (Cons j js)
  obtain h c where msg: "chain_message L A j (ps ! j) = (h, c)" by (cases "chain_message L A j (ps ! j)")
  have j: "j < k" "j \<notin> D" using Cons.prems(3) by auto
  obtain B1 m1 where d: "zia_session_decrypt L True B h c e = (Ok (ps ! j), B1, e\<lparr>e_alloc := Suc (e_alloc e)\<rparr>)"
    "chain_delivery L A base k (insert j D) m1 B1"
    using deliver_late [OF assms(1-5) Cons.prems(1) _ j(2) assms(6,7) msg, of e]
      deliver_ahead [OF assms(1-5) Cons.prems(1) _ j(1) assms(6-8) msg, of e]
    by (cases "j < m") (auto simp: not_less)
  have "distinct js" "set js \<subseteq> {..<k} - insert j D" using Cons.prems by auto
  from Cons.IH [OF d(2) this, of "e\<lparr>e_alloc := Suc (e_alloc e)\<rparr>"] d(1) msg show ?case by fastforce
qed

section \<open>Properties\<close>

text \<open>
  C4 (liveness).  Out-of-order delivery: let the sender encrypt a list of plaintexts on its current
  chain and let the receiver, aligned with that chain, be handed any of these messages in any order
  (some may be lost, none is presented twice).  As long as the receiver has cache room for the whole
  burst, every message delivered decrypts to its own plaintext.
\<close>

theorem out_of_order_delivery:
  assumes "sizes_ok L" "aead_ok L" "mem_ok L"
    and "wf_session A" "wf_session B" "aligned A B"
    and "distinct (map skipped_id (s_skipped B))" "s_dhs_public A \<notin> sk_dh_public ` set (s_skipped B)"
    and "length (s_skipped B) + length ps \<le> kMaxSkippedKeys" "unat (s_ns A) + length ps < 2 ^ 32"
    and "send_all L A ps e = (map Ok msgs, A', e1)"
    and "distinct js" "set js \<subseteq> {..<length ps}"
  shows "length msgs = length ps \<and>
    fst (deliver_all L B (map (\<lambda>j. msgs ! j) js) e2) = map (\<lambda>j. Ok (ps ! j)) js"
proof -
  have snd: "s_has_send_chain A" using assms(6) by (simp add: aligned_def)
  obtain e' where "send_all L A ps e =
      (map (\<lambda>j. Ok (chain_message L A j (ps ! j))) [0..<length ps],
       A\<lparr>s_send_chain_key := (chain_next (kdf_ck L) ^^ length ps) (s_send_chain_key A),
         s_ns := s_ns A + of_nat (length ps)\<rparr>, e')"
    using send_all_eq [OF assms(1-4) snd] by blast
  then have "map Ok msgs = map Ok (map (\<lambda>j. chain_message L A j (ps ! j)) [0..<length ps])"
    using assms(11) by (simp add: comp_def)
  then have msgs: "msgs = map (\<lambda>j. chain_message L A j (ps ! j)) [0..<length ps]"
    by (rule map_injective) (simp add: inj_def)
  have idx: "map (\<lambda>j. msgs ! j) js = map (\<lambda>j. chain_message L A j (ps ! j)) js"
    using assms(13) by (auto simp: msgs)
  have "chain_delivery L A (s_skipped B) (length ps) {} 0 B"
    by (rule chain_delivery_start [OF assms(6,5,7)])
  from deliver_any [OF assms(1-4) snd assms(10,8,9) this assms(12), of ps e2] assms(13)
  obtain B' e' where "deliver_all L B (map (\<lambda>j. chain_message L A j (ps ! j)) js) e2 =
      (map (\<lambda>j. Ok (ps ! j)) js, B', e')" by auto
  then show ?thesis unfolding idx by (simp add: msgs)
qed

definition sample_sender :: ZiaSession where
  "sample_sender = sample_initiator\<lparr>s_dhs_public := replicate 32 9, s_send_chain_key := replicate 32 4\<rparr>"

lemma sample_sender_wf: "wf_session sample_sender"
  using sample_initiator_wf sample_initiator_fields by (simp add: sample_sender_def wf_session_def)

lemma sample_aligned: "aligned sample_sender sample_receiver"
  by (simp add: aligned_def sample_sender_def sample_receiver_def sample_initiator_fields)

theorem out_of_order_delivery_witness:
  "\<exists>msgs. length msgs = 3 \<and>
     fst (deliver_all sample_lib sample_receiver (map (\<lambda>j. msgs ! j) [2, 0]) env0) = [Ok [12], Ok [10]]"
proof -
  have snd: "s_has_send_chain sample_sender" using sample_aligned by (simp add: aligned_def)
  obtain e' where s: "send_all sample_lib sample_sender [[10], [11], [12]] env0 =
      (map (\<lambda>j. Ok (chain_message sample_lib sample_sender j ([[10], [11], [12]] ! j))) [0..<length [[10 :: u8], [11], [12]]],
       sample_sender\<lparr>s_send_chain_key := (chain_next (kdf_ck sample_lib) ^^ length [[10 :: u8], [11], [12]]) (s_send_chain_key sample_sender),
         s_ns := s_ns sample_sender + of_nat (length [[10 :: u8], [11], [12]])\<rparr>, e')"
    using send_all_eq [OF sample_sizes_ok sample_aead_ok sample_mem_ok sample_sender_wf snd] by blast
  define msgs where "msgs = map (\<lambda>j. chain_message sample_lib sample_sender j ([[10], [11], [12]] ! j)) [0..<3]"
  have ns: "s_ns sample_sender = 0" by (simp add: sample_sender_def sample_initiator_fields)
  from s have "\<exists>A'. send_all sample_lib sample_sender [[10], [11], [12]] env0 = (map Ok msgs, A', e')"
    by (simp add: msgs_def comp_def upt_rec)
  then obtain A' where "send_all sample_lib sample_sender [[10], [11], [12]] env0 = (map Ok msgs, A', e')" ..
  from out_of_order_delivery [OF sample_sizes_ok sample_aead_ok sample_mem_ok sample_sender_wf
      sample_receiver_wf sample_aligned _ _ _ _ this, of "[2, 0]" env0] ns
  show ?thesis by (intro exI [of _ msgs]) (simp add: sample_receiver_fields kMaxSkippedKeys_def)
qed

end
