(* ===== verification/Conversation.thy ===== *)
theory Conversation
  imports Delivery
begin

text \<open>
  Two parties talking: every message is encrypted by one session and handed to the other.  The
  relation \<open>leads L e A B\<close> is the synchronisation invariant of the Double Ratchet between messages:
  \<open>A\<close> is the party whose current key pair the other has not seen yet.  A message from \<open>A\<close> makes \<open>B\<close>
  take a Diffie-Hellman step and exchanges the roles; a message from \<open>B\<close> stays on its chain and keeps
  them.
\<close>

section \<open>Exchanging messages\<close>

definition exchange ::
  "lib \<Rightarrow> ZiaSession \<Rightarrow> ZiaSession \<Rightarrow> bytes \<Rightarrow> env \<Rightarrow> bytes res \<times> ZiaSession \<times> ZiaSession \<times> env" where
  "exchange L A B p e =
     (let (r, A', e1) = zia_session_encrypt L True A (Buf p) e in
      case r of
        Ok (h, c) \<Rightarrow> let (r', B', e2) = zia_session_decrypt L True B h c e1 in (r', A', B', e2)
      | Err st \<Rightarrow> (Err st, A', B, e1)
      | Crash \<Rightarrow> (Crash, A', B, e1))"

text \<open>A conversation: each turn says whether the first party speaks, and what.\<close>

fun converse :: "lib \<Rightarrow> ZiaSession \<Rightarrow> ZiaSession \<Rightarrow> (bool \<times> bytes) list \<Rightarrow> env \<Rightarrow> bytes res list" where
  "converse L A B [] e = []"
| "converse L A B ((True, p) # ms) e =
     (let (r, A', B', e') = exchange L A B p e in r # converse L A' B' ms e')"
| "converse L A B ((False, p) # ms) e =
     (let (r, B', A', e') = exchange L B A p e in r # converse L A' B' ms e')"

section \<open>The synchronisation invariant\<close>

definition own_key :: "lib \<Rightarrow> env \<Rightarrow> ZiaSession \<Rightarrow> bool" where
  "own_key L e s \<longleftrightarrow> (\<exists>i < e_draw e. crypto_box_keypair L i = (s_dhs_public s, s_dhs_private s))"

definition leads :: "lib \<Rightarrow> env \<Rightarrow> ZiaSession \<Rightarrow> ZiaSession \<Rightarrow> bool" where
  "leads L e A B \<longleftrightarrow>
     wf_session A \<and> wf_session B \<and> s_ad B = s_ad A \<and> s_skipped A = [] \<and> s_skipped B = [] \<and>
     own_key L e A \<and> own_key L e B \<and>
     s_has_dhr A \<and> s_dhr_public A = s_dhs_public B \<and>
     (s_has_dhr B \<longrightarrow> s_dhr_public B \<noteq> s_dhs_public A) \<and>
     s_has_send_chain A \<and> s_ns A = 0 \<and>
     kdf_rk L (s_root_key B) (scalarmult_unchecked L (s_dhs_private B) (s_dhs_public A)) =
       (s_root_key A, s_send_chain_key A) \<and>
     (s_has_recv_chain A \<longleftrightarrow> s_has_send_chain B) \<and>
     (s_has_send_chain B \<longrightarrow> s_recv_chain_key A = s_send_chain_key B \<and> s_nr A = s_ns B) \<and>
     (s_has_recv_chain B \<longrightarrow> s_pn A = s_nr B)"

text \<open>Public keys drawn so far: a key pair drawn now is not among them.\<close>

definition drawn :: "lib \<Rightarrow> env \<Rightarrow> bytes \<Rightarrow> bool" where
  "drawn L e d \<longleftrightarrow> (\<exists>i < e_draw e. fst (crypto_box_keypair L i) = d)"

lemma drawn_mono: "drawn L e d \<Longrightarrow> e_draw e \<le> e_draw e' \<Longrightarrow> drawn L e' d"
  unfolding drawn_def using order.strict_trans2 by blast

lemma own_key_mono: "own_key L e s \<Longrightarrow> e_draw e \<le> e_draw e' \<Longrightarrow> own_key L e' s"
  unfolding own_key_def using order.strict_trans2 by blast

lemma own_key_drawn: "own_key L e s \<Longrightarrow> drawn L e (s_dhs_public s)"
  unfolding own_key_def drawn_def by force

lemma drawn_length: "sizes_ok L \<Longrightarrow> drawn L e d \<Longrightarrow> length d = 32"
  by (auto simp: drawn_def sizes_lens)

lemma drawn_fresh:
  assumes "fresh_keys L N" "e_draw e < N" "drawn L e d"
  shows "fst (crypto_box_keypair L (e_draw e)) \<noteq> d"
proof
  assume eq: "fst (crypto_box_keypair L (e_draw e)) = d"
  from assms(3) obtain i where i: "i < e_draw e" "fst (crypto_box_keypair L i) = d" by (auto simp: drawn_def)
  then have "i = e_draw e"
    using assms(1,2) eq by (intro inj_onD [OF assms(1) [unfolded fresh_keys_def]]) auto
  with i(1) show False by simp
qed

lemma own_key_pair: "own_key L e s \<Longrightarrow> x25519_pair L (s_dhs_public s) (s_dhs_private s)"
  by (auto simp: own_key_def x25519_pair_def)

lemma scalarmult_unchecked_commute:
  assumes "dh_ok L" "x25519_pair L p s" "x25519_pair L q t"
  shows "scalarmult_unchecked L s q = scalarmult_unchecked L t p"
  using dh_commute [OF assms] by (metis scalarmult_unchecked_def x25519_scalarmult_def option.simps(5))

text \<open>The party behind speaks: the message stays on the known chain.\<close>

lemma exchange_same_chain:
  assumes L: "sizes_ok L" "aead_ok L" "mem_ok L" and I: "leads L e A B" and snd: "s_has_send_chain B"
  obtains A' B' e' where "exchange L B A p e = (Ok p, B', A', e')" "leads L e' A' B'"
    "s_has_send_chain B'" "e_draw e' = e_draw e"
proof -
  let ?x = "chain_next (kdf_ck L)"
  let ?B = "B\<lparr>s_send_chain_key := ?x (s_send_chain_key B), s_ns := s_ns B + 1\<rparr>"
  let ?A = "A\<lparr>s_recv_chain_key := ?x (s_recv_chain_key A), s_nr := s_nr A + 1\<rparr>"
  have wf: "wf_session A" "wf_session B" using I by (simp_all add: leads_def)
  obtain h c where msg: "chain_message L B 0 p = (h, c)" by (cases "chain_message L B 0 p")
  note o = chain_message_opens [OF L(1,2) wf(2) snd msg]
  have enc: "zia_session_encrypt L True B (Buf p) e = (Ok (h, c), ?B, e\<lparr>e_alloc := Suc (Suc (e_alloc e))\<rparr>)"
    using encrypt_chain_message [OF L wf(2) snd] msg by simp
  have rc: "s_has_recv_chain A" using I snd by (simp add: leads_def)
  have dec: "zia_session_decrypt L True A h c e1 = (Ok p, ?A, e1\<lparr>e_alloc := Suc (e_alloc e1)\<rparr>)" for e1
    using decrypt_current [OF L(1,3) wf(1) rc, of c "s_pn B" p e1] I snd o
    by (simp add: leads_def position_header_def position_key_def)
  have "wf_session ?A" "wf_session ?B"
    using decrypt_wf [OF L(1) wf(1) dec] encrypt_wf [OF L(1) wf(2) enc] by blast+
  moreover have "exchange L B A p e = (Ok p, ?B, ?A, e\<lparr>e_alloc := Suc (Suc (Suc (e_alloc e)))\<rparr>)"
    using enc dec by (simp add: exchange_def)
  moreover have "own_key L (e\<lparr>e_alloc := n\<rparr>) A" "own_key L (e\<lparr>e_alloc := n\<rparr>) B" for n
    using I by (simp_all add: leads_def own_key_def)
  ultimately show thesis
    using that [of ?B ?A "e\<lparr>e_alloc := Suc (Suc (Suc (e_alloc e)))\<rparr>"] I snd
    by (simp add: leads_def own_key_def)
qed

text \<open>
  The leader speaks: the receiver closes its old chain, takes a Diffie-Hellman step to the new key and
  becomes the leader.
\<close>

definition after_step :: "lib \<Rightarrow> ZiaSession \<Rightarrow> ZiaSession \<Rightarrow> env \<Rightarrow> ZiaSession" where
  "after_step L A B e = fst (dh_ratchet_step L B (s_dhs_public A) e)"

lemma after_step_fields:
  assumes "leads L e A B"
  shows "s_recv_chain_key (after_step L A B e) = s_send_chain_key A"
    "s_nr (after_step L A B e) = 0" "s_has_recv_chain (after_step L A B e)"
    "s_has_dhr (after_step L A B e)" "s_dhr_public (after_step L A B e) = s_dhs_public A"
    "s_ad (after_step L A B e) = s_ad A" "s_skipped (after_step L A B e) = []"
    "s_pn (after_step L A B e) = s_ns B" "s_ns (after_step L A B e) = 0"
    "s_has_send_chain (after_step L A B e)"
    "(s_dhs_public (after_step L A B e), s_dhs_private (after_step L A B e)) = crypto_box_keypair L (e_draw e)"
    "(s_root_key (after_step L A B e), s_send_chain_key (after_step L A B e)) =
       kdf_rk L (s_root_key A)
         (scalarmult_unchecked L (snd (crypto_box_keypair L (e_draw e))) (s_dhs_public A))"
  using assms by (simp_all add: after_step_def dh_ratchet_step_eq Let_def leads_def)

lemma leader_message_opens:
  assumes L: "sizes_ok L" "aead_ok L" "mem_ok L" and I: "leads L e A B" and e1: "e_draw e1 = e_draw e"
    and msg: "chain_message L A 0 p = (h, c)"
  shows "\<exists>e2. zia_session_decrypt L True B h c e1 =
      (Ok p, (after_step L A B e)\<lparr>s_recv_chain_key := chain_next (kdf_ck L) (s_send_chain_key A), s_nr := 1\<rparr>, e2) \<and>
    e_draw e2 = Suc (e_draw e)"
proof -
  have A: "wf_session A" "s_has_send_chain A" "length (s_dhs_public A) = 32"
    using I by (simp_all add: leads_def wf_session_def)
  note o = chain_message_opens [OF L(1,2) A(1,2) msg]
  have h: "length h = kHeaderLen" "decode_header h = (s_pn A, 0, s_dhs_public A)"
    using A(3) I o(1) by (simp_all add: position_header_def decode_encode_header leads_def)
  have new: "\<not> s_has_dhr B \<or> s_dhr_public B \<noteq> s_dhs_public A" using I by (auto simp: leads_def)
  have norep: "\<not> (s_has_recv_chain B \<and> s_dhr_public B = s_dhs_public A \<and> 0 < s_nr B)"
    using I by (auto simp: leads_def wf_session_def)
  have none: "take_skipped_key B (s_dhs_public A) 0 = None"
    using I by (simp add: take_skipped_key_None leads_def)
  have skip: "skip_recv_chain_to L B (s_pn A) = Some (ZIA_OK, B)"
    using I by (auto simp: skip_recv_chain_to_def leads_def)
  have step: "dh_ratchet_step L B (s_dhs_public A) e1 =
      (after_step L A B e, e1\<lparr>e_draw := Suc (e_draw e)\<rparr>)"
    using e1 by (simp add: after_step_def dh_ratchet_step_eq Let_def)
  have fol: "follow_remote_key L B (s_pn A) (s_dhs_public A) e1 =
      Some (ZIA_OK, after_step L A B e, e1\<lparr>e_draw := Suc (e_draw e)\<rparr>)"
    using new skip step by (simp add: follow_remote_key_def)
  have ck: "kdf_ck L (s_send_chain_key A) =
      Some (chain_next (kdf_ck L) (s_send_chain_key A), position_key L A 0)"
    using rchain.step_eq [OF send_chain_live [OF L(1) A(1,2)]] by (simp add: position_key_def)
  have ad: "s_ad B = s_ad A" using I by (simp add: leads_def)
  show ?thesis
    using decrypt_cases [OF h(1) _ h(2), of c L B e1] o(2,4) none norep fol ck ad L(3) after_step_fields [OF I]
    by (auto simp: receive_on_chain_def skip_recv_chain_to_def open_with_def malloc_mem_ok)
qed

lemma exchange_new_chain:
  assumes L: "sizes_ok L" "aead_ok L" "mem_ok L" "dh_ok L" "fresh_keys L N"
    and I: "leads L e A B" and N: "e_draw e < N"
  obtains A' B' e' where "exchange L A B p e = (Ok p, A', B', e')" "leads L e' B' A'"
    "s_has_send_chain A'" "e_draw e' = Suc (e_draw e)"
proof -
  let ?x = "chain_next (kdf_ck L) (s_send_chain_key A)"
  let ?A = "A\<lparr>s_send_chain_key := ?x, s_ns := s_ns A + 1\<rparr>"
  let ?B = "(after_step L A B e)\<lparr>s_recv_chain_key := ?x, s_nr := 1\<rparr>"
  let ?kp = "crypto_box_keypair L (e_draw e)"
  have A: "wf_session A" "s_has_send_chain A" and B: "wf_session B" using I by (simp_all add: leads_def)
  obtain h c where msg: "chain_message L A 0 p = (h, c)" by (cases "chain_message L A 0 p")
  let ?e1 = "e\<lparr>e_alloc := Suc (Suc (e_alloc e))\<rparr>"
  have enc: "zia_session_encrypt L True A (Buf p) e = (Ok (h, c), ?A, ?e1)"
    using encrypt_chain_message [OF L(1-3) A] msg by simp
  obtain e2 where dec: "zia_session_decrypt L True B h c ?e1 = (Ok p, ?B, e2)"
    and e2: "e_draw e2 = Suc (e_draw e)"
    using leader_message_opens [OF L(1-3) I _ msg, of ?e1] by auto
  have wf: "wf_session ?A" "wf_session ?B"
    using encrypt_wf [OF L(1) A(1) enc] decrypt_wf [OF L(1) B dec] by blast+
  have keys: "own_key L e2 ?A" "own_key L e2 ?B"
    using I e2 after_step_fields(11) [OF I] by (force simp: leads_def own_key_def less_Suc_eq)+
  have "scalarmult_unchecked L (snd ?kp) (s_dhs_public A) = scalarmult_unchecked L (s_dhs_private A) (fst ?kp)"
    by (rule scalarmult_unchecked_commute [OF L(4) box_keypair_pair own_key_pair [of L e A]])
      (use I in \<open>simp add: leads_def\<close>)
  then have root: "kdf_rk L (s_root_key A) (scalarmult_unchecked L (s_dhs_private A) (fst ?kp)) =
      (s_root_key ?B, s_send_chain_key ?B)"
    using after_step_fields(12) [OF I] by simp
  have pub: "s_dhs_public (after_step L A B e) = fst ?kp" using after_step_fields(11) [OF I] by (metis fst_conv)
  have "fst ?kp \<noteq> s_dhs_public B" by (rule drawn_fresh [OF L(5) N own_key_drawn]) (use I in \<open>simp add: leads_def\<close>)
  with I wf keys root pub after_step_fields [OF I] have "leads L e2 ?B ?A"
    by (auto simp: leads_def)
  moreover have "exchange L A B p e = (Ok p, ?A, ?B, e2)"
    using enc dec by (simp add: exchange_def)
  ultimately show thesis using that A(2) e2 by simp
qed

text \<open>Any sequence of turns, whichever party leads.\<close>

lemma converse_ok:
  assumes L: "sizes_ok L" "aead_ok L" "mem_ok L" "dh_ok L" "fresh_keys L N"
    and "leads L e A B \<and> s_has_send_chain B \<or> leads L e B A \<and> s_has_send_chain A"
    and "e_draw e + length ms \<le> N"
  shows "converse L A B ms e = map (\<lambda>m. Ok (snd m)) ms"
  using assms(6,7)
proof (induction ms arbitrary: A B e)
  case Nil
  then show ?case by simp
next
  case (Cons m ms)
  obtain first p where m: "m = (first, p)" by (cases m)
  have N: "e_draw e < N" using Cons.prems(2) by simp
  let ?S = "if first then A else B" and ?R = "if first then B else A"
  have turn: "\<exists>S' R' e'. exchange L ?S ?R p e = (Ok p, S', R', e') \<and>
      (leads L e' S' R' \<and> s_has_send_chain R' \<or> leads L e' R' S' \<and> s_has_send_chain S') \<and>
      e_draw e' \<le> Suc (e_draw e)"
  proof (cases "leads L e ?S ?R")
    case True
    then show ?thesis by (rule exchange_new_chain [OF L _ N, of _ _ p]) force
  next
    case False
    then have "leads L e ?R ?S" "s_has_send_chain ?S" using Cons.prems(1) by (auto split: if_splits)
    then show ?thesis by (rule exchange_same_chain [OF L(1-3), of _ _ _ p]) force
  qed
  then obtain S' R' e' where t: "exchange L ?S ?R p e = (Ok p, S', R', e')"
    "leads L e' S' R' \<and> s_has_send_chain R' \<or> leads L e' R' S' \<and> s_has_send_chain S'"
    "e_draw e' \<le> Suc (e_draw e)" by blast
  then have "e_draw e' + length ms \<le> N" using Cons.prems(2) by simp
  with Cons.IH [of e' S' R'] Cons.IH [of e' R' S'] t m show ?case by (cases first) auto
qed

section \<open>How a session starts\<close>

lemma init_sessions_lead:
  assumes "sizes_ok L" "dh_ok L" "length ad = 64" "length sk = 32"
    and "crypto_box_keypair L i = (spk, spk_priv)" "i < e_draw e"
    and "init_as_initiator L (new_ZiaSession\<lparr>s_ad := ad\<rparr>) sk spk e = (A, e1)"
    and "e_draw e1 \<le> e_draw e2"
  shows "leads L e2 A (init_as_responder (new_ZiaSession\<lparr>s_ad := ad\<rparr>) sk spk spk_priv)"
proof -
  let ?B = "init_as_responder (new_ZiaSession\<lparr>s_ad := ad\<rparr>) sk spk spk_priv"
  let ?kp = "crypto_box_keypair L (e_draw e)"
  have A: "A = new_ZiaSession\<lparr>s_ad := ad, s_dhs_public := fst ?kp, s_dhs_private := snd ?kp,
      s_dhr_public := spk, s_has_dhr := True,
      s_root_key := fst (kdf_rk L sk (scalarmult_unchecked L (snd ?kp) spk)),
      s_send_chain_key := snd (kdf_rk L sk (scalarmult_unchecked L (snd ?kp) spk)), s_has_send_chain := True\<rparr>"
    and e1: "e_draw e1 = Suc (e_draw e)"
    using assms(7) by (auto simp: init_as_initiator_def x25519_keypair_def draw_def case_prod_beta Let_def)
  have len: "length spk = 32" "length spk_priv = 32" using sizes_lens(6,7) [OF assms(1), of i] assms(5) by simp_all
  have wfA: "wf_session A"
    using init_as_initiator_wf [OF assms(1,4) len(1), of "new_ZiaSession\<lparr>s_ad := ad\<rparr>" e] assms(3,7)
    by (simp add: new_ZiaSession_def)
  have wfB: "wf_session ?B"
    by (rule init_as_responder_wf) (simp_all add: assms(3,4) len new_ZiaSession_def)
  have "x25519_pair L spk spk_priv" using box_keypair_pair [of L i] assms(5) by simp
  then have "scalarmult_unchecked L spk_priv (fst ?kp) = scalarmult_unchecked L (snd ?kp) spk"
    by (rule scalarmult_unchecked_commute [OF assms(2) _ box_keypair_pair])
  moreover have "own_key L e2 A"
    using assms(8) e1 A by (auto simp: own_key_def intro!: exI [of _ "e_draw e"])
  moreover have "own_key L e2 ?B"
    using assms(5,6,8) e1 by (auto simp: own_key_def init_as_responder_def intro!: exI [of _ i])
  ultimately show ?thesis
    using wfA wfB by (auto simp: leads_def A init_as_responder_def new_ZiaSession_def)
qed

end
