(* ===== verification/Files.thy ===== *)
theory Files
  imports Libs "HOL-Library.AList"
begin

text \<open>
  The part of the C++ standard library the storage code uses: \<open>std::filesystem::path\<close> composition,
  output streams, renaming and removal.  The environment holds the files as an association list; every
  system call has a number and the parameter \<open>io_ok\<close> decides whether it succeeds.

  A \<open>std::ofstream\<close> buffers: \<open>write\<close> may report an error at once, but the bytes still in the buffer
  only reach the disk when the stream is destroyed, and a failure then goes unnoticed.  \<open>write_file\<close>
  therefore makes three calls: opening (which truncates), the write the code tests with \<open>f.good()\<close>,
  and the flush on destruction, whose outcome nobody sees.
\<close>

section \<open>Paths\<close>

text \<open>\<open>a / b\<close> of \<open>std::filesystem::path\<close>: an absolute right operand replaces the left one.\<close>

definition slash :: u8 where "slash = 47"

definition path_join :: "bytes \<Rightarrow> bytes \<Rightarrow> bytes" where
  "path_join a b =
     (if b \<noteq> [] \<and> hd b = slash then b
      else if a = [] \<or> last a = slash then a @ b
      else a @ [slash] @ b)"

text \<open>The characters of a C string: everything before the first NUL.\<close>

definition cstr :: "bytes \<Rightarrow> bytes" where
  "cstr s = takeWhile (\<lambda>c. c \<noteq> 0) s"

lemma cstr_id [simp]: "0 \<notin> set s \<Longrightarrow> cstr s = s"
  by (auto simp: cstr_def takeWhile_eq_all_conv)

section \<open>System calls\<close>

definition io :: "lib \<Rightarrow> env \<Rightarrow> bool \<times> env" where
  "io L e = (io_ok L (e_io e), e\<lparr>e_io := Suc (e_io e)\<rparr>)"

definition put_file :: "bytes \<Rightarrow> bytes \<Rightarrow> env \<Rightarrow> env" where
  "put_file path content e = e\<lparr>e_files := AList.update path content (e_files e)\<rparr>"

definition get_file :: "env \<Rightarrow> bytes \<Rightarrow> bytes option" where
  "get_file e path = map_of (e_files e) path"

definition drop_file :: "bytes \<Rightarrow> env \<Rightarrow> env" where
  "drop_file path e = e\<lparr>e_files := AList.delete path (e_files e)\<rparr>"

definition write_file :: "lib \<Rightarrow> bytes \<Rightarrow> bytes \<Rightarrow> env \<Rightarrow> bool \<times> env" where
  "write_file L path content e =
     (let (opened, e1) = io L e in
      if \<not> opened then (False, e1) else
      let (good, e2) = io L (put_file path [] e1) in
      if \<not> good then (False, put_file path (take (io_written L (e_io e1)) content) e2) else
      let (flushed, e3) = io L e2 in
      (True, put_file path (if flushed then content else take (io_written L (e_io e2)) content) e3))"

definition rename_file :: "lib \<Rightarrow> bytes \<Rightarrow> bytes \<Rightarrow> env \<Rightarrow> bool \<times> env" where
  "rename_file L from to e =
     (let (ok, e1) = io L e in
      if \<not> ok then (False, e1)
      else case get_file e1 from of
        None \<Rightarrow> (False, e1)
      | Some content \<Rightarrow> (True, put_file to content (drop_file from e1)))"

definition read_file :: "lib \<Rightarrow> bytes \<Rightarrow> env \<Rightarrow> bytes option \<times> env" where
  "read_file L path e =
     (let (ok, e1) = io L e in (if ok then get_file e1 path else None, e1))"

definition remove_file :: "lib \<Rightarrow> bytes \<Rightarrow> env \<Rightarrow> bool \<times> env" where
  "remove_file L path e =
     (let (ok, e1) = io L e in if ok then (True, drop_file path e1) else (False, e1))"

definition create_directories :: "lib \<Rightarrow> env \<Rightarrow> bool \<times> env" where
  "create_directories L e = io L e"

section \<open>Laws\<close>

lemma get_put_file: "get_file (put_file p c e) q = (if q = p then Some c else get_file e q)"
  by (simp add: get_file_def put_file_def update_conv)

lemma get_drop_file: "get_file (drop_file p e) q = (if q = p then None else get_file e q)"
  by (simp add: get_file_def drop_file_def delete_conv)

lemma file_frames [simp]:
  "e_draw (put_file p c e) = e_draw e" "e_alloc (put_file p c e) = e_alloc e"
  "e_io (put_file p c e) = e_io e" "e_service (put_file p c e) = e_service e"
  "e_secret (put_file p c e) = e_secret e"
  "e_draw (drop_file p e) = e_draw e" "e_alloc (drop_file p e) = e_alloc e"
  "e_io (drop_file p e) = e_io e" "e_service (drop_file p e) = e_service e"
  "e_secret (drop_file p e) = e_secret e"
  by (simp_all add: put_file_def drop_file_def)

lemma get_file_update [simp]:
  "get_file (e\<lparr>e_draw := d\<rparr>) p = get_file e p" "get_file (e\<lparr>e_alloc := d\<rparr>) p = get_file e p"
  "get_file (e\<lparr>e_io := d\<rparr>) p = get_file e p" "get_file (e\<lparr>e_service := d\<rparr>) p = get_file e p"
  "get_file (e\<lparr>e_secret := s\<rparr>) p = get_file e p"
  by (simp_all add: get_file_def)

lemma io_frames [simp]:
  "e_draw (snd (io L e)) = e_draw e" "e_alloc (snd (io L e)) = e_alloc e"
  "e_service (snd (io L e)) = e_service e" "e_secret (snd (io L e)) = e_secret e"
  "e_files (snd (io L e)) = e_files e" "e_io (snd (io L e)) = Suc (e_io e)"
  "get_file (snd (io L e)) = get_file e"
  by (auto simp: io_def get_file_def)

text \<open>
  Replacing a file: write beside it, then rename.  Until the rename succeeds the target is as it was.
\<close>

definition replace_file :: "lib \<Rightarrow> bytes \<Rightarrow> bytes \<Rightarrow> bytes \<Rightarrow> env \<Rightarrow> bool \<times> env" where
  "replace_file L tmp final content e =
     (let (ok, e1) = write_file L tmp content e in
      if \<not> ok then (False, e1) else rename_file L tmp final e1)"

lemma write_file_frames:
  "e_draw (snd (write_file L p c e)) = e_draw e" "e_secret (snd (write_file L p c e)) = e_secret e"
  by (simp_all add: write_file_def io_def Let_def)

lemma rename_file_frames:
  "e_draw (snd (rename_file L a b e)) = e_draw e" "e_secret (snd (rename_file L a b e)) = e_secret e"
  by (simp_all add: rename_file_def io_def Let_def split: option.split)

lemma replace_file_frames:
  "e_draw (snd (replace_file L t f c e)) = e_draw e" "e_secret (snd (replace_file L t f c e)) = e_secret e"
  by (simp_all add: replace_file_def case_prod_beta rename_file_frames write_file_frames)

lemma replace_file_fails:
  assumes "tmp \<noteq> final" "replace_file L tmp final c e = (False, e')"
  shows "get_file e' final = get_file e final"
  using assms
  by (auto simp: replace_file_def write_file_def rename_file_def io_def get_put_file Let_def
      split: if_splits option.splits)

lemma replace_file_other:
  assumes "q \<noteq> tmp" "q \<noteq> final"
  shows "get_file (snd (replace_file L tmp final c e)) q = get_file e q"
  using assms
  by (auto simp: replace_file_def write_file_def rename_file_def io_def get_put_file get_drop_file Let_def
      split: option.splits)

lemma replace_file_ok:
  assumes "disk_ok L" "tmp \<noteq> final"
  obtains e' where "replace_file L tmp final c e = (True, e')" "get_file e' final = Some c"
    "get_file e' tmp = None" "e_secret e' = e_secret e" "e_draw e' = e_draw e"
  using assms
  by (auto simp: replace_file_def write_file_def rename_file_def io_def get_put_file get_drop_file Let_def
      disk_ok_def)

lemma read_file_ok:
  "disk_ok L \<Longrightarrow> read_file L p e = (get_file e p, e\<lparr>e_io := Suc (e_io e)\<rparr>)"
  by (simp add: read_file_def io_def disk_ok_def)

end
