(* ===== verification/Master_Key.thy ===== *)
theory Master_Key
  imports Prelude
begin

text \<open>
  \<open>src/storage/secure_key_store.hpp\<close>: the class \<open>SecureKeyStore\<close>, whose four virtual functions every platform
  implements, and the helper its clients use to obtain the master key.  The contract is a small abstract
  machine that holds at most one key; the locale \<open>secure_key_store\<close> states what a platform owes, and proves
  once that every sequence of calls on such a platform is a run of the machine.
\<close>

section \<open>The abstract key store\<close>

definition KEYBYTES :: nat where "KEYBYTES = 32"

datatype ks_call = Has | Load | Generate | Delete | Obtain

datatype ks_answer = Answer bool | Key "bytes option"

text \<open>
  One call on the machine holding \<open>m\<close>.  Deleting an absent key may answer either way: the platforms differ.
\<close>

inductive ks_step :: "bytes option \<Rightarrow> ks_call \<Rightarrow> ks_answer \<Rightarrow> bytes option \<Rightarrow> bool" where
  has: "ks_step m Has (Answer (m \<noteq> None)) m"
| load: "ks_step m Load (Key m) m"
| generate: "length k = KEYBYTES \<Longrightarrow> ks_step m Generate (Key (Some k)) (Some k)"
| delete: "(m \<noteq> None \<longrightarrow> b) \<Longrightarrow> ks_step m Delete (Answer b) None"
| obtain_held: "ks_step (Some k) Obtain (Key (Some k)) (Some k)"
| obtain_new: "length k = KEYBYTES \<Longrightarrow> ks_step None Obtain (Key (Some k)) (Some k)"

inductive_simps ks_step_simps:
  "ks_step m Has a m'" "ks_step m Load a m'" "ks_step m Generate a m'" "ks_step m Delete a m'"
  "ks_step m Obtain a m'"

primrec ks_trace :: "bytes option \<Rightarrow> (ks_call \<times> ks_answer) list \<Rightarrow> bytes option \<Rightarrow> bool" where
  "ks_trace m [] m' \<longleftrightarrow> m' = m"
| "ks_trace m (x # t) m' \<longleftrightarrow> (\<exists>m1. ks_step m (fst x) (snd x) m1 \<and> ks_trace m1 t m')"

text \<open>
  The machine is stable: once it holds a key, as long as nobody deletes or regenerates it, every call
  that returns a key returns that one, every query says it is there, and it is still held at the end.
\<close>

lemma ks_trace_stable:
  assumes "ks_trace (Some k) t m'" "Generate \<notin> fst ` set t" "Delete \<notin> fst ` set t"
  shows "m' = Some k \<and> snd ` set t \<subseteq> {Answer True, Key (Some k)}"
  using assms
proof (induction t)
  case (Cons x t)
  obtain c a where x: "x = (c, a)" by (cases x)
  with Cons.prems obtain m1 where s: "ks_step (Some k) c a m1" "ks_trace m1 t m'" by auto
  have "m1 = Some k \<and> a \<in> {Answer True, Key (Some k)}"
    using s(1) Cons.prems(2,3) x by (cases c) (auto simp: ks_step_simps)
  with Cons.IH s(2) Cons.prems(2,3) x show ?case by auto
qed simp

section \<open>Obtaining the key\<close>

text \<open>
  The clients (\<open>session.cpp\<close>, \<open>identity_store.cpp\<close>, \<open>secure_blob.cpp\<close>) all ask in the same way: load the key if
  there is one, make one otherwise.
\<close>

definition obtain_master_key ::
  "('s \<Rightarrow> bool \<times> 's) \<Rightarrow> ('s \<Rightarrow> bytes option \<times> 's) \<Rightarrow> ('s \<Rightarrow> bytes option \<times> 's) \<Rightarrow> 's \<Rightarrow> bytes option \<times> 's" where
  "obtain_master_key has load generate s =
     (let (found, s1) = has s in if found then load s1 else generate s1)"

text \<open>One call on an implementation, and a sequence of calls with their answers.\<close>

definition call_key_store ::
  "('s \<Rightarrow> bool \<times> 's) \<Rightarrow> ('s \<Rightarrow> bytes option \<times> 's) \<Rightarrow> ('s \<Rightarrow> bytes option \<times> 's) \<Rightarrow> ('s \<Rightarrow> bool \<times> 's) \<Rightarrow>
     ks_call \<Rightarrow> 's \<Rightarrow> ks_answer \<times> 's" where
  "call_key_store has load generate delete c s =
     (case c of
        Has \<Rightarrow> map_prod Answer id (has s)
      | Load \<Rightarrow> map_prod Key id (load s)
      | Generate \<Rightarrow> map_prod Key id (generate s)
      | Delete \<Rightarrow> map_prod Answer id (delete s)
      | Obtain \<Rightarrow> map_prod Key id (obtain_master_key has load generate s))"

primrec run_key_store ::
  "('s \<Rightarrow> bool \<times> 's) \<Rightarrow> ('s \<Rightarrow> bytes option \<times> 's) \<Rightarrow> ('s \<Rightarrow> bytes option \<times> 's) \<Rightarrow> ('s \<Rightarrow> bool \<times> 's) \<Rightarrow>
     ks_call list \<Rightarrow> 's \<Rightarrow> (ks_call \<times> ks_answer) list \<times> 's" where
  "run_key_store has load generate delete [] s = ([], s)"
| "run_key_store has load generate delete (c # cs) s =
     (let (a, s1) = call_key_store has load generate delete c s;
          (t, s2) = run_key_store has load generate delete cs s1
      in ((c, a) # t, s2))"

section \<open>The contract\<close>

text \<open>
  \<open>inv\<close> are the states in which the platform works, \<open>stored\<close> the key it holds there.
\<close>

locale secure_key_store =
  fixes has :: "'s \<Rightarrow> bool \<times> 's"
    and load :: "'s \<Rightarrow> bytes option \<times> 's"
    and generate :: "'s \<Rightarrow> bytes option \<times> 's"
    and delete :: "'s \<Rightarrow> bool \<times> 's"
    and inv :: "'s \<Rightarrow> bool"
    and stored :: "'s \<Rightarrow> bytes option"
  assumes has_law: "inv s \<Longrightarrow> has s = (b, s') \<Longrightarrow> b = (stored s \<noteq> None) \<and> inv s' \<and> stored s' = stored s"
    and load_law: "inv s \<Longrightarrow> load s = (r, s') \<Longrightarrow> r = stored s \<and> inv s' \<and> stored s' = stored s"
    and generate_law: "inv s \<Longrightarrow> generate s = (r, s') \<Longrightarrow>
      \<exists>k. r = Some k \<and> length k = KEYBYTES \<and> inv s' \<and> stored s' = Some k"
    and delete_law: "inv s \<Longrightarrow> delete s = (b, s') \<Longrightarrow> (stored s \<noteq> None \<longrightarrow> b) \<and> inv s' \<and> stored s' = None"
begin

lemma obtain_law:
  assumes "inv s" "obtain_master_key has load generate s = (r, s')"
  shows "\<exists>k. r = Some k \<and> inv s' \<and> stored s' = Some k \<and>
    (stored s = Some k \<or> stored s = None \<and> length k = KEYBYTES)"
proof -
  obtain b s1 where h: "has s = (b, s1)" by fastforce
  have s1: "b = (stored s \<noteq> None)" "inv s1" "stored s1 = stored s" using has_law [OF assms(1) h] by auto
  show ?thesis
  proof (cases "stored s")
    case None
    then have "generate s1 = (r, s')" using assms(2) h s1(1) by (simp add: obtain_master_key_def)
    from generate_law [OF s1(2) this] None show ?thesis by auto
  next
    case (Some k)
    then have "load s1 = (r, s')" using assms(2) h s1(1) by (simp add: obtain_master_key_def)
    from load_law [OF s1(2) this] Some s1(3) show ?thesis by auto
  qed
qed

lemma call_refines:
  assumes "inv s" "call_key_store has load generate delete c s = (a, s')"
  shows "ks_step (stored s) c a (stored s') \<and> inv s'"
proof (cases c)
  case Has
  with assms(2) obtain b where "has s = (b, s')" "a = Answer b" by (cases "has s") (auto simp: call_key_store_def)
  with has_law [OF assms(1)] Has show ?thesis by (auto simp: ks_step_simps)
next
  case Load
  with assms(2) obtain r where "load s = (r, s')" "a = Key r" by (cases "load s") (auto simp: call_key_store_def)
  with load_law [OF assms(1)] Load show ?thesis by (auto simp: ks_step_simps)
next
  case Generate
  with assms(2) obtain r where "generate s = (r, s')" "a = Key r"
    by (cases "generate s") (auto simp: call_key_store_def)
  with generate_law [OF assms(1)] Generate show ?thesis by (auto simp: ks_step_simps)
next
  case Delete
  with assms(2) obtain b where "delete s = (b, s')" "a = Answer b"
    by (cases "delete s") (auto simp: call_key_store_def)
  with delete_law [OF assms(1)] Delete show ?thesis by (auto simp: ks_step_simps)
next
  case Obtain
  with assms(2) obtain r where "obtain_master_key has load generate s = (r, s')" "a = Key r"
    by (cases "obtain_master_key has load generate s") (auto simp: call_key_store_def)
  with obtain_law [OF assms(1)] Obtain show ?thesis by (auto simp: ks_step_simps)
qed

lemma run_refines:
  assumes "inv s" "run_key_store has load generate delete cs s = (t, s')"
  shows "ks_trace (stored s) t (stored s') \<and> map fst t = cs \<and> inv s'"
  using assms
proof (induction cs arbitrary: s t)
  case (Cons c cs)
  obtain a s1 t' where r: "call_key_store has load generate delete c s = (a, s1)"
    "run_key_store has load generate delete cs s1 = (t', s')" "t = (c, a) # t'"
    using Cons.prems(2) by (auto split: prod.splits)
  have c1: "ks_step (stored s) c a (stored s1)" "inv s1" using call_refines [OF Cons.prems(1) r(1)] by auto
  from Cons.IH [OF c1(2) r(2)] c1(1) r(3) show ?case by auto
qed simp

text \<open>So a working platform keeps its key.\<close>

lemma key_kept:
  assumes "inv s" "stored s = Some k" "run_key_store has load generate delete cs s = (t, s')"
    and "Generate \<notin> set cs" "Delete \<notin> set cs"
  shows "stored s' = Some k \<and> (\<forall>x\<in>set t. snd x = Answer True \<or> snd x = Key (Some k))"
proof -
  have "ks_trace (Some k) t (stored s')" "fst ` set t = set cs"
    using run_refines [OF assms(1,3)] assms(2) by (auto simp flip: set_map)
  from ks_trace_stable [OF this(1)] this(2) assms(4,5) show ?thesis by auto
qed

end

end
