(* ===== verification/Key_Store.thy ===== *)
theory Key_Store
  imports Primitives Files Sample_Lib Master_Key
begin

text \<open>
  The master key of the device: \<open>platform/linux/secure_key_store_linux.cpp\<close>, the Linux implementation
  of \<open>SecureKeyStore\<close> over the Secret Service, and the three identical helpers that obtain the key
  (\<open>session.cpp\<close>, \<open>storage/identity_store.cpp\<close>, \<open>storage/secure_blob.cpp\<close>).  A call to the service
  that fails or runs into the deadline of \<open>TimedCancellable\<close> returns no password and sets the error.
\<close>

section \<open>The Secret Service\<close>

definition secret_password_lookup :: "lib \<Rightarrow> env \<Rightarrow> (bytes option \<times> bool) \<times> env" where
  "secret_password_lookup L e =
     ((if service_ok L (e_service e) then (e_secret e, False) else (None, True)),
      e\<lparr>e_service := Suc (e_service e)\<rparr>)"

definition secret_password_store :: "lib \<Rightarrow> bytes \<Rightarrow> env \<Rightarrow> (bool \<times> bool) \<times> env" where
  "secret_password_store L password e =
     (if service_ok L (e_service e)
      then ((True, False), e\<lparr>e_service := Suc (e_service e), e_secret := Some password\<rparr>)
      else ((False, True), e\<lparr>e_service := Suc (e_service e)\<rparr>))"

definition secret_password_clear :: "lib \<Rightarrow> env \<Rightarrow> (bool \<times> bool) \<times> env" where
  "secret_password_clear L e =
     (if service_ok L (e_service e)
      then ((e_secret e \<noteq> None, False), e\<lparr>e_service := Suc (e_service e), e_secret := None\<rparr>)
      else ((False, True), e\<lparr>e_service := Suc (e_service e)\<rparr>))"

section \<open>LinuxSecureKeyStore\<close>



definition has_master_key :: "lib \<Rightarrow> env \<Rightarrow> bool \<times> env" where
  "has_master_key L e =
     (let ((password, error), e1) = secret_password_lookup L e in (password \<noteq> None, e1))"

definition generate_and_store_master_key :: "lib \<Rightarrow> env \<Rightarrow> bytes option \<times> env" where
  "generate_and_store_master_key L e =
     (let (i, e1) = draw e;
          out_key = randombytes_buf L i KEYBYTES;
          encoded = bin2base64 L out_key;
          ((ok, error), e2) = secret_password_store L (cstr encoded) e1
      in if error then (None, e2) else if ok then (Some out_key, e2) else (None, e2))"

definition load_master_key :: "lib \<Rightarrow> env \<Rightarrow> bytes option \<times> env" where
  "load_master_key L e =
     (let ((password, error), e1) = secret_password_lookup L e in
      if error then (None, e1)
      else case password of
        None \<Rightarrow> (None, e1)
      | Some pw \<Rightarrow>
          (case base642bin L KEYBYTES (cstr pw) of
             None \<Rightarrow> (None, e1)
           | Some k \<Rightarrow> if length k = KEYBYTES then (Some k, e1) else (None, e1)))"

definition delete_master_key :: "lib \<Rightarrow> env \<Rightarrow> bool \<times> env" where
  "delete_master_key L e =
     (let ((ok, error), e1) = secret_password_clear L e in if error then (False, e1) else (ok, e1))"

section \<open>Obtaining the key\<close>

definition ensure_master_key :: "lib \<Rightarrow> env \<Rightarrow> bytes option \<times> env" where
  "ensure_master_key L e =
     (let (found, e1) = has_master_key L e in
      if found then load_master_key L e1 else generate_and_store_master_key L e1)"

text \<open>The copies in \<open>identity_store.cpp\<close> and \<open>secure_blob.cpp\<close>.\<close>

definition master_key :: "lib \<Rightarrow> env \<Rightarrow> bytes option \<times> env" where
  "master_key L e =
     (let (found, e1) = has_master_key L e in
      if found then load_master_key L e1 else generate_and_store_master_key L e1)"

lemma master_key_eq [simp]: "master_key = ensure_master_key"
  by (intro ext) (simp add: master_key_def ensure_master_key_def)

text \<open>Obtaining the key never touches a file, and draws at most one random value.\<close>

lemma ensure_files: "get_file (snd (ensure_master_key L e)) p = get_file e p"
  by (simp add: ensure_master_key_def has_master_key_def load_master_key_def generate_and_store_master_key_def
      secret_password_lookup_def secret_password_store_def draw_def Let_def case_prod_beta split: option.split)

lemma ensure_draw: "e_draw e \<le> e_draw (snd (ensure_master_key L e)) \<and> e_draw (snd (ensure_master_key L e)) \<le> e_draw e + 1"
  by (simp add: ensure_master_key_def has_master_key_def load_master_key_def generate_and_store_master_key_def
      secret_password_lookup_def secret_password_store_def draw_def Let_def case_prod_beta split: option.split)

section \<open>The contract of the key store\<close>

text \<open>
  What the storage components rely on: once the store holds a key, asking for it returns that key,
  neither touches files nor randomness, and it is still held; a working store without a key makes one.
\<close>

locale key_vault =
  fixes holds :: "env \<Rightarrow> bytes \<Rightarrow> bool"
    and ready :: "env \<Rightarrow> bool"
    and get :: "env \<Rightarrow> bytes option \<times> env"
  assumes get_holds: "holds e k \<Longrightarrow>
      \<exists>e'. get e = (Some k, e') \<and> holds e' k \<and> e_files e' = e_files e \<and> e_draw e' = e_draw e"
    and get_ready: "ready e \<Longrightarrow>
      \<exists>k e'. get e = (Some k, e') \<and> holds e' k \<and> e_files e' = e_files e"
    and holds_secret: "holds e k \<Longrightarrow> e_secret e' = e_secret e \<Longrightarrow> holds e' k"
    and holds_len: "holds e k \<Longrightarrow> length k = 32"
begin

lemma get_stable:
  assumes "ready e" "get e = (Some k, e1)" "e_secret e2 = e_secret e1"
  shows "\<exists>e3. get e2 = (Some k, e3) \<and> holds e3 k"
proof -
  have "holds e1 k" using get_ready [OF assms(1)] assms(2) by auto
  then have "holds e2 k" using holds_secret assms(3) by blast
  then show ?thesis using get_holds by blast
qed

end

definition vault_holds :: "lib \<Rightarrow> env \<Rightarrow> bytes \<Rightarrow> bool" where
  "vault_holds L e k \<longleftrightarrow>
     keyring_ok L \<and> base64_ok L \<and> length k = 32 \<and> e_secret e = Some (bin2base64 L k)"

definition vault_ready :: "lib \<Rightarrow> env \<Rightarrow> bool" where
  "vault_ready L e \<longleftrightarrow>
     keyring_ok L \<and> base64_ok L \<and> sizes_ok L \<and> (e_secret e = None \<or> (\<exists>k. vault_holds L e k))"

lemma lookup_ok:
  "keyring_ok L \<Longrightarrow> secret_password_lookup L e = ((e_secret e, False), e\<lparr>e_service := Suc (e_service e)\<rparr>)"
  by (simp add: secret_password_lookup_def keyring_ok_def)

lemma base64_text:
  "base64_ok L \<Longrightarrow> cstr (bin2base64 L k) = bin2base64 L k \<and> base642bin L (length k) (bin2base64 L k) = Some k"
  by (simp add: base64_ok_def)

lemma ensure_holds:
  "vault_holds L e k \<Longrightarrow> ensure_master_key L e = (Some k, e\<lparr>e_service := Suc (Suc (e_service e))\<rparr>)"
  using base64_text [of L k]
  by (simp add: vault_holds_def ensure_master_key_def has_master_key_def load_master_key_def lookup_ok
      KEYBYTES_def)

lemma ensure_new:
  assumes "keyring_ok L" "base64_ok L" "sizes_ok L" "e_secret e = None"
  shows "ensure_master_key L e =
    (Some (randombytes_buf L (e_draw e) 32),
     e\<lparr>e_service := Suc (Suc (e_service e)), e_draw := Suc (e_draw e),
       e_secret := Some (bin2base64 L (randombytes_buf L (e_draw e) 32))\<rparr>)"
  using assms
  by (simp add: ensure_master_key_def has_master_key_def generate_and_store_master_key_def lookup_ok
      secret_password_store_def keyring_ok_def draw_def KEYBYTES_def base64_ok_def Let_def)

lemma vault_holds_cong: "vault_holds L e k \<Longrightarrow> e_secret e' = e_secret e \<Longrightarrow> vault_holds L e' k"
  by (simp add: vault_holds_def)

interpretation mkey: key_vault "vault_holds L" "vault_ready L" "ensure_master_key L" for L
proof unfold_locales
  show "\<exists>e'. ensure_master_key L e = (Some k, e') \<and> vault_holds L e' k \<and> e_files e' = e_files e \<and> e_draw e' = e_draw e"
    if "vault_holds L e k" for e k
    using that ensure_holds [OF that] by (simp add: vault_holds_def)
next
  fix e
  assume r: "vault_ready L e"
  show "\<exists>k e'. ensure_master_key L e = (Some k, e') \<and> vault_holds L e' k \<and> e_files e' = e_files e"
  proof (cases "e_secret e")
    case None
    with r ensure_new [of L e] show ?thesis by (simp add: vault_ready_def vault_holds_def sizes_lens)
  next
    case (Some s)
    with r obtain k where k: "vault_holds L e k" by (auto simp: vault_ready_def)
    with ensure_holds [OF k] show ?thesis by (simp add: vault_holds_def)
  qed
qed (auto simp: vault_holds_def)

section \<open>The Linux store keeps the contract of the class\<close>

text \<open>The key in the Secret Service, decoded.\<close>

definition linux_stored :: "lib \<Rightarrow> env \<Rightarrow> bytes option" where
  "linux_stored L e = (case e_secret e of None \<Rightarrow> None | Some pw \<Rightarrow> base642bin L KEYBYTES (cstr pw))"

lemma ready_cases:
  assumes "vault_ready L e"
  obtains "e_secret e = None" "linux_stored L e = None"
  | k where "length k = 32" "e_secret e = Some (bin2base64 L k)" "linux_stored L e = Some k"
proof (cases "e_secret e")
  case (Some pw)
  with assms obtain k where "length k = 32" "pw = bin2base64 L k" by (auto simp: vault_ready_def vault_holds_def)
  with Some that(2) base64_text [of L k] assms show thesis
    by (simp add: linux_stored_def KEYBYTES_def vault_ready_def)
qed (use that(1) in \<open>simp add: linux_stored_def\<close>)

lemma ready_service [simp]: "vault_ready L (e\<lparr>e_service := n\<rparr>) = vault_ready L e"
  by (simp add: vault_ready_def vault_holds_def)

lemma generate_ready:
  assumes "vault_ready L e"
  defines "k \<equiv> randombytes_buf L (e_draw e) 32"
  shows "generate_and_store_master_key L e =
    (Some k, e\<lparr>e_draw := Suc (e_draw e), e_service := Suc (e_service e), e_secret := Some (bin2base64 L k)\<rparr>)"
  using assms base64_text [of L k]
  by (simp add: generate_and_store_master_key_def secret_password_store_def draw_def KEYBYTES_def vault_ready_def
      keyring_ok_def Let_def)

lemma ready_new:
  "vault_ready L e \<Longrightarrow> length k = 32 \<Longrightarrow> vault_ready L (e\<lparr>e_draw := d, e_service := n, e_secret := Some (bin2base64 L k)\<rparr>) \<and>
     linux_stored L (e\<lparr>e_draw := d, e_service := n, e_secret := Some (bin2base64 L k)\<rparr>) = Some k"
  using base64_text [of L k] by (auto simp: vault_ready_def vault_holds_def linux_stored_def KEYBYTES_def)

interpretation linux: secure_key_store "has_master_key L" "load_master_key L" "generate_and_store_master_key L"
  "delete_master_key L" "vault_ready L" "linux_stored L" for L
proof unfold_locales
  fix e e' :: env and r :: "bytes option" and b :: bool
  assume i: "vault_ready L e"
  then have look: "secret_password_lookup L e = ((e_secret e, False), e\<lparr>e_service := Suc (e_service e)\<rparr>)"
    by (simp add: lookup_ok vault_ready_def)
  show "b = (linux_stored L e \<noteq> None) \<and> vault_ready L e' \<and> linux_stored L e' = linux_stored L e"
    if "has_master_key L e = (b, e')"
    using i that look by (auto simp: has_master_key_def linux_stored_def elim: ready_cases)
  show "r = linux_stored L e \<and> vault_ready L e' \<and> linux_stored L e' = linux_stored L e"
    if "load_master_key L e = (r, e')"
    using i
  proof (cases rule: ready_cases)
    case 1
    with i that look show ?thesis by (auto simp: load_master_key_def linux_stored_def)
  next
    case (2 k)
    moreover have "base64_ok L" using i by (simp add: vault_ready_def)
    ultimately show ?thesis
      using i that look base64_text [of L k] by (auto simp: load_master_key_def linux_stored_def KEYBYTES_def)
  qed
  show "\<exists>k. r = Some k \<and> length k = KEYBYTES \<and> vault_ready L e' \<and> linux_stored L e' = Some k"
    if "generate_and_store_master_key L e = (r, e')"
  proof -
    have "length (randombytes_buf L (e_draw e) 32) = 32" using i by (simp add: vault_ready_def sizes_lens)
    with ready_new [OF i this] generate_ready [OF i] that show ?thesis by (auto simp: KEYBYTES_def)
  qed
  show "(linux_stored L e \<noteq> None \<longrightarrow> b) \<and> vault_ready L e' \<and> linux_stored L e' = None"
    if "delete_master_key L e = (b, e')"
    using i that
    by (auto simp: delete_master_key_def secret_password_clear_def vault_ready_def keyring_ok_def linux_stored_def
        split: option.splits)
qed

section \<open>Properties\<close>

text \<open>
  C19 (refinement).  On Linux the master key store is the abstract store of one key: when the Secret Service
  answers, every sequence of queries, loads, generations, deletions and requests for the key gets the answers
  of the machine \<open>ks_step\<close> started on the stored key.  So the first request makes 32 random bytes and every
  later one returns them until they are deleted or regenerated.
\<close>

theorem linux_key_store_refines:
  assumes "vault_ready L e"
    and "run_key_store (has_master_key L) (load_master_key L) (generate_and_store_master_key L) (delete_master_key L) cs e = (t, e')"
  shows "ks_trace (linux_stored L e) t (linux_stored L e') \<and> map fst t = cs \<and> vault_ready L e' \<and>
    (\<forall>k. linux_stored L e = Some k \<and> Generate \<notin> set cs \<and> Delete \<notin> set cs \<longrightarrow>
       linux_stored L e' = Some k \<and> (\<forall>x\<in>set t. snd x = Answer True \<or> snd x = Key (Some k)))"
  using linux.run_refines [OF assms] linux.key_kept [OF assms(1) _ assms(2)] by blast

lemma sample_vault_ready: "vault_ready sample_lib env0"
  by (simp add: vault_ready_def sample_laws env0_def)

theorem linux_key_store_refines_witness:
  "\<exists>t e'. run_key_store (has_master_key sample_lib) (load_master_key sample_lib) (generate_and_store_master_key sample_lib)
     (delete_master_key sample_lib) [Obtain, Has, Delete, Load] env0 = (t, e') \<and> ks_trace None t None"
proof -
  obtain t e' where r: "run_key_store (has_master_key sample_lib) (load_master_key sample_lib)
      (generate_and_store_master_key sample_lib) (delete_master_key sample_lib) [Obtain, Has, Delete, Load] env0 = (t, e')"
    by fastforce
  have z: "linux_stored sample_lib env0 = None" by (simp add: linux_stored_def env0_def)
  obtain a b c d where t: "t = [(Obtain, a), (Has, b), (Delete, c), (Load, d)]"
    using linux_key_store_refines [OF sample_vault_ready r] by (auto simp: map_eq_Cons_conv)
  have "linux_stored sample_lib e' = None"
    using linux_key_store_refines [OF sample_vault_ready r] unfolding t by (auto simp: ks_step_simps)
  with linux_key_store_refines [OF sample_vault_ready r] z r show ?thesis by auto
qed

text \<open>
  C40 (safety).  A lookup that fails (deadline exceeded, keyring locked) is indistinguishable from an
  absent key: if the next call to the service succeeds, a new random key replaces the existing one, and
  what was encrypted under the old key is lost.
\<close>

theorem lookup_failure_replaces_master_key:
  assumes "e_secret e = Some old" "\<not> service_ok L (e_service e)" "service_ok L (Suc (e_service e))"
  shows "\<exists>e'. ensure_master_key L e = (Some (randombytes_buf L (e_draw e) 32), e') \<and>
    e_secret e' = Some (cstr (bin2base64 L (randombytes_buf L (e_draw e) 32)))"
  using assms
  by (simp add: ensure_master_key_def has_master_key_def generate_and_store_master_key_def
      secret_password_lookup_def secret_password_store_def draw_def KEYBYTES_def Let_def)

theorem lookup_failure_replaces_master_key_witness:
  "\<exists>e'. ensure_master_key (sample_lib\<lparr>service_ok := \<lambda>i. i \<noteq> 0\<rparr>) (env0\<lparr>e_secret := Some (sample_hex (replicate 32 200))\<rparr>) =
       (Some (replicate 32 0), e') \<and> e_secret e' = Some (sample_hex (replicate 32 0))"
  using lookup_failure_replaces_master_key [of "env0\<lparr>e_secret := Some (sample_hex (replicate 32 200))\<rparr>"
      "sample_hex (replicate 32 200)" "sample_lib\<lparr>service_ok := \<lambda>i. i \<noteq> 0\<rparr>"]
  by (simp add: env0_def sample_lib_def sample_hex_no_nul)

end
