(* ===== verification/Secret_Stream.thy ===== *)
theory Secret_Stream
  imports Key_Store
begin

text \<open>
  The at-rest format shared by sessions, the identity file and the vault: a 24-byte header followed by
  one final block of \<open>crypto_secretstream_xchacha20poly1305\<close> under the master key.  The three callers
  make the same sequence of library calls; \<open>stream_seal\<close> and \<open>stream_open\<close> are these sequences.  The
  tag read back is not compared with the final tag by any caller.
\<close>

definition HEADERBYTES :: nat where "HEADERBYTES = 24"
definition ABYTES :: nat where "ABYTES = 17"
definition TAG_FINAL :: u8 where "TAG_FINAL = 3"
definition kMin :: nat where "kMin = HEADERBYTES + ABYTES"

definition stream_seal :: "lib \<Rightarrow> bytes \<Rightarrow> bytes \<Rightarrow> env \<Rightarrow> (bytes \<times> bytes) option \<times> env" where
  "stream_seal L key plain e =
     (let (i, e1) = draw e in
      case secretstream_init_push L i key of
        None \<Rightarrow> (None, e1)
      | Some (header, st) \<Rightarrow>
          (map_option (\<lambda>cipher. (header, cipher)) (secretstream_push L st plain TAG_FINAL), e1))"

definition stream_open :: "lib \<Rightarrow> bytes \<Rightarrow> bytes \<Rightarrow> bytes option" where
  "stream_open L key raw =
     (case secretstream_init_pull L (take HEADERBYTES raw) key of
        None \<Rightarrow> None
      | Some st \<Rightarrow> map_option fst (secretstream_pull L st (drop HEADERBYTES raw)))"

lemma stream_pieces:
  assumes "stream_ok L" "length key = 32"
  obtains header st cipher where "secretstream_init_push L i key = Some (header, st)"
    "secretstream_push L st plain TAG_FINAL = Some cipher" "length header = 24"
    "length cipher = length plain + 17" "stream_open L key (header @ cipher) = Some plain"
proof -
  obtain h st st' where s: "secretstream_init_push L i key = Some (h, st)" "length h = 24"
    "secretstream_init_pull L h key = Some st'"
    "\<And>m tag. \<exists>c. secretstream_push L st m tag = Some c \<and> length c = length m + 17 \<and>
       secretstream_pull L st' c = Some (m, tag)"
    using assms unfolding stream_ok_def by meson
  from s(4) [of plain TAG_FINAL] obtain c where c: "secretstream_push L st plain TAG_FINAL = Some c"
    "length c = length plain + 17" "secretstream_pull L st' c = Some (plain, TAG_FINAL)" by blast
  have "stream_open L key (h @ c) = Some plain"
    using s c by (simp add: stream_open_def HEADERBYTES_def)
  then show thesis by (rule that [OF s(1) c(1) s(2) c(2)])
qed

lemma stream_seal_ok:
  assumes "stream_ok L" "length key = 32"
  obtains header cipher where "stream_seal L key plain e = (Some (header, cipher), e\<lparr>e_draw := Suc (e_draw e)\<rparr>)"
    "length (header @ cipher) = length plain + kMin" "stream_open L key (header @ cipher) = Some plain"
proof -
  obtain header st cipher where s: "secretstream_init_push L (e_draw e) key = Some (header, st)"
    "secretstream_push L st plain TAG_FINAL = Some cipher" "length header = 24"
    "length cipher = length plain + 17" "stream_open L key (header @ cipher) = Some plain"
    by (rule stream_pieces [OF assms])
  have "stream_seal L key plain e = (Some (header, cipher), e\<lparr>e_draw := Suc (e_draw e)\<rparr>)"
    using s(1,2) by (simp add: stream_seal_def draw_def)
  then show thesis
    by (rule that) (use s in \<open>simp_all add: kMin_def HEADERBYTES_def ABYTES_def\<close>)
qed

lemma stream_seal_frames:
  "get_file (snd (stream_seal L k pl e)) p = get_file e p" "e_draw (snd (stream_seal L k pl e)) = Suc (e_draw e)"
  by (simp_all add: stream_seal_def draw_def split: option.split prod.split)

end
