(* ===== verification/Session_Store.thy ===== *)
theory Session_Store
  imports Conversation Secret_Stream "HOL-Library.Monad_Syntax"
begin

text \<open>
  \<open>src/session.cpp\<close>: sessions leave memory as an encrypted blob and come back.  \<open>serialize_state\<close> and
  \<open>deserialize_state\<close> are the plain format; \<open>zia_session_serialize\<close> and \<open>zia_session_deserialize\<close> add the
  encryption under the master key of the device.  A failed \<open>deserialize_state\<close> deletes the session it
  was filling, so the model returns no session at all; \<open>reserve\<close> is assumed to succeed here (\<open>Readers\<close> has it).
\<close>

section \<open>Plain format\<close>

definition append_bool_and_key32 :: "bool \<Rightarrow> bytes \<Rightarrow> bytes" where
  "append_bool_and_key32 present key = [if present then 1 else 0] @ (if present then take 32 key else replicate 32 0)"

definition enc_skipped :: "ZiaSkippedKey \<Rightarrow> bytes" where
  "enc_skipped sk = sk_dh_public sk @ write_u32_le (sk_n sk) @ sk_key sk"

definition serialize_state :: "ZiaSession \<Rightarrow> bytes" where
  "serialize_state s =
     s_ad s @ s_dhs_public s @ s_dhs_private s @
     [if s_has_dhr s then 1 else 0] @ s_dhr_public s @ s_root_key s @
     append_bool_and_key32 (s_has_send_chain s) (s_send_chain_key s) @
     append_bool_and_key32 (s_has_recv_chain s) (s_recv_chain_key s) @
     write_u32_le (s_ns s) @ write_u32_le (s_nr s) @ write_u32_le (s_pn s) @
     write_u32_le (of_nat (length (s_skipped s))) @ concat (map enc_skipped (s_skipped s))"

definition dec_skipped :: "bytes \<Rightarrow> (ZiaSkippedKey \<times> bytes) option" where
  "dec_skipped r =
     do { (b, r1) \<leftarrow> reader_read (32 + 4 + 32) r;
          Some (\<lparr>sk_dh_public = take 32 b, sk_n = read_u32_le (drop 32 b), sk_key = drop 36 b\<rparr>, r1) }"

text \<open>The fields in order; the guard \<open>need(1 + 32)\<close> covers a flag and the key that follows it.\<close>

definition parse_state :: "bytes \<Rightarrow> (ZiaSession \<times> bytes) option" where
  "parse_state data =
     do { (ad, r) \<leftarrow> reader_read 64 data;
          (dhs_public, r) \<leftarrow> reader_read 32 r;
          (dhs_private, r) \<leftarrow> reader_read 32 r;
          (dhr, r) \<leftarrow> reader_read (1 + 32) r;
          (root_key, r) \<leftarrow> reader_read 32 r;
          (send, r) \<leftarrow> reader_read (1 + 32) r;
          (recv, r) \<leftarrow> reader_read (1 + 32) r;
          (counters, r) \<leftarrow> reader_read 12 r;
          (count, r) \<leftarrow> reader_u32 r;
          (skipped, r) \<leftarrow> read_many dec_skipped (unat count) r;
          Some (\<lparr>s_ad = ad, s_dhs_public = dhs_public, s_dhs_private = dhs_private,
                 s_has_dhr = (hd dhr \<noteq> 0), s_dhr_public = tl dhr, s_root_key = root_key,
                 s_has_send_chain = (hd send \<noteq> 0), s_send_chain_key = tl send,
                 s_has_recv_chain = (hd recv \<noteq> 0), s_recv_chain_key = tl recv,
                 s_ns = read_u32_le counters, s_nr = read_u32_le (drop 4 counters),
                 s_pn = read_u32_le (drop 8 counters), s_skipped = skipped\<rparr>, r) }"

definition deserialize_state :: "bytes \<Rightarrow> ZiaSession option" where
  "deserialize_state data =
     (case parse_state data of None \<Rightarrow> None | Some (s, r) \<Rightarrow> if r = [] then Some s else None)"

section \<open>Encrypted form\<close>

definition zia_session_serialize :: "lib \<Rightarrow> bool \<Rightarrow> ZiaSession \<Rightarrow> env \<Rightarrow> bytes res \<times> env" where
  "zia_session_serialize L nn session e =
     (if \<not> nn then (Err ZIA_ERR_INVALID_ARG, e) else
      let (mk, e1) = ensure_master_key L e in
      case mk of
        None \<Rightarrow> (Err ZIA_ERR_STORAGE_IO, e1)
      | Some key \<Rightarrow>
          let plaintext = serialize_state session; (i, e2) = draw e1 in
          (case secretstream_init_push L i key of
             None \<Rightarrow> (Err ZIA_ERR_CRYPTO_FAILURE, e2)
           | Some (header, st) \<Rightarrow>
               let total_len = HEADERBYTES + (length plaintext + ABYTES); (ok, e3) = malloc L total_len e2 in
               if \<not> ok then (Err ZIA_ERR_OUT_OF_MEMORY, e3) else
               (case secretstream_push L st plaintext TAG_FINAL of
                  None \<Rightarrow> (Err ZIA_ERR_CRYPTO_FAILURE, e3)
                | Some cipher \<Rightarrow> (Ok (header @ cipher), e3))))"

definition zia_session_deserialize :: "lib \<Rightarrow> bool \<Rightarrow> bytes \<Rightarrow> env \<Rightarrow> ZiaSession res \<times> env" where
  "zia_session_deserialize L nn data e =
     (if \<not> nn then (Err ZIA_ERR_INVALID_ARG, e)
      else if length data < kMin then (Err ZIA_ERR_INVALID_ARG, e) else
      let (mk, e1) = ensure_master_key L e in
      case mk of
        None \<Rightarrow> (Err ZIA_ERR_STORAGE_IO, e1)
      | Some key \<Rightarrow>
          (case stream_open L key data of
             None \<Rightarrow> (Err ZIA_ERR_CRYPTO_FAILURE, e1)
           | Some plaintext \<Rightarrow>
               (case deserialize_state plaintext of
                  None \<Rightarrow> (Err ZIA_ERR_CRYPTO_FAILURE, e1)
                | Some session \<Rightarrow> (Ok session, e1))))"

section \<open>Skipped keys as records\<close>

interpretation skc: record_codec wf_skipped enc_skipped dec_skipped 68
proof unfold_locales
  show "length (enc_skipped x) = 68" if "wf_skipped x" for x
    using that by (simp add: enc_skipped_def wf_skipped_def)
  show "dec_skipped (enc_skipped x @ r) = Some (x, r)" if "wf_skipped x" for x r
  proof -
    have "length (enc_skipped x) = 32 + 4 + 32" using that by (simp add: enc_skipped_def wf_skipped_def)
    then have "reader_read (32 + 4 + 32) (enc_skipped x @ r) = Some (enc_skipped x, r)" by (rule reader_read_append)
    then show ?thesis using that
      by (simp add: dec_skipped_def) (simp add: enc_skipped_def wf_skipped_def le32.get_put)
  qed
  show "wf_skipped x \<and> length bs = 68 + length r" if "dec_skipped bs = Some (x, r)" for bs x r
    using that by (auto simp: dec_skipped_def wf_skipped_def reader_read_Some bind_eq_Some_conv)
qed

section \<open>Parsing what was printed\<close>

text \<open>
  What survives: everything, except that an absent chain key comes back as 32 zero bytes where the
  original session had an empty buffer.
\<close>

definition restored :: "ZiaSession \<Rightarrow> ZiaSession" where
  "restored s = s
     \<lparr>s_send_chain_key := if s_has_send_chain s then s_send_chain_key s else replicate 32 0,
      s_recv_chain_key := if s_has_recv_chain s then s_recv_chain_key s else replicate 32 0\<rparr>"

lemma restored_wf: "wf_session s \<Longrightarrow> wf_session (restored s)"
  by (simp add: restored_def wf_session_def)

lemma length_key32 [simp]:
  "(p \<longrightarrow> length k = 32) \<Longrightarrow> length (append_bool_and_key32 p k) = 33"
  by (simp add: append_bool_and_key32_def)

lemma parse_serialize:
  assumes "wf_session s"
  shows "parse_state (serialize_state s @ r) = Some (restored s, r)"
proof -
  let ?sk = "concat (map enc_skipped (s_skipped s))"
  let ?c = "write_u32_le (s_ns s) @ write_u32_le (s_nr s) @ write_u32_le (s_pn s)"
  let ?d = "[if s_has_dhr s then 1 else 0] @ s_dhr_public s :: bytes"
  let ?se = "append_bool_and_key32 (s_has_send_chain s) (s_send_chain_key s)"
  let ?re = "append_bool_and_key32 (s_has_recv_chain s) (s_recv_chain_key s)"
  have w: "length (s_ad s) = 64" "length (s_dhs_public s) = 32" "length (s_dhs_private s) = 32"
    "length (s_root_key s) = 32" "length ?d = 1 + 32" "length ?c = 12"
    "length ?se = 1 + 32" "length ?re = 1 + 32" "list_all wf_skipped (s_skipped s)"
    using assms by (simp_all add: wf_session_def)
  have n: "unat (of_nat (length (s_skipped s)) :: u32) = length (s_skipped s)"
    using assms by (simp add: unat_of_nat wf_session_def kMaxSkippedKeys_def)
  have many: "read_many dec_skipped (length (s_skipped s)) (?sk @ r) = Some (s_skipped s, r)"
    by (rule skc.read_many_enc [OF w(9)])
  have cnt: "read_u32_le ?c = s_ns s" "read_u32_le (drop 4 ?c) = s_nr s" "read_u32_le (drop 8 ?c) = s_pn s"
    by (simp_all add: le32.get_put le32.get_put_exact)
  have eq: "serialize_state s @ r = s_ad s @ s_dhs_public s @ s_dhs_private s @ ?d @ s_root_key s @ ?se @ ?re @ ?c @
      write_u32_le (of_nat (length (s_skipped s))) @ ?sk @ r"
    by (simp add: serialize_state_def)
  have bools: "(hd ?se \<noteq> 0) = s_has_send_chain s" "(hd ?re \<noteq> 0) = s_has_recv_chain s"
    "(hd ?d \<noteq> 0) = s_has_dhr s" "tl ?d = s_dhr_public s"
    "tl ?se = s_send_chain_key (restored s)" "tl ?re = s_recv_chain_key (restored s)"
    using assms by (simp_all add: append_bool_and_key32_def restored_def wf_session_def)
  have red: "reader_read 64 (s_ad s @ x) = Some (s_ad s, x)" "reader_read 32 (s_dhs_public s @ x) = Some (s_dhs_public s, x)"
    "reader_read 32 (s_dhs_private s @ x) = Some (s_dhs_private s, x)" "reader_read (1 + 32) (?d @ x) = Some (?d, x)"
    "reader_read 32 (s_root_key s @ x) = Some (s_root_key s, x)" "reader_read (1 + 32) (?se @ x) = Some (?se, x)"
    "reader_read (1 + 32) (?re @ x) = Some (?re, x)" "reader_read 12 (?c @ x) = Some (?c, x)" for x
    by (rule reader_read_append, fact w)+
  show ?thesis
    unfolding parse_state_def eq red reader_u32_append Option.bind.simps prod.case n many cnt bools
    by (simp add: restored_def)
qed

lemma extensible_dec_skipped: "extensible dec_skipped"
  unfolding dec_skipped_def by (intro extensible_intros)

lemma extensible_parse_state: "extensible parse_state"
  unfolding parse_state_def by (intro extensible_intros extensible_read_many extensible_dec_skipped)

lemma deserialize_serialize: "wf_session s \<Longrightarrow> deserialize_state (serialize_state s) = Some (restored s)"
  using parse_serialize [of s "[]"] by (simp add: deserialize_state_def)

lemma length_serialize_state:
  assumes "wf_session s"
  shows "length (serialize_state s) = 275 + 68 * length (s_skipped s)"
  using assms skc.length_enc_list [of "s_skipped s"]
  by (simp add: serialize_state_def wf_session_def append_bool_and_key32_def)

section \<open>Properties of the formats\<close>

text \<open>
  C24 (roundtrip).  The plain format is exact: a well-formed session serialises to 275 bytes plus 68 per
  skipped key; those bytes parse to the session (an absent chain key coming back as zeros), and no byte
  string that extends or truncates them parses at all.
\<close>

theorem state_format_exact:
  assumes "wf_session s"
  shows "length (serialize_state s) = 275 + 68 * length (s_skipped s) \<and>
    deserialize_state (serialize_state s) = Some (restored s) \<and>
    (x \<noteq> [] \<longrightarrow> deserialize_state (serialize_state s @ x) = None) \<and>
    (n < length (serialize_state s) \<longrightarrow> deserialize_state (take n (serialize_state s)) = None)"
proof (intro conjI impI)
  show "deserialize_state (serialize_state s @ x) = None" if "x \<noteq> []"
    using parse_serialize [OF assms, of x] that by (simp add: deserialize_state_def)
  show "deserialize_state (take n (serialize_state s)) = None" if "n < length (serialize_state s)"
  proof (rule ccontr)
    assume "\<not> ?thesis"
    then obtain s' where "parse_state (take n (serialize_state s)) = Some (s', [])"
      by (auto simp: deserialize_state_def split: option.splits if_splits)
    from extensibleD [OF extensible_parse_state this, of "drop n (serialize_state s)"]
    have "parse_state (serialize_state s) = Some (s', drop n (serialize_state s))" by simp
    with parse_serialize [OF assms, of "[]"] that show False by simp
  qed
qed (simp_all add: length_serialize_state deserialize_serialize assms)

theorem state_format_exact_witness:
  "length (serialize_state sample_initiator) = 275 \<and>
   deserialize_state (serialize_state sample_initiator) = Some (restored sample_initiator) \<and>
   deserialize_state (serialize_state sample_initiator @ [0]) = None \<and>
   deserialize_state (take 274 (serialize_state sample_initiator)) = None"
  using state_format_exact [OF sample_initiator_wf, of "[0]" 274] by (simp add: sample_initiator_fields)

lemma session_blob:
  assumes "stream_ok L" "mem_ok L" "vault_holds L e k" "wf_session s"
  obtains b e1 where "zia_session_serialize L True s e = (Ok b, e1)" "e_secret e1 = e_secret e"
    "length b = length (serialize_state s) + kMin" "stream_open L k b = Some (serialize_state s)"
proof -
  have k: "length k = 32" by (rule mkey.holds_len [OF assms(3)])
  let ?e = "e\<lparr>e_service := Suc (Suc (e_service e))\<rparr>"
  obtain header st cipher where s: "secretstream_init_push L (e_draw ?e) k = Some (header, st)"
    "secretstream_push L st (serialize_state s) TAG_FINAL = Some cipher" "length header = 24"
    "length cipher = length (serialize_state s) + 17"
    "stream_open L k (header @ cipher) = Some (serialize_state s)"
    by (rule stream_pieces [OF assms(1) k])
  have "zia_session_serialize L True s e =
      (Ok (header @ cipher), ?e\<lparr>e_draw := Suc (e_draw e), e_alloc := Suc (e_alloc e)\<rparr>)"
    using s ensure_holds [OF assms(3)] assms(2)
    by (simp add: zia_session_serialize_def draw_def malloc_mem_ok Let_def)
  then show thesis
    by (rule that) (use s in \<open>simp_all add: kMin_def HEADERBYTES_def ABYTES_def\<close>)
qed

lemma deserialize_blob:
  assumes "vault_holds L e k" "stream_open L k b = Some (serialize_state s)" "kMin \<le> length b" "wf_session s"
  shows "zia_session_deserialize L True b e = (Ok (restored s), e\<lparr>e_service := Suc (Suc (e_service e))\<rparr>)"
  using assms ensure_holds [OF assms(1)] deserialize_serialize [OF assms(4)]
  by (simp add: zia_session_deserialize_def)

text \<open>
  C8 (roundtrip).  Saving and restoring a session: on a device whose store holds a master key,
  \<open>zia_session_serialize\<close> succeeds and \<open>zia_session_deserialize\<close>, as long as the same key is held, gives
  back the session with its keys, counters and skipped keys.
\<close>

theorem session_store_roundtrip:
  assumes "stream_ok L" "mem_ok L" "vault_holds L e k" "wf_session s"
    and "zia_session_serialize L True s e = (r, e1)" "e_secret e2 = e_secret e1"
  shows "\<exists>b e3. r = Ok b \<and> zia_session_deserialize L True b e2 = (Ok (restored s), e3)"
proof -
  obtain b e1' where b: "zia_session_serialize L True s e = (Ok b, e1')" "e_secret e1' = e_secret e"
    "length b = length (serialize_state s) + kMin" "stream_open L k b = Some (serialize_state s)"
    by (rule session_blob [OF assms(1-4)])
  have "vault_holds L e2 k" using vault_holds_cong [OF assms(3)] b assms(5,6) by simp
  with b assms(5) show ?thesis using deserialize_blob [of L e2 k b s] assms(4) by auto
qed

definition sample_vault_env :: env where
  "sample_vault_env = env0\<lparr>e_secret := Some (sample_hex (replicate 32 7))\<rparr>"

lemma sample_vault_holds: "vault_holds sample_lib sample_vault_env (replicate 32 7)"
  by (simp add: vault_holds_def sample_vault_env_def sample_laws) (simp add: sample_lib_def)

theorem session_store_roundtrip_witness:
  "\<exists>b e3. fst (zia_session_serialize sample_lib True sample_receiver sample_vault_env) = Ok b \<and>
     zia_session_deserialize sample_lib True b sample_vault_env = (Ok (restored sample_receiver), e3)"
proof -
  obtain r e1 where s: "zia_session_serialize sample_lib True sample_receiver sample_vault_env = (r, e1)" by fastforce
  have "e_secret sample_vault_env = e_secret e1"
    using session_blob [OF sample_stream_ok sample_mem_ok sample_vault_holds sample_receiver_wf] s by force
  from session_store_roundtrip [OF sample_stream_ok sample_mem_ok sample_vault_holds sample_receiver_wf s this] s
  show ?thesis by simp
qed

text \<open>
  C35 (safety).  The zeros matter: a session opened by its initiator, saved and restored before the
  first reply, accepts a message that anybody can make.  The message key is the HMAC of 32 zero bytes;
  the header and the associated data are public.
\<close>

theorem restored_initiator_accepts_forgery:
  assumes "sizes_ok L" "mem_ok L" "length spk = 32" "length ad = 64" "length sk = 32"
    and "init_as_initiator L (new_ZiaSession\<lparr>s_ad := ad\<rparr>) sk spk e = (A, e1)"
    and "aead_encrypt L (crypto_auth_hmacsha256 L (replicate 32 0) [1]) zero_nonce forged
           (ad @ encode_header pn n spk) = Some ct"
    and "aead_decrypt L (crypto_auth_hmacsha256 L (replicate 32 0) [1]) zero_nonce ct
           (ad @ encode_header pn n spk) = Some forged"
    and "16 \<le> length ct"
  shows "deserialize_state (serialize_state A) = Some (restored A) \<and>
    fst (zia_session_decrypt L True (restored A) (encode_header pn n spk) ct e2) = Ok forged"
proof
  have wf: "wf_session A"
    using init_as_initiator_wf [OF assms(1,5,3), of "new_ZiaSession\<lparr>s_ad := ad\<rparr>" e] assms(4,6)
    by (simp add: new_ZiaSession_def)
  then show "deserialize_state (serialize_state A) = Some (restored A)" by (rule deserialize_serialize)
  have s: "s_has_dhr (restored A)" "s_dhr_public (restored A) = spk" "\<not> s_has_recv_chain (restored A)"
    "s_recv_chain_key (restored A) = replicate 32 0" "s_skipped (restored A) = []" "s_ad (restored A) = ad"
    using assms(6)
    by (auto simp: init_as_initiator_def new_ZiaSession_def x25519_keypair_def draw_def case_prod_beta Let_def
        restored_def)
  then have "take_skipped_key (restored A) spk n = None" by (simp add: take_skipped_key_None)
  with s decrypt_cases [OF length_encode_header [OF assms(3)] assms(9) decode_encode_header [OF assms(3)]]
    assms(1,2,8) kdf_ck_defined [OF assms(1), of "replicate 32 0"]
  show "fst (zia_session_decrypt L True (restored A) (encode_header pn n spk) ct e2) = Ok forged"
    by (simp add: follow_remote_key_def receive_on_chain_def skip_recv_chain_to_def open_with_def malloc_mem_ok)
qed

theorem restored_initiator_accepts_forgery_witness:
  "\<exists>ct. fst (zia_session_decrypt sample_lib True (restored sample_initiator)
      (encode_header 0 0 (replicate 32 9)) ct env0) = Ok [98, 97, 100]"
proof -
  let ?k = "crypto_auth_hmacsha256 sample_lib (replicate 32 0) [1]"
  let ?ad = "replicate 64 1 @ encode_header 0 0 (replicate 32 9) :: bytes"
  obtain ct where ct: "aead_encrypt sample_lib ?k zero_nonce [98, 97, 100] ?ad = Some ct" "length ct = 19"
    "aead_decrypt sample_lib ?k zero_nonce ct ?ad = Some [98, 97, 100]"
    using aead_roundtrip [OF sample_aead_ok, of zero_nonce ?k "[98, 97, 100]" ?ad]
    by (auto simp: zero_nonce_def aead_encrypt_def aead_decrypt_def sizes_lens sample_sizes_ok)
  obtain e1 where "init_as_initiator sample_lib (new_ZiaSession\<lparr>s_ad := replicate 64 1\<rparr>) (replicate 32 7)
      (replicate 32 9) env0 = (sample_initiator, e1)"
    unfolding sample_initiator_def by (metis prod.collapse)
  from restored_initiator_accepts_forgery [OF sample_sizes_ok sample_mem_ok _ _ _ this ct(1,3), of env0] ct(2)
  show ?thesis by auto
qed

section \<open>The life of a session\<close>

text \<open>
  Every state a session can be in: opened by either side, then encrypting, decrypting (successfully or
  not, whatever the network delivers) and being saved and restored, in any order.
\<close>

inductive session_reachable :: "lib \<Rightarrow> ZiaSession \<Rightarrow> bool" for L where
  initiator: "length ad = 64 \<Longrightarrow> length sk = 32 \<Longrightarrow> length spk = 32 \<Longrightarrow>
    session_reachable L (fst (init_as_initiator L (new_ZiaSession\<lparr>s_ad := ad\<rparr>) sk spk e))"
| responder: "length ad = 64 \<Longrightarrow> length sk = 32 \<Longrightarrow> length spk = 32 \<Longrightarrow> length priv = 32 \<Longrightarrow>
    session_reachable L (init_as_responder (new_ZiaSession\<lparr>s_ad := ad\<rparr>) sk spk priv)"
| encrypt: "session_reachable L s \<Longrightarrow> zia_session_encrypt L nn s pt e = (r, s', e') \<Longrightarrow> session_reachable L s'"
| decrypt: "session_reachable L s \<Longrightarrow> zia_session_decrypt L nn s h c e = (r', s', e') \<Longrightarrow> session_reachable L s'"
| restore: "session_reachable L s \<Longrightarrow> vault_holds L e k \<Longrightarrow> zia_session_serialize L nn s e = (Ok b, e1) \<Longrightarrow>
    e_secret e2 = e_secret e1 \<Longrightarrow> zia_session_deserialize L nn' b e2 = (Ok s', e3) \<Longrightarrow> session_reachable L s'"

lemma serialize_Ok:
  assumes "stream_ok L" "vault_holds L e k" "zia_session_serialize L nn s e = (Ok b, e1)"
  shows "stream_open L k b = Some (serialize_state s) \<and> e_secret e1 = e_secret e"
proof -
  have k: "length k = 32" by (rule mkey.holds_len [OF assms(2)])
  obtain header st cipher where s: "secretstream_init_push L (e_draw e) k = Some (header, st)"
    "secretstream_push L st (serialize_state s) TAG_FINAL = Some cipher"
    "stream_open L k (header @ cipher) = Some (serialize_state s)"
    by (rule stream_pieces [OF assms(1) k])
  with assms(3) ensure_holds [OF assms(2)] show ?thesis
    by (auto simp: zia_session_serialize_def draw_def malloc_def Let_def split: if_splits)
qed

lemma restore_gives:
  assumes "stream_ok L" "vault_holds L e k" "wf_session s" "zia_session_serialize L nn s e = (Ok b, e1)"
    and "e_secret e2 = e_secret e1" "zia_session_deserialize L nn' b e2 = (Ok s', e3)"
  shows "s' = restored s"
proof -
  note b = serialize_Ok [OF assms(1,2,4)]
  have "vault_holds L e2 k" using vault_holds_cong [OF assms(2)] b assms(5) by simp
  from ensure_holds [OF this] b deserialize_serialize [OF assms(3)] assms(6) show ?thesis
    by (auto simp: zia_session_deserialize_def split: if_splits)
qed

lemma session_reachable_wf:
  assumes "session_reachable L s" "sizes_ok L" "stream_ok L"
  shows "wf_session s"
  using assms(1)
proof induction
  case (initiator ad sk spk e)
  then show ?case
    by (intro init_as_initiator_wf) (simp_all add: assms(2) new_ZiaSession_def)
next
  case (responder ad sk spk priv)
  then show ?case by (intro init_as_responder_wf) (simp_all add: new_ZiaSession_def)
next
  case (encrypt s nn pt e r s' e')
  then show ?case using encrypt_wf [OF assms(2)] by blast
next
  case (decrypt s nn h c e r' s' e')
  then show ?case using decrypt_wf [OF assms(2)] by blast
next
  case (restore s e k nn b e1 e2 nn' s' e3)
  then show ?case using restore_gives [OF assms(3)] restored_wf by blast
qed

text \<open>
  C5 (invariant).  In every reachable state of a session all keys have their size, at most 1000 skipped
  keys are held, encryption never reads out of bounds, and decryption, on any header and ciphertext at
  all, can only do so in one situation: an initiator that has not received anything yet and a header
  that names the responder's signed prekey.
\<close>

theorem reachable_session_safe:
  assumes "session_reachable L s" "sizes_ok L" "stream_ok L"
  shows "wf_session s \<and> length (s_skipped s) \<le> 1000 \<and>
    fst (zia_session_encrypt L nn s (Buf pt) e) \<noteq> Crash \<and>
    (fst (zia_session_decrypt L nn' s h c e') = Crash \<longrightarrow>
       s_has_dhr s \<and> \<not> s_has_recv_chain s \<and> snd (snd (decode_header h)) = s_dhr_public s)"
proof -
  have wf: "wf_session s" by (rule session_reachable_wf [OF assms])
  moreover from wf have "length (s_skipped s) \<le> 1000" by (simp add: wf_session_def kMaxSkippedKeys_def)
  moreover have "fst (zia_session_encrypt L nn s (Buf pt) e) \<noteq> Crash"
    using encrypt_wf [OF assms(2) wf] by (metis buf_bad.simps(2) prod.collapse)
  moreover have "fst (zia_session_decrypt L nn' s h c e') = Crash \<longrightarrow>
      s_has_dhr s \<and> \<not> s_has_recv_chain s \<and> snd (snd (decode_header h)) = s_dhr_public s"
    using decrypt_wf [OF assms(2) wf] by (metis prod.collapse)
  ultimately show ?thesis by blast
qed

theorem reachable_session_safe_witness:
  "session_reachable sample_lib sample_initiator \<and> length (s_skipped sample_initiator) \<le> 1000 \<and>
   fst (zia_session_encrypt sample_lib True sample_initiator (Buf [1]) env0) \<noteq> Crash"
proof -
  have r: "session_reachable sample_lib sample_initiator"
    unfolding sample_initiator_def by (rule session_reachable.initiator) simp_all
  from reachable_session_safe [OF r sample_sizes_ok sample_stream_ok] r show ?thesis by blast
qed

end
