(* ===== verification/Network.thy ===== *)
theory Network
  imports Session_Store "HOL-Library.Multiset"
begin

text \<open>
  Two parties on an unreliable network.  Both may send at any time; a message sent waits in the inbox of
  the other party until it is delivered, in any order and possibly never; between two operations a party
  may save its session and come back from the saved bytes.  The state is the record \<open>network\<close> and the
  moves are the step relation \<open>net_step\<close>, over the operations of \<open>ratchet.cpp\<close> and \<open>session.cpp\<close>.

  The invariant names the keys with which a receiver can still open messages as lists of entries of
  its cache: the keys it has set aside, the rest of the chain it is receiving on (together its
  \<open>backlog\<close>), and, for the party behind, the chain it will derive from the key it has not seen yet
  (\<open>chain_ahead\<close>).  Messages that wait are in one-to-one correspondence with these entries (\<open>carries\<close>).
\<close>

section \<open>The network and its steps\<close>

text \<open>
  The two parties are \<open>True\<close> (who opened the session) and \<open>False\<close>.  A message in an inbox carries its
  plaintext beside header and ciphertext, as a ghost.  Each device has its own key store; the counters
  of the environment are shared, so that no two draws coincide.
\<close>

record network =
  n_party :: "bool \<Rightarrow> ZiaSession"
  n_store :: "bool \<Rightarrow> bytes option"
  n_inbox :: "bool \<Rightarrow> (bytes \<times> bytes \<times> bytes) multiset"
  n_sent :: nat
  n_env :: env

definition party_env :: "network \<Rightarrow> bool \<Rightarrow> env" where
  "party_env net p = (n_env net)\<lparr>e_secret := n_store net p\<rparr>"

definition put_party :: "bool \<Rightarrow> ZiaSession \<Rightarrow> env \<Rightarrow> network \<Rightarrow> network" where
  "put_party p s e net = net\<lparr>n_party := (n_party net)(p := s), n_store := (n_store net)(p := e_secret e), n_env := e\<rparr>"

inductive net_step :: "lib \<Rightarrow> network \<Rightarrow> network \<Rightarrow> bool" for L where
  send: "size (n_inbox net (\<not> p)) < kMaxSkippedKeys \<Longrightarrow>
    zia_session_encrypt L True (n_party net p) (Buf pt) (party_env net p) = (Ok (h, c), s, e) \<Longrightarrow>
    net_step L net ((put_party p s e net)
      \<lparr>n_inbox := (n_inbox net)(\<not> p := add_mset (h, c, pt) (n_inbox net (\<not> p))), n_sent := Suc (n_sent net)\<rparr>)"
| refused: "zia_session_encrypt L True (n_party net p) (Buf pt) (party_env net p) = (Err st, s, e) \<Longrightarrow>
    net_step L net (put_party p s e net)"
| deliver: "n_inbox net p = add_mset (h, c, pt) rest \<Longrightarrow>
    zia_session_decrypt L True (n_party net p) h c (party_env net p) = (r, s, e) \<Longrightarrow>
    net_step L net ((put_party p s e net)\<lparr>n_inbox := (n_inbox net)(p := rest)\<rparr>)"
| restart: "zia_session_serialize L True (n_party net p) (party_env net p) = (Ok b, e1) \<Longrightarrow>
    zia_session_deserialize L True b e1 = (Ok s, e2) \<Longrightarrow>
    net_step L net (put_party p s e2 net)"
| elsewhere: "e_draw (n_env net) \<le> e_draw e \<Longrightarrow> net_step L net (net\<lparr>n_env := e\<rparr>)"

definition opened :: "ZiaSession \<Rightarrow> ZiaSession \<Rightarrow> (bool \<Rightarrow> bytes option) \<Rightarrow> env \<Rightarrow> network" where
  "opened A B store e =
     \<lparr>n_party = (\<lambda>p. if p then A else B), n_store = store, n_inbox = (\<lambda>_. {#}), n_sent = 0, n_env = e\<rparr>"

text \<open>
  The states the network can reach, while at most \<open>N\<close> values have been drawn and the 32-bit counters
  suffice.
\<close>

inductive net_reachable :: "lib \<Rightarrow> nat \<Rightarrow> network \<Rightarrow> network \<Rightarrow> bool" for L N net0 where
  start: "net_reachable L N net0 net0"
| step: "net_reachable L N net0 net \<Longrightarrow> net_step L net net' \<Longrightarrow> e_draw (n_env net') \<le> N \<Longrightarrow> n_sent net' < 2 ^ 32 \<Longrightarrow>
    net_reachable L N net0 net'"

text \<open>Every message that waits is decrypted to its plaintext, should it be delivered now.\<close>

definition inbox_opens :: "lib \<Rightarrow> network \<Rightarrow> bool" where
  "inbox_opens L net \<longleftrightarrow> (\<forall>p h c pt. (h, c, pt) \<in># n_inbox net p \<longrightarrow>
     fst (zia_session_decrypt L True (n_party net p) h c (party_env net p)) = Ok pt)"

section \<open>The keys a receiver can still use\<close>

definition backlog :: "lib \<Rightarrow> ZiaSession \<Rightarrow> u32 \<Rightarrow> ZiaSkippedKey list" where
  "backlog L R t = s_skipped R @
     (if s_has_recv_chain R
      then skip_entries L (s_dhr_public R) (s_nr R) (unat (t - s_nr R)) (s_recv_chain_key R) else [])"

definition new_chain :: "lib \<Rightarrow> ZiaSession \<Rightarrow> ZiaSession \<Rightarrow> bytes \<times> bytes" where
  "new_chain L A B = kdf_rk L (s_root_key B) (scalarmult_unchecked L (s_dhs_private B) (s_dhs_public A))"

definition chain_ahead :: "lib \<Rightarrow> ZiaSession \<Rightarrow> ZiaSession \<Rightarrow> ZiaSkippedKey list" where
  "chain_ahead L A B = skip_entries L (s_dhs_public A) 0 (unat (s_ns A)) (snd (new_chain L A B))"

text \<open>\<open>A\<close> holds a key pair that \<open>B\<close> has not seen; \<open>A\<close> may already have sent under it.\<close>

definition ahead_of :: "lib \<Rightarrow> env \<Rightarrow> ZiaSession \<Rightarrow> ZiaSession \<Rightarrow> bool" where
  "ahead_of L e A B \<longleftrightarrow>
     wf_session A \<and> wf_session B \<and> s_ad B = s_ad A \<and> own_key L e A \<and> own_key L e B \<and>
     s_has_dhr A \<and> s_dhr_public A = s_dhs_public B \<and> (s_has_dhr B \<longrightarrow> s_dhr_public B \<noteq> s_dhs_public A) \<and>
     s_has_send_chain A \<and> fst (new_chain L A B) = s_root_key A \<and>
     s_send_chain_key A = (chain_next (kdf_ck L) ^^ unat (s_ns A)) (snd (new_chain L A B)) \<and>
     (s_has_recv_chain A \<longleftrightarrow> s_has_send_chain B) \<and>
     (s_has_send_chain B \<longrightarrow> s_nr A \<le> s_ns B \<and>
        s_send_chain_key B = (chain_next (kdf_ck L) ^^ unat (s_ns B - s_nr A)) (s_recv_chain_key A)) \<and>
     (s_has_recv_chain B \<longrightarrow> s_nr B \<le> s_pn A)"

text \<open>A message of the sender \<open>S\<close> that the entry opens.\<close>

definition fits :: "lib \<Rightarrow> ZiaSession \<Rightarrow> bytes \<times> bytes \<times> bytes \<Rightarrow> ZiaSkippedKey \<Rightarrow> bool" where
  "fits L S m x \<longleftrightarrow> (case m of (h, c, pt) \<Rightarrow>
     \<exists>pn. h = encode_header pn (sk_n x) (sk_dh_public x) \<and> (sk_dh_public x = s_dhs_public S \<longrightarrow> pn = s_pn S) \<and>
       16 \<le> length c \<and> aead_decrypt L (sk_key x) zero_nonce c (s_ad S @ h) = Some pt)"

definition carries ::
  "lib \<Rightarrow> env \<Rightarrow> ZiaSession \<Rightarrow> (bytes \<times> bytes \<times> bytes) multiset \<Rightarrow> ZiaSkippedKey list \<Rightarrow> bool" where
  "carries L e S inbox es \<longleftrightarrow>
     rel_mset (fits L S) inbox (mset es) \<and> distinct (map skipped_id es) \<and> size inbox \<le> kMaxSkippedKeys \<and>
     (\<forall>x \<in> set es. drawn L e (sk_dh_public x) \<and> (sk_dh_public x = s_dhs_public S \<longrightarrow> sk_n x < s_ns S))"

definition in_step ::
  "lib \<Rightarrow> env \<Rightarrow> ZiaSession \<Rightarrow> ZiaSession \<Rightarrow> (bytes \<times> bytes \<times> bytes) multiset \<Rightarrow>
     (bytes \<times> bytes \<times> bytes) multiset \<Rightarrow> bool" where
  "in_step L e A B to_A to_B \<longleftrightarrow>
     ahead_of L e A B \<and> carries L e B to_A (backlog L A (s_ns B)) \<and>
     carries L e A to_B (backlog L B (s_pn A) @ chain_ahead L A B)"

section \<open>Entries of a chain\<close>

lemma unat_u32_less: "unat t < 2 ^ 32" for t :: u32
  using unsigned_less [where 'a = nat, of t] by simp

lemma skip_entries_add:
  "skip_entries L dh i (j + k) ck =
     skip_entries L dh i j ck @ skip_entries L dh (i + of_nat j) k ((chain_next (kdf_ck L) ^^ j) ck)"
  by (induction j arbitrary: i ck) (simp_all add: funpow_swap1 add.assoc)

definition chain_entry :: "lib \<Rightarrow> bytes \<Rightarrow> u32 \<Rightarrow> bytes \<Rightarrow> nat \<Rightarrow> ZiaSkippedKey" where
  "chain_entry L dh i ck j =
     \<lparr>sk_dh_public = dh, sk_n = i + of_nat j, sk_key = chain_key (kdf_ck L) ((chain_next (kdf_ck L) ^^ j) ck)\<rparr>"

lemma chain_entry_fields [simp]:
  "sk_dh_public (chain_entry L dh i ck j) = dh" "sk_n (chain_entry L dh i ck j) = i + of_nat j"
  "sk_key (chain_entry L dh i ck j) = chain_key (kdf_ck L) ((chain_next (kdf_ck L) ^^ j) ck)"
  by (simp_all add: chain_entry_def)

lemma skip_entries_snoc: "skip_entries L dh i (Suc k) ck = skip_entries L dh i k ck @ [chain_entry L dh i ck k]"
  using skip_entries_add [of L dh i k 1 ck] by (simp add: chain_entry_def)

lemma skip_entries_at:
  assumes "j < k"
  shows "skip_entries L dh i k ck = skip_entries L dh i j ck @ chain_entry L dh i ck j #
    skip_entries L dh (i + of_nat (Suc j)) (k - Suc j) ((chain_next (kdf_ck L) ^^ Suc j) ck)"
  using skip_entries_add [of L dh i "Suc j" "k - Suc j" ck] assms by (simp only: skip_entries_snoc) simp

lemma in_skip_entries: "x \<in> set (skip_entries L dh i k ck) \<longleftrightarrow> (\<exists>j < k. x = chain_entry L dh i ck j)"
  by (auto simp: in_set_conv_nth nth_skip_entries chain_entry_def)

section \<open>The correspondence between inbox and entries\<close>

lemma carries_add:
  assumes "carries L e S inbox es" "size inbox < kMaxSkippedKeys" "fits L S m x" "drawn L e (s_dhs_public S)"
    and "sk_dh_public x = s_dhs_public S" "sk_n x = s_ns S" "s_ns S < s_ns S + 1"
  shows "carries L e (S\<lparr>s_send_chain_key := ck, s_ns := s_ns S + 1\<rparr>) (add_mset m inbox) (es @ [x])"
proof -
  let ?S = "S\<lparr>s_send_chain_key := ck, s_ns := s_ns S + 1\<rparr>"
  have fit: "fits L ?S = fits L S" by (simp add: fits_def fun_eq_iff)
  have "skipped_id x \<notin> skipped_id ` set es"
    using assms(1,5,6) by (force simp: carries_def skipped_id_def)
  moreover have "rel_mset (fits L ?S) (add_mset m inbox) (mset (es @ [x]))"
    using assms(1,3) unfolding fit by (simp add: carries_def rel_mset_Plus)
  ultimately show ?thesis
    using assms by (auto simp: carries_def dest: order.strict_trans)
qed

lemma carries_take:
  assumes "carries L e S (add_mset m rest) es"
  obtains x where "x \<in> set es" "fits L S m x"
    "\<And>es'. mset es = add_mset x (mset es') \<Longrightarrow> carries L e S rest es'"
proof -
  from assms obtain x N where x: "mset es = add_mset x N" "fits L S m x" "rel_mset (fits L S) rest N"
    unfolding carries_def using msed_rel_invL by metis
  have "x \<in># mset es" using x(1) by simp
  moreover have "carries L e S rest es'" if "mset es = add_mset x (mset es')" for es'
  proof -
    have "mset es' = N" using that x(1) by simp
    moreover have perm: "mset es = mset (x # es')" using that by simp
    then have "mset (map skipped_id es) = mset (map skipped_id (x # es'))" by (simp only: mset_map)
    then have "distinct (map skipped_id (x # es'))"
      using assms mset_eq_imp_distinct_iff unfolding carries_def by blast
    moreover have "set es = set (x # es')" using perm by (rule mset_eq_setD)
    ultimately show ?thesis using assms x(3) by (simp add: carries_def)
  qed
  ultimately show thesis using that x(2) by simp
qed

lemma carries_size: "carries L e S inbox es \<Longrightarrow> length es \<le> kMaxSkippedKeys"
  unfolding carries_def by (metis rel_mset_size size_mset)

lemma carries_env: "carries L e S inbox es \<Longrightarrow> e_draw e \<le> e_draw e' \<Longrightarrow> carries L e' S inbox es"
  by (auto simp: carries_def intro: drawn_mono)

lemma ahead_of_env: "ahead_of L e A B \<Longrightarrow> e_draw e \<le> e_draw e' \<Longrightarrow> ahead_of L e' A B"
  by (auto simp: ahead_of_def intro: own_key_mono)

lemma in_step_env: "in_step L e A B a b \<Longrightarrow> e_draw e \<le> e_draw e' \<Longrightarrow> in_step L e' A B a b"
  by (auto simp: in_step_def intro: ahead_of_env carries_env)

section \<open>Sending\<close>

lemma sending_wf:
  assumes "sizes_ok L" "wf_session S" "s_has_send_chain S"
  shows "wf_session (S\<lparr>s_send_chain_key := chain_next (kdf_ck L) (s_send_chain_key S), s_ns := n\<rparr>)"
  using assms rchain.next_ok [OF send_chain_live [OF assms]] by (simp add: wf_session_def chain_live_def)

lemma sending_keeps [simp]:
  "backlog L (S\<lparr>s_send_chain_key := ck, s_ns := n\<rparr>) t = backlog L S t"
  "new_chain L (S\<lparr>s_send_chain_key := ck, s_ns := n\<rparr>) B = new_chain L S B"
  "new_chain L A (S\<lparr>s_send_chain_key := ck, s_ns := n\<rparr>) = new_chain L A S"
  "chain_ahead L A (S\<lparr>s_send_chain_key := ck, s_ns := n\<rparr>) = chain_ahead L A S"
  "own_key L e (S\<lparr>s_send_chain_key := ck, s_ns := n\<rparr>) = own_key L e S"
  by (simp_all add: backlog_def new_chain_def chain_ahead_def own_key_def)

text \<open>The message a party sends is opened by the key of its position.\<close>

lemma sent_message_fits:
  assumes "sizes_ok L" "aead_ok L" "wf_session S" "s_has_send_chain S"
    and "chain_message L S 0 pt = (h, c)"
    and "sk_dh_public x = s_dhs_public S" "sk_n x = s_ns S" "sk_key x = chain_key (kdf_ck L) (s_send_chain_key S)"
  shows "fits L S (h, c, pt) x"
  using chain_message_opens [OF assms(1-5)] assms(6-8)
  by (simp add: fits_def position_header_def position_key_def)

lemma ahead_sends:
  assumes "sizes_ok L" "aead_ok L" and I: "in_step L e A B to_A to_B"
    and "size to_B < kMaxSkippedKeys" "s_ns A < s_ns A + 1" "chain_message L A 0 pt = (h, c)"
  shows "in_step L e (A\<lparr>s_send_chain_key := chain_next (kdf_ck L) (s_send_chain_key A), s_ns := s_ns A + 1\<rparr>) B
    to_A (add_mset (h, c, pt) to_B)"
proof -
  let ?A = "A\<lparr>s_send_chain_key := chain_next (kdf_ck L) (s_send_chain_key A), s_ns := s_ns A + 1\<rparr>"
  let ?x = "chain_entry L (s_dhs_public A) 0 (snd (new_chain L A B)) (unat (s_ns A))"
  have A: "wf_session A" "s_has_send_chain A" "own_key L e A"
    and key: "s_send_chain_key A = (chain_next (kdf_ck L) ^^ unat (s_ns A)) (snd (new_chain L A B))"
    using I by (simp_all add: in_step_def ahead_of_def)
  have ns: "unat (s_ns A + 1) = Suc (unat (s_ns A))" using assms(5) by (rule word_less_Suc_unat)
  have "fits L A (h, c, pt) ?x"
    by (rule sent_message_fits [OF assms(1,2) A(1,2) assms(6)]) (simp_all add: key)
  then have "carries L e ?A (add_mset (h, c, pt) to_B) ((backlog L B (s_pn A) @ chain_ahead L A B) @ [?x])"
    using I assms(4,5) own_key_drawn [OF A(3)] by (intro carries_add) (simp_all add: in_step_def)
  moreover have "chain_ahead L ?A B = chain_ahead L A B @ [?x]"
    by (simp add: chain_ahead_def ns skip_entries_snoc del: skip_entries.simps)
  moreover have "carries L e B to_A (backlog L ?A (s_ns B))"
    using I by (simp add: in_step_def)
  moreover have "ahead_of L e ?A B"
    using I key ns sending_wf [OF assms(1) A(1,2)] by (simp add: in_step_def ahead_of_def)
  ultimately show ?thesis by (simp add: in_step_def)
qed

lemma behind_sends:
  assumes "sizes_ok L" "aead_ok L" and I: "in_step L e A B to_A to_B" and snd: "s_has_send_chain B"
    and "size to_A < kMaxSkippedKeys" "s_ns B < s_ns B + 1" "chain_message L B 0 pt = (h, c)"
  shows "in_step L e A (B\<lparr>s_send_chain_key := chain_next (kdf_ck L) (s_send_chain_key B), s_ns := s_ns B + 1\<rparr>)
    (add_mset (h, c, pt) to_A) to_B"
proof -
  let ?B = "B\<lparr>s_send_chain_key := chain_next (kdf_ck L) (s_send_chain_key B), s_ns := s_ns B + 1\<rparr>"
  let ?k = "unat (s_ns B - s_nr A)"
  let ?x = "chain_entry L (s_dhr_public A) (s_nr A) (s_recv_chain_key A) ?k"
  have B: "wf_session B" "own_key L e B" and le: "s_nr A \<le> s_ns B" and A: "s_has_recv_chain A" "s_dhr_public A = s_dhs_public B"
    and key: "s_send_chain_key B = (chain_next (kdf_ck L) ^^ ?k) (s_recv_chain_key A)"
    using I snd by (simp_all add: in_step_def ahead_of_def)
  have k: "unat (s_ns B + 1 - s_nr A) = Suc ?k"
    using unat_diff_Suc [of "s_nr A" "s_ns B + 1"] le assms(6) by (simp add: order.strict_trans1)
  have "fits L B (h, c, pt) ?x"
    by (rule sent_message_fits [OF assms(1,2) B(1) snd assms(7)]) (simp_all add: A key)
  then have "carries L e ?B (add_mset (h, c, pt) to_A) (backlog L A (s_ns B) @ [?x])"
    using I assms(5,6) own_key_drawn [OF B(2)] A by (intro carries_add) (simp_all add: in_step_def)
  moreover have "backlog L A (s_ns ?B) = backlog L A (s_ns B) @ [?x]"
    using A(1) k by (simp add: backlog_def skip_entries_snoc del: skip_entries.simps)
  moreover have "carries L e A to_B (backlog L ?B (s_pn A) @ chain_ahead L A ?B)"
    using I by (simp add: in_step_def)
  moreover have "s_nr A \<le> s_ns B + 1" using le assms(6) by simp
  ultimately show ?thesis
    using I key k snd sending_wf [OF assms(1) B(1) snd] by (simp add: in_step_def ahead_of_def)
qed

section \<open>Receiving\<close>

lemma fits_header:
  assumes "sizes_ok L" "drawn L e (sk_dh_public x)" "fits L S (h, c, pt) x"
  obtains pn where "length h = kHeaderLen" "16 \<le> length c" "decode_header h = (pn, sk_n x, sk_dh_public x)"
    "sk_dh_public x = s_dhs_public S \<Longrightarrow> pn = s_pn S"
    "aead_decrypt L (sk_key x) zero_nonce c (s_ad S @ h) = Some pt"
proof -
  have "length (sk_dh_public x) = 32" by (rule drawn_length [OF assms(1,2)])
  with that assms(3) show thesis by (auto simp: fits_def decode_encode_header)
qed

lemma erase_at_mset: "i < length c \<Longrightarrow> mset c = add_mset (c ! i) (mset (erase_at i c))"
  by (subst id_take_nth_drop) (simp_all add: erase_at_def)

text \<open>The key is in the cache.\<close>

lemma receive_cached:
  assumes "sizes_ok L" "mem_ok L" "drawn L e0 (sk_dh_public x)" "fits L S (h, c, pt) x" "s_ad S = s_ad R"
    and "x \<in> set (s_skipped R)" "distinct (map skipped_id (s_skipped R))"
  obtains ks where "mset (s_skipped R) = add_mset x (mset ks)"
    "zia_session_decrypt L True R h c e = (Ok pt, R\<lparr>s_skipped := ks\<rparr>, e\<lparr>e_alloc := Suc (e_alloc e)\<rparr>)"
proof -
  obtain pn where h: "length h = kHeaderLen" "16 \<le> length c" "decode_header h = (pn, sk_n x, sk_dh_public x)"
    "aead_decrypt L (sk_key x) zero_nonce c (s_ad R @ h) = Some pt"
    using fits_header [OF assms(1,3,4)] assms(5) by metis
  obtain ks where tk: "cache_take (\<lambda>sk. sk_n sk = sk_n x \<and> sk_dh_public sk = sk_dh_public x) (s_skipped R) = Some (x, ks)"
    using rcache.take_present [OF assms(6,7)] by (auto simp: skipped_id_def)
  then obtain i where i: "i < length (s_skipped R)" "s_skipped R ! i = x" "ks = erase_at i (s_skipped R)"
    by (auto dest!: cache_take_Some)
  show thesis
  proof (rule that)
    show "mset (s_skipped R) = add_mset x (mset ks)" using erase_at_mset [OF i(1)] i(2,3) by simp
    show "zia_session_decrypt L True R h c e = (Ok pt, R\<lparr>s_skipped := ks\<rparr>, e\<lparr>e_alloc := Suc (e_alloc e)\<rparr>)"
      using decrypt_cases [OF h(1-3), of L R e] tk h(4) assms(2)
      by (simp add: take_skipped_key_def open_with_def malloc_mem_ok)
  qed
qed

text \<open>The key is at position \<open>j\<close> of the chain being received on: what lies before goes to the cache.\<close>

definition received :: "lib \<Rightarrow> ZiaSession \<Rightarrow> nat \<Rightarrow> ZiaSession" where
  "received L R j = R
     \<lparr>s_recv_chain_key := (chain_next (kdf_ck L) ^^ Suc j) (s_recv_chain_key R),
      s_nr := s_nr R + of_nat (Suc j),
      s_skipped := s_skipped R @ skip_entries L (s_dhr_public R) (s_nr R) j (s_recv_chain_key R)\<rparr>"

lemma receive_position:
  assumes "chain_live L (s_recv_chain_key R)" "mem_ok L" "s_has_recv_chain R"
    and "unat (s_nr R) + j < 2 ^ 32" "length (s_skipped R) + j \<le> kMaxSkippedKeys"
    and "aead_decrypt L (chain_key (kdf_ck L) ((chain_next (kdf_ck L) ^^ j) (s_recv_chain_key R))) zero_nonce c ad = Some pt"
  shows "receive_on_chain L R (s_nr R + of_nat j) c ad e = (Ok pt, received L R j, e\<lparr>e_alloc := Suc (e_alloc e)\<rparr>)"
proof -
  let ?n = "s_nr R + of_nat j"
  have u: "unat ?n = unat (s_nr R) + j" by (rule u32_index [OF assms(4)])
  then have le: "s_nr R \<le> ?n" by (simp add: word_le_nat_alt)
  have d: "unat (?n - s_nr R) = j" using unat_sub [OF le] u by simp
  have "kdf_ck L ((chain_next (kdf_ck L) ^^ j) (s_recv_chain_key R)) =
      Some (chain_next (kdf_ck L) ((chain_next (kdf_ck L) ^^ j) (s_recv_chain_key R)),
        chain_key (kdf_ck L) ((chain_next (kdf_ck L) ^^ j) (s_recv_chain_key R)))"
    by (rule rchain.step_eq [OF rchain.funpow_ok [OF assms(1)]])
  then show ?thesis
    using skip_with_room [OF assms(1,3) le] d assms(2,5,6)
    by (simp add: receive_on_chain_def open_with_def malloc_mem_ok received_def add.assoc add.commute)
qed

lemma receive_current:
  assumes "sizes_ok L" "mem_ok L" "wf_session R" "s_has_recv_chain R" "drawn L e0 (s_dhr_public R)" "s_ad S = s_ad R"
    and "fits L S (h, c, pt) (chain_entry L (s_dhr_public R) (s_nr R) (s_recv_chain_key R) j)"
    and "unat (s_nr R) + j < 2 ^ 32" "length (s_skipped R) + j \<le> kMaxSkippedKeys"
    and "(s_dhr_public R, s_nr R + of_nat j) \<notin> skipped_id ` set (s_skipped R)"
  shows "zia_session_decrypt L True R h c e = (Ok pt, received L R j, e\<lparr>e_alloc := Suc (e_alloc e)\<rparr>)"
proof -
  let ?x = "chain_entry L (s_dhr_public R) (s_nr R) (s_recv_chain_key R) j"
  obtain pn where h: "length h = kHeaderLen" "16 \<le> length c" "decode_header h = (pn, sk_n ?x, sk_dh_public ?x)"
    "aead_decrypt L (sk_key ?x) zero_nonce c (s_ad R @ h) = Some pt"
    using fits_header [OF assms(1) _ assms(7)] assms(5,6) by (metis chain_entry_fields(1))
  have "take_skipped_key R (s_dhr_public R) (s_nr R + of_nat j) = None"
    using assms(10) by (simp add: take_skipped_key_None)
  moreover have "\<not> s_nr R + of_nat j < s_nr R" using u32_index [OF assms(8)] by (simp add: word_less_nat_alt)
  moreover have "chain_live L (s_recv_chain_key R)" "s_has_dhr R"
    using assms(1,3,4) by (simp_all add: chain_live_def wf_session_def)
  ultimately show ?thesis
    using decrypt_cases [OF h(1-3), of L R e] receive_position [of L R j c "s_ad R @ h" pt e] assms(2,4,8,9) h(4)
    by (simp add: follow_remote_key_def)
qed

text \<open>Receiving on the current chain changes its key, its counter and the cache only.\<close>

abbreviation with_chain :: "ZiaSession \<Rightarrow> bytes \<Rightarrow> u32 \<Rightarrow> ZiaSkippedKey list \<Rightarrow> ZiaSession" where
  "with_chain R ck n ks \<equiv> R\<lparr>s_recv_chain_key := ck, s_nr := n, s_skipped := ks\<rparr>"

lemma fits_with_chain: "fits L (with_chain R ck n ks) = fits L R"
  by (simp add: fits_def fun_eq_iff)

lemma receiving_keeps [simp]:
  "new_chain L (with_chain R ck n ks) B = new_chain L R B"
  "new_chain L A (with_chain R ck n ks) = new_chain L A R"
  "chain_ahead L (with_chain R ck n ks) B = chain_ahead L R B"
  "chain_ahead L A (with_chain R ck n ks) = chain_ahead L A R"
  "own_key L e (with_chain R ck n ks) = own_key L e R"
  "carries L e (with_chain R ck n ks) inbox es = carries L e R inbox es"
  by (simp_all add: new_chain_def chain_ahead_def own_key_def carries_def fits_with_chain)

lemma received_backlog:
  assumes "s_has_recv_chain R" "s_nr R \<le> t" "j < unat (t - s_nr R)"
  shows "mset (backlog L R t) =
      add_mset (chain_entry L (s_dhr_public R) (s_nr R) (s_recv_chain_key R) j) (mset (backlog L (received L R j) t))"
    and "s_nr (received L R j) \<le> t"
    and "(chain_next (kdf_ck L) ^^ unat (t - s_nr (received L R j))) (s_recv_chain_key (received L R j)) =
      (chain_next (kdf_ck L) ^^ unat (t - s_nr R)) (s_recv_chain_key R)"
proof -
  have t: "unat (t - s_nr R) = unat t - unat (s_nr R)" by (rule unat_sub [OF assms(2)])
  have u: "unat (s_nr R + of_nat (Suc j)) = unat (s_nr R) + Suc j"
    by (rule u32_index) (use assms(3) t unat_u32_less [of t] in simp)
  then show le: "s_nr (received L R j) \<le> t"
    using assms(3) t by (simp add: received_def word_le_nat_alt)
  have d: "unat (t - s_nr (received L R j)) = unat (t - s_nr R) - Suc j"
    using unat_sub [OF le] u t by (simp add: received_def)
  have "(chain_next (kdf_ck L) ^^ (unat (t - s_nr R) - Suc j)) ((chain_next (kdf_ck L) ^^ Suc j) (s_recv_chain_key R)) =
      (chain_next (kdf_ck L) ^^ unat (t - s_nr R)) (s_recv_chain_key R)"
    using funpow_add [of "unat (t - s_nr R) - Suc j" "Suc j" "chain_next (kdf_ck L)"] assms(3) by (simp del: funpow.simps)
  then show "(chain_next (kdf_ck L) ^^ unat (t - s_nr (received L R j))) (s_recv_chain_key (received L R j)) =
      (chain_next (kdf_ck L) ^^ unat (t - s_nr R)) (s_recv_chain_key R)"
    unfolding d by (simp add: received_def)
  have "backlog L (received L R j) t = s_skipped R @ skip_entries L (s_dhr_public R) (s_nr R) j (s_recv_chain_key R) @
      skip_entries L (s_dhr_public R) (s_nr R + of_nat (Suc j)) (unat (t - s_nr R) - Suc j)
        ((chain_next (kdf_ck L) ^^ Suc j) (s_recv_chain_key R))"
    using d assms(1) by (simp add: backlog_def received_def del: of_nat_Suc)
  then show "mset (backlog L R t) =
      add_mset (chain_entry L (s_dhr_public R) (s_nr R) (s_recv_chain_key R) j) (mset (backlog L (received L R j) t))"
    using skip_entries_at [OF assms(3), of L "s_dhr_public R" "s_nr R" "s_recv_chain_key R"] assms(1)
    by (simp add: backlog_def del: of_nat_Suc funpow.simps)
qed

lemma receive_backlog:
  assumes L: "sizes_ok L" "mem_ok L" and R: "wf_session R" "s_has_recv_chain R \<Longrightarrow> s_nr R \<le> t"
    and es: "distinct (map skipped_id (backlog L R t @ rest))" "length (backlog L R t @ rest) \<le> kMaxSkippedKeys"
    and x: "x \<in> set (backlog L R t)" "drawn L e0 (sk_dh_public x)" "fits L S (h, c, pt) x" "s_ad S = s_ad R"
  obtains ck n ks where
    "zia_session_decrypt L True R h c e = (Ok pt, with_chain R ck n ks, e\<lparr>e_alloc := Suc (e_alloc e)\<rparr>)"
    "mset (backlog L R t) = add_mset x (mset (backlog L (with_chain R ck n ks) t))"
    "s_has_recv_chain R \<Longrightarrow> n \<le> t \<and>
      (chain_next (kdf_ck L) ^^ unat (t - n)) ck = (chain_next (kdf_ck L) ^^ unat (t - s_nr R)) (s_recv_chain_key R)"
proof (cases "x \<in> set (s_skipped R)")
  case True
  have "distinct (map skipped_id (s_skipped R))" using es(1) by (simp add: backlog_def)
  from receive_cached [OF L x(2-4) True this, of e] obtain ks where
    ks: "mset (s_skipped R) = add_mset x (mset ks)"
      "zia_session_decrypt L True R h c e = (Ok pt, R\<lparr>s_skipped := ks\<rparr>, e\<lparr>e_alloc := Suc (e_alloc e)\<rparr>)" by blast
  then show thesis
    using that [where ck = "s_recv_chain_key R" and n = "s_nr R" and ks = ks] R(2) by (simp add: backlog_def)
next
  case False
  then obtain j where rc: "s_has_recv_chain R" and j: "j < unat (t - s_nr R)"
    and xe: "x = chain_entry L (s_dhr_public R) (s_nr R) (s_recv_chain_key R) j"
    using x(1) by (auto simp: backlog_def in_skip_entries split: if_splits)
  note rb = received_backlog [OF rc R(2) [OF rc] j, of L]
  have "unat (s_nr R) + j < unat t" using j unat_sub [OF R(2) [OF rc]] by simp
  then have lt: "unat (s_nr R) + j < 2 ^ 32" using unat_u32_less [of t] by simp
  have room: "length (s_skipped R) + j \<le> kMaxSkippedKeys" using es(2) j rc by (simp add: backlog_def)
  have "skipped_id x \<notin> skipped_id ` set (s_skipped R)"
    using es(1) x(1) False by (auto simp: backlog_def split: if_splits)
  then have "zia_session_decrypt L True R h c e = (Ok pt, received L R j, e\<lparr>e_alloc := Suc (e_alloc e)\<rparr>)"
    using x(2,3) unfolding xe
    by (intro receive_current [OF L R(1) rc _ x(4) _ lt room]) (simp_all add: skipped_id_def)
  with rb show thesis
    using that [where ck = "s_recv_chain_key (received L R j)" and n = "s_nr (received L R j)"
        and ks = "s_skipped (received L R j)"] xe
    by (simp add: received_def)
qed

text \<open>
  A message under the unseen key: the rest of the old chain goes to the cache, the ratchet takes its
  step, and the message is received on the new chain.
\<close>

definition stepped :: "lib \<Rightarrow> ZiaSession \<Rightarrow> ZiaSession \<Rightarrow> env \<Rightarrow> ZiaSession" where
  "stepped L A B e = (after_step L A B e)\<lparr>s_skipped := backlog L B (s_pn A)\<rparr>"

lemma stepped_fields:
  assumes "fst (new_chain L A B) = s_root_key A"
  shows "s_recv_chain_key (stepped L A B e) = snd (new_chain L A B)" "s_nr (stepped L A B e) = 0"
    "s_has_recv_chain (stepped L A B e)" "s_has_dhr (stepped L A B e)" "s_dhr_public (stepped L A B e) = s_dhs_public A"
    "s_ad (stepped L A B e) = s_ad B" "s_skipped (stepped L A B e) = backlog L B (s_pn A)"
    "s_pn (stepped L A B e) = s_ns B" "s_ns (stepped L A B e) = 0" "s_has_send_chain (stepped L A B e)"
    "s_dhs_public (stepped L A B e) = fst (crypto_box_keypair L (e_draw e))"
    "s_dhs_private (stepped L A B e) = snd (crypto_box_keypair L (e_draw e))"
    "(s_root_key (stepped L A B e), s_send_chain_key (stepped L A B e)) =
       kdf_rk L (s_root_key A) (scalarmult_unchecked L (snd (crypto_box_keypair L (e_draw e))) (s_dhs_public A))"
  using assms by (simp_all add: stepped_def after_step_def dh_ratchet_step_eq Let_def new_chain_def)

lemma close_chain:
  assumes "sizes_ok L" "wf_session B" "s_has_recv_chain B \<Longrightarrow> s_nr B \<le> t" "length (backlog L B t) \<le> kMaxSkippedKeys"
  shows "\<exists>ck n. skip_recv_chain_to L B t = Some (ZIA_OK, with_chain B ck n (backlog L B t))"
proof (cases "s_has_recv_chain B")
  case True
  have "chain_live L (s_recv_chain_key B)" using assms(1,2) True by (simp add: chain_live_def wf_session_def)
  moreover have "length (s_skipped B) + unat (t - s_nr B) \<le> kMaxSkippedKeys" using assms(4) True by (simp add: backlog_def)
  ultimately show ?thesis
    using skip_with_room [OF _ True assms(3)] True by (fastforce simp: backlog_def)
next
  case False
  then have "skip_recv_chain_to L B t = Some (ZIA_OK, with_chain B (s_recv_chain_key B) (s_nr B) (backlog L B t))"
    by (simp add: skip_recv_chain_to_def backlog_def)
  then show ?thesis by blast
qed

lemma receive_new_chain:
  assumes L: "sizes_ok L" "mem_ok L" and I: "ahead_of L e0 A B"
    and x: "x = chain_entry L (s_dhs_public A) 0 (snd (new_chain L A B)) j" "fits L A (h, c, pt) x"
    and room: "length (backlog L B (s_pn A)) + j \<le> kMaxSkippedKeys" and j: "j < unat (s_ns A)"
    and new: "skipped_id x \<notin> skipped_id ` set (s_skipped B)"
  shows "zia_session_decrypt L True B h c e =
    (Ok pt, received L (stepped L A B e) j, e\<lparr>e_draw := Suc (e_draw e), e_alloc := Suc (e_alloc e)\<rparr>)"
proof -
  let ?dh = "s_dhs_public A" and ?B = "stepped L A B e"
  have B: "wf_session B" "s_ad A = s_ad B" "s_has_recv_chain B \<Longrightarrow> s_nr B \<le> s_pn A" "fst (new_chain L A B) = s_root_key A"
    and dh: "\<not> s_has_dhr B \<or> s_dhr_public B \<noteq> ?dh" "drawn L e0 (sk_dh_public x)"
    using I x(1) by (auto simp: ahead_of_def intro: own_key_drawn)
  have j32: "j < 2 ^ 32" using j unat_u32_less [of "s_ns A"] by linarith
  note f = stepped_fields [OF B(4), of e]
  obtain pn where h: "length h = kHeaderLen" "16 \<le> length c" "decode_header h = (pn, sk_n x, sk_dh_public x)"
    "sk_dh_public x = ?dh \<longrightarrow> pn = s_pn A" "aead_decrypt L (sk_key x) zero_nonce c (s_ad A @ h) = Some pt"
    using fits_header [OF L(1) dh(2) x(2)] by blast
  have "take_skipped_key B ?dh (of_nat j) = None" using new x(1) by (simp add: take_skipped_key_None skipped_id_def)
  moreover obtain ck n where "skip_recv_chain_to L B (s_pn A) = Some (ZIA_OK, with_chain B ck n (backlog L B (s_pn A)))"
    using close_chain [OF L(1) B(1,3)] room by auto
  then have "follow_remote_key L B (s_pn A) ?dh e = Some (ZIA_OK, ?B, e\<lparr>e_draw := Suc (e_draw e)\<rparr>)"
    using dh(1) by (auto simp: follow_remote_key_def stepped_def after_step_def dh_ratchet_step_eq Let_def)
  moreover have "chain_live L (s_recv_chain_key ?B)"
    using L(1) by (simp add: f chain_live_def new_chain_def kdf_rk_fst_snd_lens)
  then have "receive_on_chain L ?B (s_nr ?B + of_nat j) c (s_ad A @ h) (e\<lparr>e_draw := Suc (e_draw e)\<rparr>) =
      (Ok pt, received L ?B j, e\<lparr>e_draw := Suc (e_draw e), e_alloc := Suc (e_alloc e)\<rparr>)"
    using receive_position [OF _ L(2) f(3), of j c "s_ad A @ h" pt] h(5) x(1) room j32 by (simp add: f)
  moreover have "\<not> (s_has_recv_chain B \<and> s_dhr_public B = ?dh \<and> of_nat j < s_nr B)"
    using dh(1) B(1) by (auto simp: wf_session_def)
  ultimately show ?thesis
    using decrypt_cases [OF h(1-3), of L B e] h(4) x(1) B(2) by (simp add: f(2))
qed

section \<open>Delivery keeps the parties in step\<close>

lemma deliver_to_ahead:
  assumes L: "sizes_ok L" "mem_ok L" and I: "in_step L e0 A B (add_mset (h, c, pt) rest) to_B"
  obtains A' where "zia_session_decrypt L True A h c e = (Ok pt, A', e\<lparr>e_alloc := Suc (e_alloc e)\<rparr>)"
    "in_step L e0 A' B rest to_B" "s_ns A' = s_ns A"
proof -
  have sy: "ahead_of L e0 A B" and ca: "carries L e0 B (add_mset (h, c, pt) rest) (backlog L A (s_ns B))"
    using I by (simp_all add: in_step_def)
  obtain x where x: "x \<in> set (backlog L A (s_ns B))" "fits L B (h, c, pt) x"
    and left: "\<And>es. mset (backlog L A (s_ns B)) = add_mset x (mset es) \<Longrightarrow> carries L e0 B rest es"
    using carries_take [OF ca] by metis
  have A: "wf_session A" "s_has_recv_chain A \<Longrightarrow> s_nr A \<le> s_ns B" "s_ad B = s_ad A" "drawn L e0 (sk_dh_public x)"
    "distinct (map skipped_id (backlog L A (s_ns B) @ []))" "length (backlog L A (s_ns B) @ []) \<le> kMaxSkippedKeys"
    using sy ca x(1) carries_size [OF ca] by (auto simp: ahead_of_def carries_def)
  obtain ck n ks where
    dec: "zia_session_decrypt L True A h c e = (Ok pt, with_chain A ck n ks, e\<lparr>e_alloc := Suc (e_alloc e)\<rparr>)"
    and rest: "mset (backlog L A (s_ns B)) = add_mset x (mset (backlog L (with_chain A ck n ks) (s_ns B)))"
    and pos: "s_has_recv_chain A \<Longrightarrow> n \<le> s_ns B \<and>
      (chain_next (kdf_ck L) ^^ unat (s_ns B - n)) ck = (chain_next (kdf_ck L) ^^ unat (s_ns B - s_nr A)) (s_recv_chain_key A)"
    using receive_backlog [OF L A(1,2,5,6) x(1) A(4) x(2) A(3)] by blast
  have "wf_session (with_chain A ck n ks)" using decrypt_wf [OF L(1) A(1) dec] by blast
  then have "ahead_of L e0 (with_chain A ck n ks) B" using sy pos by (simp add: ahead_of_def)
  then have "in_step L e0 (with_chain A ck n ks) B rest to_B"
    using I left [OF rest] by (simp add: in_step_def)
  with dec that show thesis by simp
qed

lemma deliver_to_behind:
  assumes L: "sizes_ok L" "mem_ok L" and I: "in_step L e0 A B to_A (add_mset (h, c, pt) rest)"
    and x: "x \<in> set (backlog L B (s_pn A))" "fits L A (h, c, pt) x"
    and left: "\<And>es. mset (backlog L B (s_pn A) @ chain_ahead L A B) = add_mset x (mset es) \<Longrightarrow> carries L e0 A rest es"
  obtains B' where "zia_session_decrypt L True B h c e = (Ok pt, B', e\<lparr>e_alloc := Suc (e_alloc e)\<rparr>)"
    "in_step L e0 A B' to_A rest" "s_ns B' = s_ns B"
proof -
  have sy: "ahead_of L e0 A B"
    and ca: "carries L e0 A (add_mset (h, c, pt) rest) (backlog L B (s_pn A) @ chain_ahead L A B)"
    using I by (simp_all add: in_step_def)
  have B: "wf_session B" "s_has_recv_chain B \<Longrightarrow> s_nr B \<le> s_pn A" "s_ad A = s_ad B" "drawn L e0 (sk_dh_public x)"
    "distinct (map skipped_id (backlog L B (s_pn A) @ chain_ahead L A B))"
    "length (backlog L B (s_pn A) @ chain_ahead L A B) \<le> kMaxSkippedKeys"
    using sy ca x(1) carries_size [OF ca] by (auto simp: ahead_of_def carries_def)
  obtain ck n ks where
    dec: "zia_session_decrypt L True B h c e = (Ok pt, with_chain B ck n ks, e\<lparr>e_alloc := Suc (e_alloc e)\<rparr>)"
    and rest: "mset (backlog L B (s_pn A)) = add_mset x (mset (backlog L (with_chain B ck n ks) (s_pn A)))"
    and pos: "s_has_recv_chain B \<Longrightarrow> n \<le> s_pn A \<and>
      (chain_next (kdf_ck L) ^^ unat (s_pn A - n)) ck = (chain_next (kdf_ck L) ^^ unat (s_pn A - s_nr B)) (s_recv_chain_key B)"
    using receive_backlog [OF L B(1,2,5,6) x(1) B(4) x(2) B(3)] by blast
  have "wf_session (with_chain B ck n ks)" using decrypt_wf [OF L(1) B(1) dec] by blast
  then have "ahead_of L e0 A (with_chain B ck n ks)" using sy pos by (simp add: ahead_of_def)
  moreover have "carries L e0 A rest (backlog L (with_chain B ck n ks) (s_pn A) @ chain_ahead L A B)"
    by (rule left) (use rest in simp)
  ultimately have "in_step L e0 A (with_chain B ck n ks) to_A rest"
    using I by (simp add: in_step_def)
  with dec that show thesis by simp
qed

text \<open>The party behind has followed the new key and is ahead now.\<close>

lemma stepped_ahead:
  assumes "dh_ok L" "fresh_keys L N" "e_draw e < N" and I: "ahead_of L e A B" and j: "j < unat (s_ns A)"
    and wf: "wf_session (received L (stepped L A B e) j)" and e': "e_draw e' = Suc (e_draw e)"
  shows "ahead_of L e' (received L (stepped L A B e) j) A"
proof -
  let ?B = "received L (stepped L A B e) j" and ?kp = "crypto_box_keypair L (e_draw e)"
  have root: "fst (new_chain L A B) = s_root_key A" using I by (simp add: ahead_of_def)
  note f = stepped_fields [OF root, of e]
  have "scalarmult_unchecked L (snd ?kp) (s_dhs_public A) = scalarmult_unchecked L (s_dhs_private A) (fst ?kp)"
    by (rule scalarmult_unchecked_commute [OF assms(1) box_keypair_pair own_key_pair [of L e A]])
      (use I in \<open>simp add: ahead_of_def\<close>)
  then have new: "new_chain L ?B A = (s_root_key ?B, s_send_chain_key ?B)"
    using f(11,13) by (simp add: new_chain_def received_def)
  have "own_key L e' ?B" using f(11,12) e' by (auto simp: own_key_def received_def intro!: exI [of _ "e_draw e"])
  moreover have "own_key L e' A" using I e' by (auto simp: ahead_of_def intro: own_key_mono)
  moreover have "s_dhr_public A \<noteq> s_dhs_public ?B"
    using drawn_fresh [OF assms(2,3) own_key_drawn [of L e B]] I f(11) by (auto simp: ahead_of_def received_def)
  moreover have "s_nr ?B \<le> s_ns A \<and> s_send_chain_key A = (chain_next (kdf_ck L) ^^ unat (s_ns A - s_nr ?B)) (s_recv_chain_key ?B)"
    using received_backlog(2,3) [of "stepped L A B e" "s_ns A" j L] j I f by (simp add: ahead_of_def)
  ultimately show ?thesis
    using I wf new f(1-12) unfolding ahead_of_def by (simp add: received_def)
qed

lemma carries_new_sender:
  assumes "carries L e B inbox es" "s_ad B' = s_ad B" "s_dhs_public B' \<notin> sk_dh_public ` set es"
  shows "carries L e B' inbox es"
proof -
  have new: "sk_dh_public x \<noteq> s_dhs_public B'" if "x \<in> set es" for x using that assms(3) by force
  then have "fits L B' m x" if "x \<in># mset es" "fits L B m x" for m x
    using that assms(2) by (auto simp: fits_def)
  then have "rel_mset (fits L B') inbox (mset es)"
    using assms(1) unfolding carries_def by (blast intro: multiset.rel_mono_strong)
  with assms(1) new show ?thesis by (simp add: carries_def)
qed

lemma deliver_new_chain:
  assumes "dh_ok L" "fresh_keys L N" "e_draw e < N" and I: "in_step L e A B to_A (add_mset m rest)"
    and j: "j < unat (s_ns A)" and wf: "wf_session (received L (stepped L A B e) j)"
    and left: "\<And>es. mset (backlog L B (s_pn A) @ chain_ahead L A B) =
      add_mset (chain_entry L (s_dhs_public A) 0 (snd (new_chain L A B)) j) (mset es) \<Longrightarrow> carries L e A rest es"
    and e': "e_draw e' = Suc (e_draw e)"
  shows "in_step L e' (received L (stepped L A B e) j) A rest to_A"
proof -
  let ?S = "stepped L A B e" and ?B = "received L (stepped L A B e) j"
  have sy: "ahead_of L e A B" and to_A: "carries L e B to_A (backlog L A (s_ns B))" using I by (simp_all add: in_step_def)
  then have root: "fst (new_chain L A B) = s_root_key A" "s_ad B = s_ad A" by (simp_all add: ahead_of_def)
  note f = stepped_fields [OF root(1), of e]
  have "backlog L ?S (s_ns A) = backlog L B (s_pn A) @ chain_ahead L A B"
    by (simp add: backlog_def [of L ?S] f chain_ahead_def)
  then have "carries L e A rest (backlog L ?B (s_ns A))"
    using received_backlog(1) [of ?S "s_ns A" j L] j by (intro left) (simp add: f)
  moreover have "s_dhs_public ?B \<notin> sk_dh_public ` set (backlog L A (s_ns B))"
    using to_A drawn_fresh [OF assms(2,3)] f(11) by (auto simp: carries_def received_def)
  then have "carries L e ?B to_A (backlog L A (s_ns B))"
    by (rule carries_new_sender [OF to_A, rotated]) (simp add: received_def f)
  moreover have "backlog L A (s_pn ?B) @ chain_ahead L ?B A = backlog L A (s_ns B)"
    by (simp add: received_def f chain_ahead_def)
  moreover have "e_draw e \<le> e_draw e'" using e' by simp
  ultimately show ?thesis
    using stepped_ahead [OF assms(1-3) sy j wf e'] carries_env unfolding in_step_def by metis
qed

text \<open>Whatever waits for either party decrypts; afterwards one of the two is ahead of the other again.\<close>

definition in_step_either ::
  "lib \<Rightarrow> env \<Rightarrow> ZiaSession \<Rightarrow> ZiaSession \<Rightarrow> (bytes \<times> bytes \<times> bytes) multiset \<Rightarrow>
     (bytes \<times> bytes \<times> bytes) multiset \<Rightarrow> bool" where
  "in_step_either L e A B to_A to_B \<longleftrightarrow> in_step L e A B to_A to_B \<or> in_step L e B A to_B to_A"

lemma deliver_behind:
  assumes L: "sizes_ok L" "mem_ok L" "dh_ok L" "fresh_keys L N"
    and I: "in_step L e A B to_A (add_mset (h, c, pt) rest)"
  obtains B' e' where "zia_session_decrypt L True B h c e = (Ok pt, B', e')" "e_secret e' = e_secret e"
    "s_ns B' \<le> s_ns B" "e_draw e' \<le> N \<Longrightarrow> in_step_either L e' A B' to_A rest"
proof -
  have sy: "ahead_of L e A B"
    and ca: "carries L e A (add_mset (h, c, pt) rest) (backlog L B (s_pn A) @ chain_ahead L A B)"
    using I by (simp_all add: in_step_def)
  obtain x where x: "x \<in> set (backlog L B (s_pn A) @ chain_ahead L A B)" "fits L A (h, c, pt) x"
    and left: "\<And>es. mset (backlog L B (s_pn A) @ chain_ahead L A B) = add_mset x (mset es) \<Longrightarrow> carries L e A rest es"
    using carries_take [OF ca] by metis
  show thesis
  proof (cases "x \<in> set (backlog L B (s_pn A))")
    case True
    obtain B' where B': "zia_session_decrypt L True B h c e = (Ok pt, B', e\<lparr>e_alloc := Suc (e_alloc e)\<rparr>)"
      "in_step L e A B' to_A rest" "s_ns B' = s_ns B"
      using deliver_to_behind [OF L(1,2) I True x(2) left] by metis
    have "in_step L (e\<lparr>e_alloc := Suc (e_alloc e)\<rparr>) A B' to_A rest" by (rule in_step_env [OF B'(2)]) simp
    with that [OF B'(1)] B'(3) show thesis by (simp add: in_step_either_def)
  next
    case False
    let ?B = "\<lambda>j. received L (stepped L A B e) j"
    let ?e = "e\<lparr>e_draw := Suc (e_draw e), e_alloc := Suc (e_alloc e)\<rparr>"
    from False x(1) obtain j where j: "j < unat (s_ns A)"
      and xe: "x = chain_entry L (s_dhs_public A) 0 (snd (new_chain L A B)) j"
      by (auto simp: chain_ahead_def in_skip_entries)
    have room: "length (backlog L B (s_pn A)) + j \<le> kMaxSkippedKeys"
      using carries_size [OF ca] j by (simp add: chain_ahead_def)
    have "skipped_id x \<notin> skipped_id ` set (s_skipped B)"
      using ca x(1) False by (auto simp: carries_def backlog_def)
    from receive_new_chain [OF L(1,2) sy xe x(2) room j this]
    have dec: "zia_session_decrypt L True B h c e = (Ok pt, ?B j, ?e)" .
    have wf: "wf_session (?B j)" using decrypt_wf [OF L(1) _ dec] sy by (simp add: ahead_of_def)
    have "in_step L ?e (?B j) A rest to_A" if "e_draw ?e \<le> N"
      by (rule deliver_new_chain [OF L(3,4) _ I j wf left]) (use that xe in simp_all)
    moreover have "s_ns (?B j) \<le> s_ns B"
      using stepped_fields(9) sy by (simp add: received_def ahead_of_def)
    ultimately show thesis using that [OF dec] by (simp add: in_step_either_def)
  qed
qed

lemma deliver_either:
  assumes L: "sizes_ok L" "mem_ok L" "dh_ok L" "fresh_keys L N"
    and I: "in_step_either L e A B to_A (add_mset (h, c, pt) rest)"
  obtains B' e' where "zia_session_decrypt L True B h c e = (Ok pt, B', e')" "e_secret e' = e_secret e"
    "s_ns B' \<le> s_ns B" "e_draw e' \<le> N \<Longrightarrow> in_step_either L e' A B' to_A rest"
proof (cases "in_step L e A B to_A (add_mset (h, c, pt) rest)")
  case True
  then show thesis using deliver_behind [OF L] that by metis
next
  case False
  with I have "in_step L e B A (add_mset (h, c, pt) rest) to_A" by (simp add: in_step_either_def)
  then obtain B' where B': "zia_session_decrypt L True B h c e = (Ok pt, B', e\<lparr>e_alloc := Suc (e_alloc e)\<rparr>)"
    "in_step L e B' A rest to_A" "s_ns B' = s_ns B"
    by (rule deliver_to_ahead [OF L(1,2)])
  have "in_step L (e\<lparr>e_alloc := Suc (e_alloc e)\<rparr>) B' A rest to_A" by (rule in_step_env [OF B'(2)]) simp
  with that [OF B'(1)] B'(3) show thesis by (simp add: in_step_either_def)
qed

section \<open>Restarting and sending keep the parties in step\<close>

lemma fits_restored: "fits L (restored S) = fits L S"
  by (simp add: fits_def restored_def fun_eq_iff)

lemma restored_keeps [simp]:
  "backlog L (restored R) t = backlog L R t" "s_ns (restored S) = s_ns S" "s_pn (restored S) = s_pn S"
  "new_chain L (restored A) B = new_chain L A B" "new_chain L A (restored B) = new_chain L A B"
  "chain_ahead L (restored A) B = chain_ahead L A B" "chain_ahead L A (restored B) = chain_ahead L A B"
  "own_key L e (restored S) = own_key L e S" "carries L e (restored S) inbox es = carries L e S inbox es"
proof -
  show 1: "new_chain L (restored A) B = new_chain L A B" "new_chain L A (restored B) = new_chain L A B"
    by (simp_all add: restored_def new_chain_def)
  then show "chain_ahead L (restored A) B = chain_ahead L A B" "chain_ahead L A (restored B) = chain_ahead L A B"
    by (simp_all add: chain_ahead_def) (simp add: restored_def)
  show "carries L e (restored S) inbox es = carries L e S inbox es"
    by (simp add: carries_def fits_restored) (simp add: restored_def)
qed (simp_all add: restored_def backlog_def own_key_def)

lemma ahead_of_restored:
  "ahead_of L e A B \<Longrightarrow> ahead_of L e (restored A) B" "ahead_of L e A B \<Longrightarrow> ahead_of L e A (restored B)"
  by (auto simp: ahead_of_def restored_wf) (auto simp: restored_def)

lemma either_commute: "in_step_either L e A B to_A to_B \<longleftrightarrow> in_step_either L e B A to_B to_A"
  by (auto simp: in_step_either_def)

lemma either_env: "in_step_either L e A B to_A to_B \<Longrightarrow> e_draw e \<le> e_draw e' \<Longrightarrow> in_step_either L e' A B to_A to_B"
  by (auto simp: in_step_either_def intro: in_step_env)

lemma either_wf: "in_step_either L e A B to_A to_B \<Longrightarrow> wf_session A"
  by (auto simp: in_step_either_def in_step_def ahead_of_def)

lemma either_restored: "in_step_either L e A B to_A to_B \<Longrightarrow> in_step_either L e (restored A) B to_A to_B"
  by (auto simp: in_step_either_def in_step_def intro: ahead_of_restored)

lemma either_sends:
  assumes "sizes_ok L" "aead_ok L" "in_step_either L e A B to_A to_B" "s_has_send_chain A"
    and "size to_B < kMaxSkippedKeys" "s_ns A < s_ns A + 1" "chain_message L A 0 pt = (h, c)"
  shows "in_step_either L e (A\<lparr>s_send_chain_key := chain_next (kdf_ck L) (s_send_chain_key A), s_ns := s_ns A + 1\<rparr>) B
    to_A (add_mset (h, c, pt) to_B)"
  using assms(3) unfolding in_step_either_def
  using ahead_sends [OF assms(1,2) _ assms(5-7)] behind_sends [OF assms(1,2) _ assms(4-7)] by blast

lemma restart_env:
  assumes "stream_ok L" "vault_holds L e k" "zia_session_serialize L True s e = (Ok b, e1)"
    and "zia_session_deserialize L True b e1 = (Ok s', e2)"
  shows "e_secret e2 = e_secret e" "e_draw e \<le> e_draw e2"
proof -
  have "e_secret e1 = e_secret e" using serialize_Ok [OF assms(1-3)] by blast
  moreover have "e_draw e1 = Suc (e_draw e)"
    using assms(3) ensure_holds [OF assms(2)]
    by (auto simp: zia_session_serialize_def draw_def malloc_def Let_def split: if_splits option.splits prod.splits)
  moreover have "e2 = e1\<lparr>e_service := Suc (Suc (e_service e1))\<rparr>"
    using assms(4) ensure_holds [OF vault_holds_cong [OF assms(2) \<open>e_secret e1 = e_secret e\<close>]]
    by (auto simp: zia_session_deserialize_def split: if_splits option.splits)
  ultimately show "e_secret e2 = e_secret e" "e_draw e \<le> e_draw e2" by simp_all
qed

section \<open>The invariant of the network\<close>

definition net_ok :: "lib \<Rightarrow> network \<Rightarrow> bool" where
  "net_ok L net \<longleftrightarrow>
     in_step_either L (n_env net) (n_party net True) (n_party net False) (n_inbox net True) (n_inbox net False) \<and>
     (\<forall>p. \<exists>k. vault_holds L (party_env net p) k) \<and> (\<forall>p. unat (s_ns (n_party net p)) \<le> n_sent net)"

lemma net_ok_either:
  "net_ok L net \<longleftrightarrow>
     in_step_either L (n_env net) (n_party net p) (n_party net (\<not> p)) (n_inbox net p) (n_inbox net (\<not> p)) \<and>
     (\<forall>q. \<exists>k. vault_holds L (party_env net q) k) \<and> (\<forall>q. unat (s_ns (n_party net q)) \<le> n_sent net)"
  by (cases p) (auto simp: net_ok_def either_commute)

lemma vault_holds_put:
  assumes "\<forall>q. \<exists>k. vault_holds L (party_env net q) k" "e_secret e = e_secret (party_env net p)"
  shows "\<exists>k. vault_holds L (party_env (put_party p s e net) q) k"
proof -
  have "e_secret (party_env (put_party p s e net) q) = e_secret (party_env net q)"
    using assms(2) by (simp add: party_env_def put_party_def)
  then show ?thesis using assms(1) vault_holds_cong by metis
qed

lemma party_env_simps [simp]:
  "e_draw (party_env net p) = e_draw (n_env net)" "e_secret (party_env net p) = n_store net p"
  by (simp_all add: party_env_def)

lemma put_party_simps [simp]:
  "n_party (put_party p s e net) = (n_party net)(p := s)" "n_env (put_party p s e net) = e"
  "n_inbox (put_party p s e net) = n_inbox net" "n_sent (put_party p s e net) = n_sent net"
  by (simp_all add: put_party_def)

lemma party_env_inbox [simp]:
  "party_env (net\<lparr>n_inbox := i\<rparr>) p = party_env net p" "party_env (net\<lparr>n_inbox := i, n_sent := k\<rparr>) p = party_env net p"
  by (simp_all add: party_env_def)

lemma encrypt_with_chain:
  assumes "sizes_ok L" "aead_ok L" "mem_ok L" "wf_session S" "zia_session_encrypt L True S (Buf pt) e = (r, s, e')"
  obtains "\<not> s_has_send_chain S" "r = Err ZIA_ERR_SESSION_NOT_FOUND" "s = S" "e' = e"
  | h c where "s_has_send_chain S" "r = Ok (h, c)" "chain_message L S 0 pt = (h, c)"
      "s = S\<lparr>s_send_chain_key := chain_next (kdf_ck L) (s_send_chain_key S), s_ns := s_ns S + 1\<rparr>"
      "e' = e\<lparr>e_alloc := Suc (Suc (e_alloc e))\<rparr>"
proof (cases "s_has_send_chain S")
  case True
  obtain h c where "chain_message L S 0 pt = (h, c)" by (cases "chain_message L S 0 pt")
  with that(2) True encrypt_chain_message [OF assms(1-4) True, of pt e] assms(5) show thesis by simp
next
  case False
  with that(1) assms(5) show thesis by (simp add: zia_session_encrypt_def)
qed

lemma either_at_party:
  assumes "net_ok L net"
  shows "in_step_either L (party_env net p) (n_party net p) (n_party net (\<not> p)) (n_inbox net p) (n_inbox net (\<not> p))"
  using assms either_env [of L "n_env net"] by (simp add: net_ok_either [of L net p])

text \<open>What an operation of the party \<open>p\<close> has to show.\<close>

lemma net_ok_put:
  assumes "net_ok L net" "in_step_either L e s (n_party net (\<not> p)) to_p to_other" "e_secret e = n_store net p"
    and "unat (s_ns s) \<le> k" "n_sent net \<le> k"
  shows "net_ok L ((put_party p s e net)\<lparr>n_inbox := (n_inbox net)(p := to_p, \<not> p := to_other), n_sent := k\<rparr>)"
proof -
  have "\<exists>k. vault_holds L (party_env (put_party p s e net) q) k" for q
    by (rule vault_holds_put) (use assms(1,3) in \<open>simp_all add: net_ok_def\<close>)
  then show ?thesis
    using assms order.trans [OF _ assms(5)] unfolding net_ok_either [of L _ p] by auto
qed

lemma net_ok_put_session:
  assumes "net_ok L net" "in_step_either L e s (n_party net (\<not> p)) (n_inbox net p) (n_inbox net (\<not> p))"
    and "e_secret e = n_store net p" "s_ns s = s_ns (n_party net p)"
  shows "net_ok L (put_party p s e net)"
  using net_ok_put [OF assms(1-3), of "n_sent net"] assms(1,4)
  by (simp add: put_party_def net_ok_def [of L net])

lemma net_ok_step:
  assumes L: "sizes_ok L" "aead_ok L" "mem_ok L" "dh_ok L" "stream_ok L" "fresh_keys L N"
    and st: "net_step L net net'" and ok: "net_ok L net" and bd: "e_draw (n_env net') \<le> N" "n_sent net' < 2 ^ 32"
  shows "net_ok L net'"
  using st
proof (cases rule: net_step.cases)
  case (send p pt h c s e)
  note I = either_at_party [OF ok, of p]
  from encrypt_with_chain [OF L(1-3) either_wf [OF I] send(3)]
  have c: "s_has_send_chain (n_party net p)" "chain_message L (n_party net p) 0 pt = (h, c)"
    "s = (n_party net p)\<lparr>s_send_chain_key := chain_next (kdf_ck L) (s_send_chain_key (n_party net p)), s_ns := s_ns (n_party net p) + 1\<rparr>"
    "e = (party_env net p)\<lparr>e_alloc := Suc (Suc (e_alloc (party_env net p)))\<rparr>" by auto
  have "unat (s_ns (n_party net p)) \<le> n_sent net" using ok by (simp add: net_ok_def)
  then have "unat (s_ns (n_party net p)) + 1 < 2 ^ 32" using send(1) bd(2) by simp
  then have u: "unat (s_ns (n_party net p) + 1) = unat (s_ns (n_party net p)) + 1"
    using u32_index [of "s_ns (n_party net p)" 1] by simp
  then have "s_ns (n_party net p) < s_ns (n_party net p) + 1" by (simp add: word_less_nat_alt)
  from either_sends [OF L(1,2) I c(1) send(2) this c(2)]
  have "in_step_either L e s (n_party net (\<not> p)) (n_inbox net p) (add_mset (h, c, pt) (n_inbox net (\<not> p)))"
    unfolding c(3,4) by (rule either_env) simp
  from net_ok_put [OF ok this, of "Suc (n_sent net)"] c(3,4) u \<open>unat _ \<le> n_sent net\<close> send(1)
  show ?thesis by (simp add: fun_upd_idem)
next
  case (refused p pt st s e)
  note I = either_at_party [OF ok, of p]
  from encrypt_with_chain [OF L(1-3) either_wf [OF I] refused(2)]
  have "s = n_party net p" "e = party_env net p" by auto
  with net_ok_put_session [OF ok, of e s p] I refused(1) show ?thesis by simp
next
  case (deliver p h c pt rest r s e)
  note I = either_at_party [OF ok, of p]
  from I [unfolded deliver(2) either_commute [of L _ "n_party net p"]] obtain s' e' where
    d: "zia_session_decrypt L True (n_party net p) h c (party_env net p) = (Ok pt, s', e')"
    "e_secret e' = n_store net p" "s_ns s' \<le> s_ns (n_party net p)"
    "e_draw e' \<le> N \<Longrightarrow> in_step_either L e' (n_party net (\<not> p)) s' (n_inbox net (\<not> p)) rest"
    by (rule deliver_either [OF L(1,3,4,6)]) simp
  then have "in_step_either L e s (n_party net (\<not> p)) rest (n_inbox net (\<not> p))"
    using deliver(1,3) bd(1) by (simp add: either_commute)
  moreover have "unat (s_ns s) \<le> n_sent net"
    using d(1,3) deliver(3) ok by (auto simp: net_ok_def word_le_nat_alt intro: order.trans)
  ultimately show ?thesis
    using net_ok_put [OF ok, of e s p rest "n_inbox net (\<not> p)" "n_sent net"] d(1,2) deliver(1,3)
    by (simp add: fun_upd_idem fun_upd_twist put_party_def)
next
  case (restart p b e1 s e2)
  note I = either_at_party [OF ok, of p]
  obtain k where k: "vault_holds L (party_env net p) k" using ok by (auto simp: net_ok_def)
  have s: "s = restored (n_party net p)"
    by (rule restore_gives [OF L(5) k either_wf [OF I] restart(2) refl restart(3)])
  note e = restart_env [OF L(5) k restart(2,3)]
  have "in_step_either L e2 s (n_party net (\<not> p)) (n_inbox net p) (n_inbox net (\<not> p))"
    unfolding s by (rule either_env [OF either_restored [OF I] e(2)])
  from net_ok_put_session [OF ok this] e(1) s restart(1) show ?thesis by simp
next
  case (elsewhere e)
  then have "vault_holds L (party_env (net\<lparr>n_env := e\<rparr>) p) k" if "vault_holds L (party_env net p) k" for p k
    using vault_holds_cong [OF that] by (simp add: party_env_def)
  with elsewhere ok either_env show ?thesis unfolding net_ok_def by (simp, metis)
qed

lemma leads_in_step:
  assumes "leads L e A B"
  shows "in_step L e A B {#} {#}"
proof -
  have "backlog L A (s_ns B) = []" "backlog L B (s_pn A) @ chain_ahead L A B = []"
    using assms by (auto simp: leads_def backlog_def chain_ahead_def)
  moreover have "ahead_of L e A B" using assms by (simp add: leads_def ahead_of_def new_chain_def)
  ultimately show ?thesis by (simp add: in_step_def carries_def)
qed

lemma opened_ok:
  assumes "leads L e A B" "\<forall>p. \<exists>k. vault_holds L (e\<lparr>e_secret := store p\<rparr>) k" "s_ns B = 0"
  shows "net_ok L (opened A B store e)"
  using assms leads_in_step [OF assms(1)]
  by (simp add: net_ok_def opened_def in_step_either_def party_env_def leads_def)

lemma net_reachable_ok:
  assumes L: "sizes_ok L" "aead_ok L" "mem_ok L" "dh_ok L" "stream_ok L" "fresh_keys L N"
    and "net_reachable L N net0 net" "net_ok L net0"
  shows "net_ok L net"
  using assms(7)
proof induction
  case start
  show ?case by (rule assms(8))
next
  case (step net net')
  then show ?case using net_ok_step [OF L] by blast
qed

lemma net_ok_opens:
  assumes "sizes_ok L" "mem_ok L" "dh_ok L" "fresh_keys L N" "net_ok L net"
  shows "inbox_opens L net"
proof (unfold inbox_opens_def, intro allI impI)
  fix p h c pt
  assume "(h, c, pt) \<in># n_inbox net p"
  then obtain rest where rest: "n_inbox net p = add_mset (h, c, pt) rest" by (rule mset_add)
  from either_at_party [OF assms(5), of p, unfolded rest either_commute [of L _ "n_party net p"]]
  show "fst (zia_session_decrypt L True (n_party net p) h c (party_env net p)) = Ok pt"
    by (rule deliver_either [OF assms(1-4)]) simp
qed

text \<open>
  A message delivered twice is outside the network of this theory, with reason: the replay test of
  \<open>zia_session_decrypt\<close> compares with the current chain only.  The duplicate of a message of an earlier
  chain, whose key is used up, is not reported as a replay; it takes the ratchet back to the old key.
\<close>

lemma old_duplicate_moves_ratchet:
  assumes "sizes_ok L" "wf_session s" "length header = kHeaderLen" "16 \<le> length ct"
    and "decode_header header = (pn, n, dh)" "(dh, n) \<notin> skipped_id ` set (s_skipped s)"
    and "s_has_recv_chain s" "s_dhr_public s \<noteq> dh" "pn \<le> s_nr s"
    and "zia_session_decrypt L True s header ct e = (r, s', e')"
  shows "s_dhr_public s' = dh \<and> s_dhs_private s' = snd (crypto_box_keypair L (e_draw e))"
proof -
  let ?p = "dh_ratchet_step L s dh e"
  have wf: "wf_session (fst ?p)"
    by (rule dh_ratchet_step_wf [OF assms(1,2) decode_header_len [OF assms(5,3)]])
  have "take_skipped_key s dh n = None" using assms(6) by (simp add: take_skipped_key_None)
  then have rc: "receive_on_chain L (fst ?p) n ct (s_ad s @ header) (snd ?p) = (r, s', e')"
    using decrypt_cases [OF assms(3-5), of L s e] assms(8-10)
    by (simp add: follow_remote_key_def skip_recv_chain_to_def case_prod_beta)
  from assms(1) wf have "s_dhr_public s' = s_dhr_public (fst ?p) \<and> s_dhs_private s' = s_dhs_private (fst ?p)"
  proof (cases rule: skip_recv_chain_to_total [where until = n])
    case 1
    with rc show ?thesis by (auto simp: receive_on_chain_def)
  next
    case (2 s2)
    with rc show ?thesis
      by (auto simp: receive_on_chain_def Let_def split: option.splits prod.splits res.splits)
  qed
  then show ?thesis by (simp add: dh_ratchet_step_eq Let_def)
qed

section \<open>Property\<close>

text \<open>
  C1 (liveness).  The Double Ratchet on an unreliable network.  Two sessions are opened on the same
  secret; from then on either party sends whenever it can, messages are reordered, delayed and lost
  across any number of Diffie-Hellman steps, and either party may be saved under its master key and
  restored at any moment.  As long as no party has more than 1000 messages waiting, every message that
  waits decrypts to its own plaintext when it is delivered, and a party that has a sending chain can
  send.  A lost message is one that is never delivered: it goes on waiting and counts, as its key may go on
  occupying one of the 1000 places of the receiver's cache.
\<close>

theorem network_delivers:
  assumes "sizes_ok L" "aead_ok L" "mem_ok L" "dh_ok L" "stream_ok L" "fresh_keys L N"
    and "length ad = 64" "length sk = 32"
    and "crypto_box_keypair L i = (spk, spk_priv)" "i < e_draw e"
    and "init_as_initiator L (new_ZiaSession\<lparr>s_ad := ad\<rparr>) sk spk e = (A, e1)"
    and "init_as_responder (new_ZiaSession\<lparr>s_ad := ad\<rparr>) sk spk spk_priv = B"
    and "\<forall>p. \<exists>k. vault_holds L (e1\<lparr>e_secret := store p\<rparr>) k"
    and "net_reachable L N (opened A B store e1) net"
  shows "inbox_opens L net \<and>
    (s_has_send_chain (n_party net p) \<longrightarrow>
       (\<exists>h c. fst (zia_session_encrypt L True (n_party net p) (Buf pt) (party_env net p)) = Ok (h, c)))"
proof -
  have "leads L e1 A B" using init_sessions_lead [OF assms(1,4,7-11) order.refl] assms(12) by simp
  moreover have "s_ns B = 0" using assms(12) by (auto simp: init_as_responder_def new_ZiaSession_def)
  ultimately have ok: "net_ok L net"
    by (intro net_reachable_ok [OF assms(1-6,14)] opened_ok assms(13))
  have "wf_session (n_party net p)" by (rule either_wf [OF either_at_party [OF ok]])
  then have "\<exists>h c. fst (zia_session_encrypt L True (n_party net p) (Buf pt) (party_env net p)) = Ok (h, c)"
    if "s_has_send_chain (n_party net p)"
    using encrypt_chain_message [OF assms(1-3) _ that] by (metis fst_conv surj_pair)
  with net_ok_opens [OF assms(1,3,4,6) ok] show ?thesis by blast
qed

text \<open>A run of two messages from the initiator, both still waiting.\<close>

lemma send_twice:
  assumes "sizes_ok L" "aead_ok L" "mem_ok L" "wf_session A" "s_has_send_chain A" "e_draw e \<le> N"
  shows "\<exists>net. net_reachable L N (opened A B store e) net \<and>
    image_mset (\<lambda>(h, c, pt). pt) (n_inbox net False) = {#p, q#}"
proof -
  let ?net0 = "opened A B store e"
  let ?A = "A\<lparr>s_send_chain_key := chain_next (kdf_ck L) (s_send_chain_key A), s_ns := s_ns A + 1\<rparr>"
  obtain h c where 1: "zia_session_encrypt L True A (Buf p) (party_env ?net0 True) =
      (Ok (h, c), ?A, (party_env ?net0 True)\<lparr>e_alloc := Suc (Suc (e_alloc (party_env ?net0 True)))\<rparr>)"
    using encrypt_chain_message [OF assms(1-5)] by (metis surj_pair)
  define net1 where "net1 = (put_party True ?A ((party_env ?net0 True)\<lparr>e_alloc := Suc (Suc (e_alloc (party_env ?net0 True)))\<rparr>) ?net0)
    \<lparr>n_inbox := (n_inbox ?net0)(\<not> True := add_mset (h, c, p) (n_inbox ?net0 (\<not> True))), n_sent := Suc (n_sent ?net0)\<rparr>"
  have s1: "net_step L ?net0 net1"
    unfolding net1_def by (rule net_step.send) (use 1 in \<open>simp_all add: opened_def kMaxSkippedKeys_def\<close>)
  have n1: "n_party net1 True = ?A" "n_inbox net1 False = {#(h, c, p)#}" "n_sent net1 = 1" "e_draw (n_env net1) \<le> N"
    using assms(6) by (simp_all add: net1_def opened_def)
  have wf: "wf_session ?A" "s_has_send_chain ?A" using sending_wf [OF assms(1,4,5)] assms(5) by simp_all
  obtain h' c' A' e' where 2: "zia_session_encrypt L True ?A (Buf q) (party_env net1 True) = (Ok (h', c'), A', e')"
    "e_draw e' = e_draw (n_env net1)"
    using encrypt_chain_message [OF assms(1-3) wf, of q "party_env net1 True"] by (cases "chain_message L ?A 0 q") simp
  define net2 where "net2 = (put_party True A' e' net1)
    \<lparr>n_inbox := (n_inbox net1)(\<not> True := add_mset (h', c', q) (n_inbox net1 (\<not> True))), n_sent := Suc (n_sent net1)\<rparr>"
  have "net_step L net1 net2"
    unfolding net2_def by (rule net_step.send) (use 2 n1 in \<open>simp_all add: kMaxSkippedKeys_def\<close>)
  then have "net_reachable L N ?net0 net2"
    using s1 n1 2(2) by (intro net_reachable.step [OF net_reachable.step [OF net_reachable.start s1]]) (simp_all add: net2_def)
  then show ?thesis using n1(2) by (intro exI [of _ net2]) (simp add: net2_def)
qed

theorem network_delivers_witness:
  "\<exists>A e1 B net. init_as_initiator sample_lib (new_ZiaSession\<lparr>s_ad := replicate 64 1\<rparr>) (replicate 32 7)
       (replicate 32 0) (sample_vault_env\<lparr>e_draw := 1\<rparr>) = (A, e1) \<and>
     init_as_responder (new_ZiaSession\<lparr>s_ad := replicate 64 1\<rparr>) (replicate 32 7) (replicate 32 0) (replicate 32 0) = B \<and>
     net_reachable sample_lib 256 (opened A B (\<lambda>_. e_secret sample_vault_env) e1) net \<and>
     image_mset (\<lambda>(h, c, pt). pt) (n_inbox net False) = {#[1], [2]#} \<and> inbox_opens sample_lib net"
proof -
  let ?spk = "replicate 32 0 :: bytes" and ?ad = "replicate 64 1 :: bytes" and ?store = "\<lambda>_ :: bool. e_secret sample_vault_env"
  obtain A e1 where A: "init_as_initiator sample_lib (new_ZiaSession\<lparr>s_ad := ?ad\<rparr>) (replicate 32 7) ?spk
      (sample_vault_env\<lparr>e_draw := 1\<rparr>) = (A, e1)" by fastforce
  define B where "B = init_as_responder (new_ZiaSession\<lparr>s_ad := ?ad\<rparr>) (replicate 32 7) ?spk ?spk"
  have wf: "wf_session A"
    using init_as_initiator_wf [OF sample_sizes_ok, of "replicate 32 7" ?spk "new_ZiaSession\<lparr>s_ad := ?ad\<rparr>"
        "sample_vault_env\<lparr>e_draw := 1\<rparr>"] A
    by (simp add: new_ZiaSession_def)
  have snd: "s_has_send_chain A" "e_draw e1 \<le> 256"
    using A by (auto simp: init_as_initiator_def x25519_keypair_def draw_def case_prod_beta Let_def)
  have kp: "crypto_box_keypair sample_lib 0 = (?spk, ?spk)" by (simp add: sample_lib_def)
  have hold: "\<forall>p. \<exists>k. vault_holds sample_lib (e1\<lparr>e_secret := ?store p\<rparr>) k"
    using vault_holds_cong [OF sample_vault_holds, of "e1\<lparr>e_secret := e_secret sample_vault_env\<rparr>"] by auto
  obtain net where net: "net_reachable sample_lib 256 (opened A B ?store e1) net"
    "image_mset (\<lambda>(h, c, pt). pt) (n_inbox net False) = {#[1], [2]#}"
    using send_twice [OF sample_sizes_ok sample_aead_ok sample_mem_ok wf snd] by blast
  from network_delivers [OF sample_sizes_ok sample_aead_ok sample_mem_ok sample_dh_ok sample_stream_ok sample_fresh_keys
      _ _ kp _ A B_def [symmetric] hold net(1)]
  have "inbox_opens sample_lib net" by simp
  with A B_def net show ?thesis by blast
qed

end
