(* ===== verification/Safety_Number.thy ===== *)
theory Safety_Number
  imports Primitives Files Sample_Lib "HOL-Library.List_Lexorder"
begin

text \<open>
  \<open>src/safety_number.cpp\<close>: the 60-digit number two correspondents compare.  The specification
  \<open>libsignal_digits\<close> is the algorithm the comment of the source announces, over natural numbers: 5200
  rounds of SHA-512 starting from the raw concatenation, then six big-endian groups of five bytes modulo
  100000.  The lexicographic order on byte lists is that of \<open>std::string\<close>.
\<close>

section \<open>Model\<close>

definition kIterations :: nat where "kIterations = 5200"

text \<open>
  One round; the return values of the library are ignored, so on a failure the buffer would keep its
  previous content.
\<close>

definition sha512_pair :: "lib \<Rightarrow> bytes \<Rightarrow> bytes \<Rightarrow> bytes option" where
  "sha512_pair L a b =
     Option.bind (sha512_init L) (\<lambda>s. Option.bind (sha512_update L s a)
       (\<lambda>s1. Option.bind (sha512_update L s1 b) (sha512_final L)))"

definition hash_round :: "lib \<Rightarrow> bytes \<Rightarrow> bytes \<Rightarrow> bytes \<Rightarrow> bytes" where
  "hash_round L pub buffer input = (case sha512_pair L input pub of Some d \<Rightarrow> d | None \<Rightarrow> buffer)"

primrec hash_loop :: "lib \<Rightarrow> bytes \<Rightarrow> nat \<Rightarrow> bytes \<Rightarrow> bytes" where
  "hash_loop L pub 0 hash = hash"
| "hash_loop L pub (Suc n) hash = hash_loop L pub n (hash_round L pub hash hash)"

definition shift_in :: "u64 \<Rightarrow> u8 \<Rightarrow> u64" where
  "shift_in chunk b = push_bit 8 chunk OR ucast b"

definition chunk_at :: "bytes \<Rightarrow> nat \<Rightarrow> u64" where
  "chunk_at hash offset = fold (\<lambda>b chunk. shift_in chunk (hash ! (offset + b))) [0, 1, 2, 3, 4] 0"

text \<open>\<open>snprintf("%05u")\<close> of a number below 100000.\<close>

definition print5 :: "u32 \<Rightarrow> bytes" where
  "print5 v = map (\<lambda>k. 48 + of_nat (unat v div 10 ^ k mod 10)) [4, 3, 2, 1, 0]"

definition party_digits :: "lib \<Rightarrow> bytes \<Rightarrow> bytes option \<Rightarrow> bytes" where
  "party_digits L pub identifier =
     (let ident = (case identifier of Some s \<Rightarrow> cstr s | None \<Rightarrow> []);
          state_buf = [0, 0] @ pub @ ident;
          hash = hash_round L pub (uninit32 L (0 # state_buf) @ uninit32 L (1 # state_buf)) state_buf;
          hash = hash_loop L pub (kIterations - 1) hash
      in concat (map (\<lambda>i. print5 (ucast (chunk_at hash (5 * i) mod 100000))) [0, 1, 2, 3, 4, 5]))"

definition zia_safety_number ::
  "lib \<Rightarrow> bool \<Rightarrow> bytes \<Rightarrow> bytes option \<Rightarrow> bytes \<Rightarrow> bytes option \<Rightarrow> bytes res" where
  "zia_safety_number L nn local_pub local_id remote_pub remote_id =
     (if \<not> nn then Err ZIA_ERR_INVALID_ARG
      else if local_pub = remote_pub then Err ZIA_ERR_INVALID_ARG else
      let mine = party_digits L local_pub local_id;
          theirs = party_digits L remote_pub remote_id;
          combined = (if mine < theirs then mine @ theirs else theirs @ mine)
      in if length combined \<noteq> ZIA_SAFETY_NUMBER_DIGITS then Err ZIA_ERR_CRYPTO_FAILURE
         else Ok (combined @ [0]))"

section \<open>Specification\<close>

definition big_endian :: "bytes \<Rightarrow> nat" where
  "big_endian bs = foldl (\<lambda>n b. 256 * n + unat b) 0 bs"

definition decimal5 :: "nat \<Rightarrow> bytes" where
  "decimal5 n = map (\<lambda>k. 48 + of_nat (n div 10 ^ k mod 10)) [4, 3, 2, 1, 0]"

definition libsignal_digits :: "lib \<Rightarrow> bytes \<Rightarrow> bytes \<Rightarrow> bytes" where
  "libsignal_digits L key ident =
     (let h = ((\<lambda>h. SHA512 L (h @ key)) ^^ 5200) ([0, 0] @ key @ ident)
      in concat (map (\<lambda>i. decimal5 (big_endian (take 5 (drop (5 * i) h)) mod 100000)) [0, 1, 2, 3, 4, 5]))"

section \<open>The hash chain\<close>

lemma sha512_pair_eq: "sha512_ok L \<Longrightarrow> sha512_pair L a b = Some (SHA512 L (a @ b)) \<and> length (SHA512 L (a @ b)) = 64"
proof -
  assume L: "sha512_ok L"
  obtain s where s: "sha512_init L = Some s" using L by (auto simp: sha512_ok_def)
  obtain s1 s2 where u: "sha512_update L s a = Some s1" "sha512_update L s1 b = Some s2"
    "sha512_update L s (a @ b) = Some s2"
    using L unfolding sha512_ok_def by metis
  obtain d where "sha512_final L s2 = Some d" "length d = 64" using L unfolding sha512_ok_def by metis
  with s u show ?thesis by (simp add: sha512_pair_def SHA512_def)
qed

lemma hash_round_eq: "sha512_ok L \<Longrightarrow> hash_round L pub buffer input = SHA512 L (input @ pub)"
  by (simp add: hash_round_def sha512_pair_eq)

lemma hash_loop_eq: "sha512_ok L \<Longrightarrow> hash_loop L pub n h = ((\<lambda>h. SHA512 L (h @ pub)) ^^ n) h"
  by (induction n arbitrary: h) (simp_all add: hash_round_eq funpow_Suc_right del: funpow.simps(2))

section \<open>The digits\<close>

lemma unat_shift_in:
  assumes "unat c < 2 ^ 56"
  shows "unat (shift_in c b) = 256 * unat c + unat b"
proof -
  have "shift_in c b = push_bit 8 c + (ucast b :: u64)"
    unfolding shift_in_def
    by (rule disjunctive_add_eq_or [symmetric])
      (rule bit_word_eqI, auto simp: bit_simps dest: bit_imp_le_length)
  also have "unat \<dots> = (unat (push_bit 8 c) + unat (ucast b :: u64)) mod 2 ^ 64" by (simp add: unat_word_ariths)
  also have "unat (push_bit 8 c) = take_bit 64 (push_bit 8 (unat c))" by (simp add: unsigned_push_bit_eq)
  also have "\<dots> = 256 * unat c" using assms by (simp add: take_bit_eq_mod push_bit_eq_mult mult.commute)
  also have "unat (ucast b :: u64) = unat b"
    using unsigned_less [of b, where 'a = nat] by (simp add: unsigned_ucast_eq take_bit_eq_mod)
  finally show ?thesis using assms unsigned_less [of b, where 'a = nat] by simp
qed

lemma unat_foldl_shift_in:
  "unat c < 2 ^ (64 - 8 * length bs) \<Longrightarrow> length bs \<le> 8 \<Longrightarrow>
     unat (foldl shift_in c bs) = foldl (\<lambda>n b. 256 * n + unat b) (unat c) bs"
proof (induction bs arbitrary: c)
  case Nil
  then show ?case by simp
next
  case (Cons b bs)
  have k: "64 - 8 * length bs = (64 - 8 * length (b # bs)) + 8" using Cons.prems(2) by simp
  have "(2 :: nat) ^ (64 - 8 * length (b # bs)) \<le> 2 ^ 56" by (rule power_increasing) simp_all
  then have u: "unat (shift_in c b) = 256 * unat c + unat b" using Cons.prems(1) by (intro unat_shift_in) simp
  have "unat b < 256" using unsigned_less [of b, where 'a = nat] by simp
  then have "unat (shift_in c b) < 2 ^ (64 - 8 * length bs)" using Cons.prems(1) unfolding u k power_add by simp
  from Cons.IH [OF this] Cons.prems(2) u show ?case by simp
qed

lemma chunk_nat:
  assumes "offset + 5 \<le> length hash"
  shows "unat (chunk_at hash offset) = big_endian (take 5 (drop offset hash))"
proof -
  have t: "take 5 (drop offset hash) = map (\<lambda>b. hash ! (offset + b)) [0, 1, 2, 3, 4]"
    by (rule nth_equalityI) (use assms in \<open>auto simp: less_Suc_eq numeral_eq_Suc\<close>)
  have "chunk_at hash offset = foldl shift_in 0 (take 5 (drop offset hash))" unfolding t by (simp add: chunk_at_def)
  then show ?thesis
    using unat_foldl_shift_in [of 0 "take 5 (drop offset hash)"] assms by (simp add: big_endian_def)
qed

lemma print5_nat: "n < 2 ^ 32 \<Longrightarrow> print5 (of_nat n) = decimal5 n"
  by (simp add: print5_def decimal5_def unat_of_nat)

lemma group_nat: "(ucast (c mod 100000 :: u64) :: u32) = of_nat (unat c mod 100000)"
  by (simp add: word_unat_eq_iff unsigned_ucast_eq unat_mod take_bit_eq_mod unat_of_nat)

lemma digits_of_hash:
  assumes "length h = 64"
  shows "map (\<lambda>i. print5 (ucast (chunk_at h (5 * i) mod 100000))) [0, 1, 2, 3, 4, 5] =
    map (\<lambda>i. decimal5 (big_endian (take 5 (drop (5 * i) h)) mod 100000)) [0, 1, 2, 3, 4, 5]"
proof (rule map_cong [OF refl])
  fix i :: nat
  assume "i \<in> set [0, 1, 2, 3, 4, 5]"
  then have "5 * i + 5 \<le> length h" using assms by auto
  moreover have "n mod 100000 < 2 ^ 32" for n :: nat
    by (rule less_trans [OF mod_less_divisor]) simp_all
  ultimately show "print5 (ucast (chunk_at h (5 * i) mod 100000)) =
    decimal5 (big_endian (take 5 (drop (5 * i) h)) mod 100000)"
    by (simp only: group_nat print5_nat chunk_nat)
qed

lemma length_party_digits [simp]: "length (party_digits L pub ident) = 30"
  by (simp add: party_digits_def print5_def Let_def)

lemma digit_byte: "48 \<le> (48 + of_nat (n mod 10) :: u8) \<and> (48 + of_nat (n mod 10) :: u8) \<le> 57"
proof -
  have "n mod 10 < 10" by simp
  then have "unat (48 + of_nat (n mod 10) :: u8) = 48 + n mod 10" by (simp add: unat_word_ariths unat_of_nat)
  then show ?thesis by (simp add: word_le_nat_alt)
qed

lemma print5_digits: "list_all (\<lambda>c. 48 \<le> c \<and> c \<le> 57) (print5 v)"
  using digit_byte by (simp add: print5_def)

lemma party_digits_digits: "list_all (\<lambda>c. 48 \<le> c \<and> c \<le> 57) (party_digits L pub ident)"
  using print5_digits by (simp add: party_digits_def Let_def)

section \<open>Properties\<close>

text \<open>
  The safety number is the same on both sides: exchanging the roles of the two
  correspondents does not change it.  For two different keys it always exists and consists of 60 decimal
  digits and the terminating NUL; two equal keys are refused.
\<close>

lemma safety_number_symmetric:
  shows "zia_safety_number L nn a i b j = zia_safety_number L nn b j a i \<and>
    zia_safety_number L nn a i a j = Err ZIA_ERR_INVALID_ARG \<and>
    (a \<noteq> b \<longrightarrow> (\<exists>d. zia_safety_number L True a i b j = Ok (d @ [0]) \<and> length d = 60 \<and>
       list_all (\<lambda>c. 48 \<le> c \<and> c \<le> 57) d))"
proof (intro conjI impI)
  show "zia_safety_number L nn a i b j = zia_safety_number L nn b j a i"
    by (auto simp: zia_safety_number_def Let_def)
  show "zia_safety_number L nn a i a j = Err ZIA_ERR_INVALID_ARG" by (simp add: zia_safety_number_def)
  show "\<exists>d. zia_safety_number L True a i b j = Ok (d @ [0]) \<and> length d = 60 \<and> list_all (\<lambda>c. 48 \<le> c \<and> c \<le> 57) d"
    if "a \<noteq> b"
    using that party_digits_digits [of L a i] party_digits_digits [of L b j] by (simp add: zia_safety_number_def Let_def)
qed

text \<open>
  C31 (equivalence).  One party's thirty digits are those of the published algorithm: 5200 SHA-512 rounds
  from the raw concatenation of version, key and identifier, and the arithmetic on 64-bit words, shifts
  and \<open>snprintf\<close> computes the six groups of the first thirty bytes without losing anything.
\<close>

theorem party_digits_libsignal:
  assumes "sha512_ok L"
  shows "party_digits L pub (Some ident) = libsignal_digits L pub (cstr ident)"
proof -
  let ?f = "\<lambda>h. SHA512 L (h @ pub)"
  let ?h = "(?f ^^ 5200) ([0, 0] @ pub @ cstr ident)"
  have it: "kIterations - 1 = 5199" "(5200 :: nat) = Suc 5199" by (simp_all add: kIterations_def)
  have h: "hash_loop L pub (kIterations - 1) (hash_round L pub buffer ([0, 0] @ pub @ cstr ident)) = ?h" for buffer
    unfolding hash_loop_eq [OF assms] hash_round_eq [OF assms] it funpow_Suc_right comp_def by simp
  have len: "length ((?f ^^ Suc n) x) = 64" for n x using sha512_pair_eq [OF assms] by simp
  have len: "length ?h = 64" using len [of 5199] unfolding it(2) [symmetric] .
  show ?thesis
    unfolding party_digits_def libsignal_digits_def Let_def option.case h digits_of_hash [OF len] ..
qed

theorem party_digits_libsignal_witness:
  "party_digits sample_lib (replicate 32 1) (Some (ascii ''id'')) = libsignal_digits sample_lib (replicate 32 1) (cstr (ascii ''id''))"
  by (rule party_digits_libsignal [OF sample_sha512_ok])

end
