(* ===== verification/Release.thy ===== *)
theory Release
  imports Files Sample_Lib
begin

text \<open>
  Update signatures: \<open>src/release_signature.cpp\<close>, by which the application accepts a downloaded file, and
  \<open>tools/sign_release.cpp\<close>, the command with which a release is signed.  Both hash the file in blocks of
  64 KiB read with \<open>fread\<close>; a read error is sticky (\<open>ferror\<close>) and is only tested after the loop.

  The passphrases typed at the terminal are a list of lines.  What the tool prints is not modelled; its exit
  code is.
\<close>

section \<open>Reading in blocks\<close>

definition kBlock :: nat where "kBlock = 64 * 1024"

definition fopen_rb :: "lib \<Rightarrow> bytes \<Rightarrow> env \<Rightarrow> bytes option \<times> env" where
  "fopen_rb L path e = (let (ok, e1) = io L e in (if ok then get_file e1 path else None, e1))"

text \<open>
  One \<open>fread\<close> on the unread rest of a file: the block, the rest after it and whether the error indicator
  was raised.  A failing call may still deliver some bytes.
\<close>

definition fread :: "lib \<Rightarrow> bytes \<Rightarrow> env \<Rightarrow> bytes \<times> bytes \<times> bool \<times> env" where
  "fread L rest e =
     (let (ok, e1) = io L e;
          n = (if ok then kBlock else min kBlock (io_written L (e_io e)))
      in (take n rest, drop n rest, \<not> ok, e1))"

lemma fread_shrinks: "(blk, rest', bad, e') = fread L rest e \<Longrightarrow> blk \<noteq> [] \<Longrightarrow> length rest' < length rest"
  by (cases rest) (auto simp: fread_def io_def Let_def kBlock_def split: if_splits)

section \<open>release_signature.cpp\<close>

text \<open>The loop of \<open>zia_verify_file_signature\<close>: the state, or nothing when an update fails, and the error indicator.\<close>

function hash_blocks :: "lib \<Rightarrow> bytes \<Rightarrow> bytes \<Rightarrow> bool \<Rightarrow> env \<Rightarrow> bytes option \<times> bool \<times> env" where
  "hash_blocks L state rest err e =
     (let (blk, rest', bad, e1) = fread L rest e in
      if blk = [] then (Some state, err \<or> bad, e1)
      else case sha512_update L state blk of
        None \<Rightarrow> (None, err \<or> bad, e1)
      | Some state' \<Rightarrow> hash_blocks L state' rest' (err \<or> bad) e1)"
  by pat_completeness auto
termination
  by (relation "measure (\<lambda>(L, state, rest, err, e). length rest)") (auto dest: fread_shrinks)

declare hash_blocks.simps [simp del]

definition zia_verify_file_signature :: "lib \<Rightarrow> bool \<Rightarrow> bytes \<Rightarrow> bytes \<Rightarrow> bytes \<Rightarrow> env \<Rightarrow> unit res \<times> env" where
  "zia_verify_file_signature L nn public_key path signature e =
     (if \<not> nn then (Err ZIA_ERR_INVALID_ARG, e) else
      let (f, e1) = fopen_rb L (cstr path) e in
      case f of
        None \<Rightarrow> (Err ZIA_ERR_STORAGE_IO, e1)
      | Some content \<Rightarrow>
          (case sha512_init L of
             None \<Rightarrow> (Err ZIA_ERR_CRYPTO_FAILURE, e1)
           | Some state \<Rightarrow>
               let (r, err, e2) = hash_blocks L state content False e1 in
               (case r of
                  None \<Rightarrow> (Err ZIA_ERR_CRYPTO_FAILURE, e2)
                | Some state' \<Rightarrow>
                    if err then (Err ZIA_ERR_STORAGE_IO, e2) else
                    (case sha512_final L state' of
                       None \<Rightarrow> (Err ZIA_ERR_CRYPTO_FAILURE, e2)
                     | Some digest \<Rightarrow>
                         (if crypto_sign_verify_detached L signature digest public_key then Ok ()
                          else Err ZIA_ERR_SIGNATURE_INVALID, e2)))))"

section \<open>sign_release.cpp\<close>

function read_blocks :: "lib \<Rightarrow> bytes \<Rightarrow> bytes \<Rightarrow> bool \<Rightarrow> env \<Rightarrow> bytes \<times> bool \<times> env" where
  "read_blocks L out rest err e =
     (let (blk, rest', bad, e1) = fread L rest e in
      if blk = [] then (out, err \<or> bad, e1) else read_blocks L (out @ blk) rest' (err \<or> bad) e1)"
  by pat_completeness auto
termination
  by (relation "measure (\<lambda>(L, out, rest, err, e). length rest)") (auto dest: fread_shrinks)

declare read_blocks.simps [simp del]

definition lire_fichier :: "lib \<Rightarrow> bytes \<Rightarrow> env \<Rightarrow> bytes option \<times> env" where
  "lire_fichier L path e =
     (let (f, e1) = fopen_rb L path e in
      case f of
        None \<Rightarrow> (None, e1)
      | Some content \<Rightarrow>
          let (out, err, e2) = read_blocks L [] content False e1 in (if err then None else Some out, e2))"

text \<open>\<open>fopen\<close>, the tested \<open>fwrite\<close>, and the flush of the untested \<open>fclose\<close>: the three calls of \<open>write_file\<close>.\<close>

definition ecrire_fichier :: "lib \<Rightarrow> bytes \<Rightarrow> bytes \<Rightarrow> env \<Rightarrow> bool \<times> env" where
  "ecrire_fichier L path data e = write_file L path data e"

text \<open>
  The tool does not test what the hash functions return: after a failure the state, respectively the
  digest, is what it was.
\<close>

function hash_blocks_unchecked :: "lib \<Rightarrow> bytes \<Rightarrow> bytes \<Rightarrow> bool \<Rightarrow> env \<Rightarrow> bytes \<times> bool \<times> env" where
  "hash_blocks_unchecked L st rest err e =
     (let (blk, rest', bad, e1) = fread L rest e in
      if blk = [] then (st, err \<or> bad, e1)
      else hash_blocks_unchecked L (case sha512_update L st blk of Some st' \<Rightarrow> st' | None \<Rightarrow> st) rest' (err \<or> bad) e1)"
  by pat_completeness auto
termination
  by (relation "measure (\<lambda>(L, st, rest, err, e). length rest)") (auto dest: fread_shrinks)

declare hash_blocks_unchecked.simps [simp del]

definition hacher :: "lib \<Rightarrow> bytes \<Rightarrow> env \<Rightarrow> bytes option \<times> env" where
  "hacher L path e =
     (let (f, e1) = fopen_rb L path e in
      case f of
        None \<Rightarrow> (None, e1)
      | Some content \<Rightarrow>
          let st = (case sha512_init L of Some st \<Rightarrow> st | None \<Rightarrow> uninit32 L path);
              (st', err, e2) = hash_blocks_unchecked L st content False e1
          in if err then (None, e2)
             else (Some (case sha512_final L st' of Some d \<Rightarrow> d | None \<Rightarrow> uninit32 L (0 # path) @ uninit32 L (1 # path)), e2))"

definition keygen :: "lib \<Rightarrow> bytes \<Rightarrow> env \<Rightarrow> int \<times> env" where
  "keygen L prefixe e =
     (let (d, e1) = draw e;
          (pk, sk) = crypto_sign_keypair L d;
          (ok1, e2) = ecrire_fichier L (prefixe @ ascii ''.pub'') pk e1
      in if \<not> ok1 then (1, e2) else
         let (ok2, e3) = ecrire_fichier L (prefixe @ ascii ''.key'') sk e2 in
         (if ok2 then 0 else 1, e3))"

definition kMagic :: bytes where "kMagic = ascii ''ZIAKEY01''"
definition kOps :: u64 where "kOps = 3"
definition kMem :: u64 where "kMem = 268435456"

text \<open>\<open>getline\<close> on the lines still to be typed; an empty string at the end of the input.\<close>

fun demander_phrase :: "bytes list \<Rightarrow> bytes \<times> bytes list" where
  "demander_phrase [] = ([], [])"
| "demander_phrase (l # ls) = (l, ls)"

definition est_chiffree :: "bytes \<Rightarrow> bool" where
  "est_chiffree brut \<longleftrightarrow> length brut > length kMagic \<and> take (length kMagic) brut = kMagic"

definition proteger :: "lib \<Rightarrow> bytes list \<Rightarrow> bytes \<Rightarrow> bytes \<Rightarrow> env \<Rightarrow> int \<times> env" where
  "proteger L typed entree sortie e =
     (let (r, e1) = lire_fichier L entree e in
      case r of
        None \<Rightarrow> (1, e1)
      | Some sk \<Rightarrow>
          if length sk \<noteq> 64 then (1, e1) else
          let (p1, typed) = demander_phrase typed in
          if length p1 < 12 then (1, e1) else
          let (p2, typed) = demander_phrase typed in
          if p1 \<noteq> p2 then (1, e1) else
          let (d, e2) = draw e1; sel = randombytes_buf L d 16 in
          (case crypto_pwhash L p1 sel kOps kMem of
             None \<Rightarrow> (1, e2)
           | Some cle \<Rightarrow>
               let (d, e3) = draw e2;
                   (entete, st) = (case secretstream_init_push L d cle of
                      Some hs \<Rightarrow> hs | None \<Rightarrow> (take 24 (uninit32 L [0]), uninit32 L [1]));
                   chiffre = (case secretstream_push L st sk 3 of Some c \<Rightarrow> c | None \<Rightarrow> []);
                   (ok, e4) = ecrire_fichier L sortie (kMagic @ sel @ entete @ chiffre) e3
               in (if ok then 0 else 1, e4)))"

definition prefixe_len :: nat where "prefixe_len = 8 + 16 + 24"

definition ouvrir_cle :: "lib \<Rightarrow> bytes list \<Rightarrow> bytes \<Rightarrow> bytes option" where
  "ouvrir_cle L typed sk =
     (if \<not> est_chiffree sk then (if length sk = 64 then Some sk else None)
      else if length sk < prefixe_len + 17 then None else
      let sel = take 16 (drop 8 sk);
          entete = take 24 (drop (8 + 16) sk);
          (phrase, typed) = demander_phrase typed
      in case crypto_pwhash L phrase sel kOps kMem of
           None \<Rightarrow> None
         | Some cle \<Rightarrow>
             (case secretstream_init_pull L entete cle of
                None \<Rightarrow> None
              | Some st \<Rightarrow>
                  (case secretstream_pull L st (drop prefixe_len sk) of
                     None \<Rightarrow> None
                   | Some (clair, tag) \<Rightarrow> if length clair \<noteq> 64 then None else Some clair)))"

fun signer_loop :: "lib \<Rightarrow> bytes \<Rightarrow> bytes list \<Rightarrow> nat \<Rightarrow> env \<Rightarrow> nat \<times> env" where
  "signer_loop L sk [] echecs e = (echecs, e)"
| "signer_loop L sk (fichier # fichiers) echecs e =
     (let (digest, e1) = hacher L fichier e in
      case digest of
        None \<Rightarrow> signer_loop L sk fichiers (Suc echecs) e1
      | Some digest \<Rightarrow>
          let sig = crypto_sign_detached L digest sk;
              (ok, e2) = ecrire_fichier L (fichier @ ascii ''.sig'') sig e1
          in signer_loop L sk fichiers (if ok then echecs else Suc echecs) e2)"

definition signer :: "lib \<Rightarrow> bytes list \<Rightarrow> bytes \<Rightarrow> bytes list \<Rightarrow> env \<Rightarrow> int \<times> env" where
  "signer L typed cle fichiers e =
     (let (r, e1) = lire_fichier L cle e in
      case Option.bind r (ouvrir_cle L typed) of
        None \<Rightarrow> (1, e1)
      | Some sk \<Rightarrow>
          let (echecs, e2) = signer_loop L sk fichiers 0 e1 in (if echecs = 0 then 0 else 1, e2))"

definition verifier :: "lib \<Rightarrow> bytes \<Rightarrow> bytes \<Rightarrow> bytes \<Rightarrow> env \<Rightarrow> int \<times> env" where
  "verifier L clePub fichier sigPath e =
     (let (r, e1) = lire_fichier L clePub e in
      case r of
        None \<Rightarrow> (1, e1)
      | Some pk \<Rightarrow>
          if length pk \<noteq> 32 then (1, e1) else
          let (r, e2) = lire_fichier L sigPath e1 in
          (case r of
             None \<Rightarrow> (1, e2)
           | Some sig \<Rightarrow>
               if length sig \<noteq> 64 then (1, e2) else
               let (digest, e3) = hacher L fichier e2 in
               (case digest of
                  None \<Rightarrow> (1, e3)
                | Some digest \<Rightarrow> (if crypto_sign_verify_detached L sig digest pk then 0 else 2, e3))))"

text \<open>\<open>main\<close> on the arguments after the program name.\<close>

definition main :: "lib \<Rightarrow> bytes list \<Rightarrow> bytes list \<Rightarrow> env \<Rightarrow> int \<times> env" where
  "main L typed args e =
     (if \<not> sodium_init_ok L then (1, e)
      else case args of
        cmd # a # rest \<Rightarrow>
          if cmd = ascii ''keygen'' then keygen L a e
          else if cmd = ascii ''protect'' \<and> rest \<noteq> [] then proteger L typed a (rest ! 0) e
          else if cmd = ascii ''sign'' \<and> rest \<noteq> [] then signer L typed a rest e
          else if cmd = ascii ''verify'' \<and> 2 \<le> length rest then verifier L a (rest ! 0) (rest ! 1) e
          else (2, e)
      | _ \<Rightarrow> (2, e))"

section \<open>Block-wise reading is reading\<close>

lemma fread_eqs:
  assumes "fread L rest e = (blk, rest', bad, e1)"
  shows "blk @ rest' = rest" "\<not> bad \<Longrightarrow> blk = [] \<Longrightarrow> rest = []" "e_files e1 = e_files e"
    "e_draw e1 = e_draw e" "disk_ok L \<Longrightarrow> \<not> bad"
  using assms by (auto simp: fread_def io_def Let_def disk_ok_def kBlock_def)

lemma hash_blocks_eq:
  assumes "sha512_ok L"
  shows "\<exists>r err' e'. hash_blocks L state rest err e = (Some r, err', e') \<and> (err \<longrightarrow> err') \<and>
    (\<not> err' \<longrightarrow> sha512_update L state rest = Some r) \<and>
    (disk_ok L \<longrightarrow> err' = err) \<and> e_files e' = e_files e \<and>
    hash_blocks_unchecked L state rest err e = (r, err', e')"
  using assms
proof (induction L state rest err e rule: hash_blocks.induct)
  case (1 L state rest err e)
  obtain blk rest' bad e1 where f: "fread L rest e = (blk, rest', bad, e1)" by (metis prod.exhaust)
  note [simp] = hash_blocks.simps [of L state rest err e] hash_blocks_unchecked.simps [of L state rest err e] f
    and eqs = fread_eqs [OF f]
  show ?case
  proof (cases "blk = []")
    case True
    then show ?thesis using eqs "1.prems" by (auto simp: sha512_ok_def)
  next
    case False
    obtain s1 s2 where s: "sha512_update L state blk = Some s1" "sha512_update L s1 rest' = Some s2"
      "sha512_update L state rest = Some s2" using "1.prems" eqs(1) unfolding sha512_ok_def by metis
    from "1.IH" [OF f [symmetric] refl refl refl False s(1) "1.prems"] s eqs show ?thesis
      using False by auto
  qed
qed

lemma read_blocks_eq:
  "\<exists>r err' e'. read_blocks L out rest err e = (r, err', e') \<and> (\<not> err' \<longrightarrow> r = out @ rest) \<and>
    (disk_ok L \<longrightarrow> err' = err) \<and> (err \<longrightarrow> err') \<and> e_files e' = e_files e \<and> e_draw e' = e_draw e"
proof (induction L out rest err e rule: read_blocks.induct)
  case (1 L out rest err e)
  obtain blk rest' bad e1 where f: "fread L rest e = (blk, rest', bad, e1)" by (metis prod.exhaust)
  note [simp] = read_blocks.simps [of L out rest err e] f and eqs = fread_eqs [OF f]
  show ?case
  proof (cases "blk = []")
    case True
    then show ?thesis using eqs by auto
  next
    case False
    from "1.IH" [OF f [symmetric] refl refl refl False] eqs(1,3-5) show ?thesis using False by auto
  qed
qed

lemma same_files: "e_files e' = e_files e \<Longrightarrow> get_file e' p = get_file e p"
  by (simp add: get_file_def)

lemma sha512_parts:
  assumes "sha512_ok L" "sha512_init L = Some s" "sha512_update L s m = Some s'"
  shows "sha512_final L s' = Some (SHA512 L m)"
proof -
  obtain d where "sha512_final L s' = Some d" using assms(1) unfolding sha512_ok_def by blast
  with assms(2,3) show ?thesis by (simp add: SHA512_def)
qed

lemma hacher_ok:
  assumes "sha512_ok L" "disk_ok L"
  shows "\<exists>e'. hacher L p e = (map_option (SHA512 L) (get_file e p), e') \<and> e_files e' = e_files e"
proof (cases "get_file e p")
  case None
  then show ?thesis using assms(2) by (auto simp: hacher_def fopen_rb_def io_def disk_ok_def)
next
  case (Some content)
  obtain s where s: "sha512_init L = Some s" using assms(1) by (auto simp: sha512_ok_def)
  obtain r e' where "hash_blocks_unchecked L s content False (e\<lparr>e_io := Suc (e_io e)\<rparr>) = (r, False, e')"
    "sha512_update L s content = Some r" "e_files e' = e_files e"
    using hash_blocks_eq [OF assms(1), of s content False "e\<lparr>e_io := Suc (e_io e)\<rparr>"] assms(2) by auto
  with Some s sha512_parts [OF assms(1) s] assms(2) show ?thesis
    by (auto simp: hacher_def fopen_rb_def io_def disk_ok_def)
qed

lemma lire_ok:
  assumes "disk_ok L"
  shows "\<exists>e'. lire_fichier L p e = (get_file e p, e') \<and> e_files e' = e_files e \<and> e_draw e' = e_draw e"
proof (cases "get_file e p")
  case None
  then show ?thesis using assms by (auto simp: lire_fichier_def fopen_rb_def io_def disk_ok_def)
next
  case (Some content)
  then show ?thesis
    using assms read_blocks_eq [of L "[]" content False "e\<lparr>e_io := Suc (e_io e)\<rparr>"]
    by (auto simp: lire_fichier_def fopen_rb_def io_def disk_ok_def)
qed

lemma ecrire_ok:
  assumes "disk_ok L"
  shows "\<exists>e'. ecrire_fichier L p c e = (True, e') \<and> e_draw e' = e_draw e \<and>
    (\<forall>q. get_file e' q = (if q = p then Some c else get_file e q))"
  using assms by (auto simp: ecrire_fichier_def write_file_def io_def disk_ok_def get_put_file Let_def)

section \<open>Signing\<close>

lemma signer_loop_ok:
  assumes "sha512_ok L" "disk_ok L"
  shows "\<forall>f\<in>set fs. get_file e f \<noteq> None \<Longrightarrow> \<forall>f\<in>set fs. \<forall>g\<in>set fs. f \<noteq> g @ ascii ''.sig'' \<Longrightarrow>
    \<exists>e'. signer_loop L sk fs n e = (n, e') \<and>
      (\<forall>f\<in>set fs. get_file e' (f @ ascii ''.sig'') = Some (crypto_sign_detached L (SHA512 L (the (get_file e f))) sk)) \<and>
      (\<forall>q. q \<notin> (\<lambda>f. f @ ascii ''.sig'') ` set fs \<longrightarrow> get_file e' q = get_file e q)"
proof (induction fs arbitrary: e)
  case Nil
  then show ?case by simp
next
  case (Cons f fs)
  obtain c where c: "get_file e f = Some c" using Cons.prems(1) by auto
  obtain e1 where e1: "hacher L f e = (Some (SHA512 L c), e1)" "e_files e1 = e_files e"
    using hacher_ok [OF assms, of f e] c by auto
  obtain e2 where e2: "ecrire_fichier L (f @ ascii ''.sig'') (crypto_sign_detached L (SHA512 L c) sk) e1 = (True, e2)"
    "\<And>q. get_file e2 q = (if q = f @ ascii ''.sig'' then Some (crypto_sign_detached L (SHA512 L c) sk) else get_file e1 q)"
    using ecrire_ok [OF assms(2)] by blast
  have keep: "get_file e2 g = get_file e g" if "g \<in> set fs" for g
    using e2(2) [of g] Cons.prems(2) that same_files [OF e1(2)] by simp
  obtain e' where e': "signer_loop L sk fs n e2 = (n, e')"
    "\<forall>g\<in>set fs. get_file e' (g @ ascii ''.sig'') = Some (crypto_sign_detached L (SHA512 L (the (get_file e2 g))) sk)"
    "\<forall>q. q \<notin> (\<lambda>f. f @ ascii ''.sig'') ` set fs \<longrightarrow> get_file e' q = get_file e2 q"
    using Cons.IH [of e2] Cons.prems keep by auto
  have "get_file e' (f @ ascii ''.sig'') = Some (crypto_sign_detached L (SHA512 L c) sk)"
  proof (cases "f \<in> set fs")
    case True
    then show ?thesis using e'(2) keep c by auto
  next
    case False
    then have "f @ ascii ''.sig'' \<notin> (\<lambda>f. f @ ascii ''.sig'') ` set fs" by auto
    with e'(3) e2(2) show ?thesis by simp
  qed
  then show ?case
    using e1(1) e2(1) e' keep c e2(2) same_files [OF e1(2)] by (auto simp: image_iff)
qed

lemma main_cases:
  assumes "sodium_init_ok L"
  shows "main L typed [ascii ''keygen'', p] e = keygen L p e"
    and "main L typed [ascii ''protect'', p, q] e = proteger L typed p q e"
    and "fs \<noteq> [] \<Longrightarrow> main L typed (ascii ''sign'' # p # fs) e = signer L typed p fs e"
    and "main L typed [ascii ''verify'', p, q, r] e = verifier L p q r e"
  using assms by (simp_all add: main_def ascii_def)

lemma keygen_ok:
  assumes "disk_ok L" "crypto_sign_keypair L (e_draw e) = (pk, sk)"
  shows "\<exists>e'. keygen L p e = (0, e') \<and>
    (\<forall>q. get_file e' q = (if q = p @ ascii ''.key'' then Some sk else if q = p @ ascii ''.pub'' then Some pk else get_file e q))"
proof -
  obtain e2 where "ecrire_fichier L (p @ ascii ''.pub'') pk (e\<lparr>e_draw := Suc (e_draw e)\<rparr>) = (True, e2)"
    "\<And>q. get_file e2 q = (if q = p @ ascii ''.pub'' then Some pk else get_file e q)"
    using ecrire_ok [OF assms(1), of "p @ ascii ''.pub''" pk "e\<lparr>e_draw := Suc (e_draw e)\<rparr>"] by auto
  moreover obtain e3 where "ecrire_fichier L (p @ ascii ''.key'') sk e2 = (True, e3)"
    "\<And>q. get_file e3 q = (if q = p @ ascii ''.key'' then Some sk else get_file e2 q)"
    using ecrire_ok [OF assms(1), of "p @ ascii ''.key''" sk e2] by auto
  ultimately show ?thesis using assms(2) by (simp add: keygen_def draw_def)
qed

lemma signer_ok:
  assumes "sha512_ok L" "disk_ok L" "get_file e cle = Some k" "ouvrir_cle L typed k = Some sk"
    and "\<forall>f\<in>set fs. get_file e f \<noteq> None" "\<forall>f\<in>set fs. \<forall>g\<in>set fs. f \<noteq> g @ ascii ''.sig''"
  shows "\<exists>e'. signer L typed cle fs e = (0, e') \<and>
      (\<forall>f\<in>set fs. get_file e' (f @ ascii ''.sig'') = Some (crypto_sign_detached L (SHA512 L (the (get_file e f))) sk)) \<and>
      (\<forall>q. q \<notin> (\<lambda>f. f @ ascii ''.sig'') ` set fs \<longrightarrow> get_file e' q = get_file e q)"
proof -
  obtain e1 where e1: "lire_fichier L cle e = (Some k, e1)" "e_files e1 = e_files e"
    using lire_ok [OF assms(2), of cle e] assms(3) by auto
  have files: "get_file e1 q = get_file e q" for q by (rule same_files [OF e1(2)])
  show ?thesis
    using signer_loop_ok [OF assms(1,2), of fs e1 sk 0] assms(4-6) e1(1) by (auto simp: signer_def files)
qed

lemma verifier_ok:
  assumes "sha512_ok L" "disk_ok L" "get_file e pub = Some pk" "length pk = 32"
    and "get_file e sg = Some sig" "length sig = 64" "get_file e f = Some c"
  shows "fst (verifier L pub f sg e) = (if crypto_sign_verify_detached L sig (SHA512 L c) pk then 0 else 2)"
proof -
  obtain e1 where e1: "lire_fichier L pub e = (Some pk, e1)" "e_files e1 = e_files e"
    using lire_ok [OF assms(2), of pub e] assms(3) by auto
  obtain e2 where e2: "lire_fichier L sg e1 = (Some sig, e2)" "e_files e2 = e_files e"
    using lire_ok [OF assms(2), of sg e1] assms(5) same_files [OF e1(2)] e1(2) by auto
  obtain e3 where "hacher L f e2 = (Some (SHA512 L c), e3)"
    using hacher_ok [OF assms(1,2), of f e2] assms(7) same_files [OF e2(2)] by auto
  with e1(1) e2(1) assms(4,6) show ?thesis by (simp add: verifier_def)
qed

lemma zia_verify_iff:
  assumes "sha512_ok L"
  shows "fst (zia_verify_file_signature L True pk path sig e) = Ok () \<Longrightarrow>
      \<exists>c. get_file e (cstr path) = Some c \<and> crypto_sign_verify_detached L sig (SHA512 L c) pk"
    and "disk_ok L \<Longrightarrow> get_file e (cstr path) = Some c \<Longrightarrow>
      fst (zia_verify_file_signature L True pk path sig e) =
        (if crypto_sign_verify_detached L sig (SHA512 L c) pk then Ok () else Err ZIA_ERR_SIGNATURE_INVALID)"
proof -
  let ?e1 = "e\<lparr>e_io := Suc (e_io e)\<rparr>"
  obtain s where s: "sha512_init L = Some s" using assms by (auto simp: sha512_ok_def)
  have h: "\<exists>r err e'. hash_blocks L s c False ?e1 = (Some r, err, e') \<and> (disk_ok L \<longrightarrow> \<not> err) \<and>
    (\<not> err \<longrightarrow> sha512_final L r = Some (SHA512 L c))" for c
    using hash_blocks_eq [OF assms, of s c False ?e1] sha512_parts [OF assms s] by fastforce
  show "\<exists>c. get_file e (cstr path) = Some c \<and> crypto_sign_verify_detached L sig (SHA512 L c) pk"
    if "fst (zia_verify_file_signature L True pk path sig e) = Ok ()"
    using that s h
    by (auto simp: zia_verify_file_signature_def fopen_rb_def io_def split: if_splits option.splits prod.splits)
      (metis (no_types, lifting) fst_conv option.inject prod.inject snd_conv)+
  show "fst (zia_verify_file_signature L True pk path sig e) =
        (if crypto_sign_verify_detached L sig (SHA512 L c) pk then Ok () else Err ZIA_ERR_SIGNATURE_INVALID)"
    if "disk_ok L" "get_file e (cstr path) = Some c"
    using that s h [of c] by (auto simp: zia_verify_file_signature_def fopen_rb_def io_def disk_ok_def)
qed

lemma length_kMagic: "length kMagic = 8"
  by (simp add: kMagic_def ascii_def)

lemma proteger_ok:
  assumes "disk_ok L" "stream_ok L" "pwhash_ok L" "sizes_ok L"
    and "get_file e k = Some sk" "length sk = 64" "12 \<le> length p"
  shows "\<exists>e' enc. proteger L (p # p # rest) k out e = (0, e') \<and> est_chiffree enc \<and>
    ouvrir_cle L (p # rest) enc = Some sk \<and>
    (\<forall>q. get_file e' q = (if q = out then Some enc else get_file e q))"
proof -
  obtain e1 where e1: "lire_fichier L k e = (Some sk, e1)" "e_files e1 = e_files e"
    using lire_ok [OF assms(1), of k e] assms(5) by auto
  let ?sel = "randombytes_buf L (e_draw e1) 16"
  let ?e3 = "e1\<lparr>e_draw := Suc (Suc (e_draw e1))\<rparr>"
  have sel: "length ?sel = 16" by (rule sizes_lens(2) [OF assms(4)])
  obtain cle where cle: "crypto_pwhash L p ?sel kOps kMem = Some cle" "length cle = 32"
    using assms(3) sel unfolding pwhash_ok_def by blast
  obtain h st st' where st: "secretstream_init_push L (Suc (e_draw e1)) cle = Some (h, st)" "length h = 24"
    "secretstream_init_pull L h cle = Some st'"
    "\<forall>m tag. \<exists>c. secretstream_push L st m tag = Some c \<and> length c = length m + 17 \<and> secretstream_pull L st' c = Some (m, tag)"
    using assms(2) cle(2) unfolding stream_ok_def by blast
  obtain c where c: "secretstream_push L st sk 3 = Some c" "length c = 81" "secretstream_pull L st' c = Some (sk, 3)"
    using st(4) [rule_format, of sk 3] assms(6) by auto
  let ?enc = "kMagic @ ?sel @ h @ c"
  obtain e4 where e4: "ecrire_fichier L out ?enc ?e3 = (True, e4)"
    "\<And>q. get_file e4 q = (if q = out then Some ?enc else get_file ?e3 q)"
    using ecrire_ok [OF assms(1)] by blast
  note m = length_kMagic
  have "est_chiffree ?enc" using m sel by (simp add: est_chiffree_def)
  moreover have "ouvrir_cle L (p # rest) ?enc = Some sk"
    using calculation m sel st(2,3) c cle(1) assms(6) by (simp add: ouvrir_cle_def prefixe_len_def)
  moreover have "proteger L (p # p # rest) k out e = (0, e4)"
    using e1(1) assms(6,7) cle(1) st(1) c(1) e4(1) by (simp add: proteger_def draw_def)
  ultimately show ?thesis using e4(2) same_files [OF e1(2)] by auto
qed

section \<open>Properties\<close>

text \<open>
  C26 (safety).  The application accepts an update exactly when the signature verifies on the SHA-512 hash
  of the complete file.  The first half needs nothing of the disk: whatever reads fail or stop short,
  \<open>ZIA_OK\<close> is only returned when the whole content went through the hash; the second half says that on a
  working disk the answer is the verdict on the whole content.
\<close>

theorem update_accepted_iff_signed:
  assumes "sha512_ok L"
  shows "(fst (zia_verify_file_signature L True pk path sig e) = Ok () \<longrightarrow>
      (\<exists>c. get_file e (cstr path) = Some c \<and> crypto_sign_verify_detached L sig (SHA512 L c) pk)) \<and>
    (disk_ok L \<and> get_file e (cstr path) = Some c \<longrightarrow>
      fst (zia_verify_file_signature L True pk path sig e) =
        (if crypto_sign_verify_detached L sig (SHA512 L c) pk then Ok () else Err ZIA_ERR_SIGNATURE_INVALID))"
  using zia_verify_iff [OF assms] by auto

theorem update_accepted_iff_signed_witness:
  "fst (zia_verify_file_signature sample_lib True (replicate 32 5) (ascii ''/u'')
       (replicate 32 5 @ replicate 32 3) (env0\<lparr>e_files := [(ascii ''/u'', [1, 2])]\<rparr>)) = Ok () \<and>
   fst (zia_verify_file_signature sample_lib True (replicate 32 5) (ascii ''/u'')
       (replicate 32 5 @ replicate 32 4) (env0\<lparr>e_files := [(ascii ''/u'', [1, 2])]\<rparr>)) = Err ZIA_ERR_SIGNATURE_INVALID"
proof -
  let ?e = "env0\<lparr>e_files := [(ascii ''/u'', [1, 2])]\<rparr>"
  have f: "get_file ?e (cstr (ascii ''/u'')) = Some [1, 2]" by (simp add: get_file_def ascii_def cstr_def)
  have "crypto_sign_verify_detached sample_lib (replicate 32 5 @ replicate 32 3) (SHA512 sample_lib [1, 2]) (replicate 32 5)"
    "\<not> crypto_sign_verify_detached sample_lib (replicate 32 5 @ replicate 32 4) (SHA512 sample_lib [1, 2]) (replicate 32 5)"
    by (simp_all add: SHA512_def sample_lib_def pad_def sum_list_replicate)
  then show ?thesis
    using update_accepted_iff_signed [OF sample_sha512_ok, of "replicate 32 5" "ascii ''/u''" "replicate 32 5 @ replicate 32 3" ?e "[1, 2]"]
      update_accepted_iff_signed [OF sample_sha512_ok, of "replicate 32 5" "ascii ''/u''" "replicate 32 5 @ replicate 32 4" ?e "[1, 2]"]
      f sample_disk_ok by simp
qed

text \<open>
  C27 (functional).  The release pipeline, through the command line: \<open>keygen\<close>, then \<open>sign\<close> with the new key
  on any number of existing files, end with exit code 0; then \<open>verify\<close> exits with 0 on every file, and the
  application accepts every file under the generated public key with the signature written beside it.  The
  files must not be signatures of one another nor the key files, and the private key must not happen to
  start with the eight bytes that mark an encrypted key.
\<close>

theorem release_pipeline:
  assumes L: "sha512_ok L" "disk_ok L" "sign_ok L" "sizes_ok L" "sodium_init_ok L"
    and fs: "fs \<noteq> []" "\<forall>f\<in>set fs. get_file e f \<noteq> None \<and> 0 \<notin> set f"
    and names: "\<forall>f\<in>set fs. \<forall>g\<in>set fs. f \<noteq> g @ ascii ''.sig''"
    "p @ ascii ''.key'' \<notin> set fs" "p @ ascii ''.pub'' \<notin> set fs"
    and key: "take 8 (snd (crypto_sign_keypair L (e_draw e))) \<noteq> kMagic"
  shows "\<exists>e1 e2. main L [] [ascii ''keygen'', p] e = (0, e1) \<and>
    main L typed (ascii ''sign'' # (p @ ascii ''.key'') # fs) e1 = (0, e2) \<and>
    (\<forall>f\<in>set fs. fst (main L [] [ascii ''verify'', p @ ascii ''.pub'', f, f @ ascii ''.sig''] e2) = 0 \<and>
      (\<exists>pk sig. get_file e1 (p @ ascii ''.pub'') = Some pk \<and> get_file e2 (f @ ascii ''.sig'') = Some sig \<and>
         get_file e2 f = get_file e f \<and>
         fst (zia_verify_file_signature L True pk f sig e2) = Ok ()))"
proof -
  obtain pk sk where kp: "crypto_sign_keypair L (e_draw e) = (pk, sk)" by fastforce
  have len: "length pk = 32" "length sk = 64" using sizes_lens(3,4) [OF L(4), of "e_draw e"] kp by simp_all
  obtain e1 where e1: "keygen L p e = (0, e1)"
    "\<And>q. get_file e1 q = (if q = p @ ascii ''.key'' then Some sk else if q = p @ ascii ''.pub'' then Some pk else get_file e q)"
    using keygen_ok [OF L(2) kp] by blast
  have keep1: "get_file e1 f = get_file e f" if "f \<in> set fs" for f using that names(2,3) e1(2) by auto
  have "ouvrir_cle L typed sk = Some sk"
    using key kp len by (simp add: ouvrir_cle_def est_chiffree_def length_kMagic)
  then obtain e2 where e2: "signer L typed (p @ ascii ''.key'') fs e1 = (0, e2)"
    "\<And>f. f \<in> set fs \<Longrightarrow> get_file e2 (f @ ascii ''.sig'') = Some (crypto_sign_detached L (SHA512 L (the (get_file e f))) sk)"
    "\<And>q. q \<notin> (\<lambda>f. f @ ascii ''.sig'') ` set fs \<Longrightarrow> get_file e2 q = get_file e1 q"
    using signer_ok [OF L(1,2), of e1 "p @ ascii ''.key''" sk typed sk fs] e1(2) fs(2) keep1 names(1) by auto
  have pub: "get_file e2 (p @ ascii ''.pub'') = Some pk" "get_file e1 (p @ ascii ''.pub'') = Some pk"
  proof -
    have "p @ ascii ''.pub'' \<notin> (\<lambda>f. f @ ascii ''.sig'') ` set fs" by (auto simp: ascii_def)
    from e2(3) [OF this] e1(2) [of "p @ ascii ''.pub''"]
    show "get_file e2 (p @ ascii ''.pub'') = Some pk" "get_file e1 (p @ ascii ''.pub'') = Some pk"
      by (simp_all add: ascii_def)
  qed
  have "fst (verifier L (p @ ascii ''.pub'') f (f @ ascii ''.sig'') e2) = 0 \<and> get_file e2 f = get_file e f \<and>
     fst (zia_verify_file_signature L True pk f (crypto_sign_detached L (SHA512 L (the (get_file e f))) sk) e2) = Ok ()"
    if f: "f \<in> set fs" for f
  proof -
    obtain c where c: "get_file e f = Some c" using fs(2) f by auto
    then have c2: "get_file e2 f = Some c" using e2(3) [of f] names(1) f keep1 [OF f] by auto
    have v: "crypto_sign_verify_detached L (crypto_sign_detached L (SHA512 L c) sk) (SHA512 L c) pk"
      using L(3) kp unfolding sign_ok_def by (metis fst_conv snd_conv)
    show ?thesis
      using verifier_ok [OF L(1,2) pub(1) len(1) e2(2) [OF f] _ c2] sizes_lens(5) [OF L(4)] v c c2
        zia_verify_iff(2) [OF L(1,2), of e2 f c] fs(2) f by simp
  qed
  then show ?thesis using e1(1) e2(1,2) pub by (auto simp: main_cases [OF L(5)] fs(1))
qed

theorem release_pipeline_witness:
  "\<exists>e1 e2. main sample_lib [] [ascii ''keygen'', ascii ''k''] (env0\<lparr>e_files := [(ascii ''a'', [1]), (ascii ''b'', [2])]\<rparr>) = (0, e1) \<and>
     main sample_lib [] [ascii ''sign'', ascii ''k.key'', ascii ''a'', ascii ''b''] e1 = (0, e2) \<and>
     fst (main sample_lib [] [ascii ''verify'', ascii ''k.pub'', ascii ''b'', ascii ''b.sig''] e2) = 0"
proof -
  let ?e = "env0\<lparr>e_files := [(ascii ''a'', [1]), (ascii ''b'', [2])]\<rparr>"
  have i: "sodium_init_ok sample_lib" by (simp add: sample_lib_def)
  have "hd (take 8 (snd (crypto_sign_keypair sample_lib (e_draw ?e)))) \<noteq> hd kMagic"
    by (simp add: sample_lib_def env0_def kMagic_def ascii_def)
  then have m: "take 8 (snd (crypto_sign_keypair sample_lib (e_draw ?e))) \<noteq> kMagic" by (rule contrapos_nn) (rule arg_cong)
  from release_pipeline [OF sample_sha512_ok sample_disk_ok sample_sign_ok sample_sizes_ok i _ _ _ _ _ m,
      where fs = "[ascii ''a'', ascii ''b'']" and p = "ascii ''k''" and typed = "[]"]
  show ?thesis by (auto simp: ascii_def get_file_def)
qed

text \<open>
  Protecting the private key: with a passphrase of at least 12 characters typed twice the
  same, \<open>protect\<close> exits with 0 and the encrypted file, opened with that passphrase, is the key itself, so
  that \<open>sign\<close> with the protected key writes for every file the signature the plain key gives.  With a shorter
  passphrase or a different confirmation the exit code is 1 and no file changes.
\<close>

lemma protected_key_signs:
  assumes L: "sha512_ok L" "disk_ok L" "stream_ok L" "pwhash_ok L" "sizes_ok L" "sodium_init_ok L"
    and k: "get_file e k = Some sk" "length sk = 64"
    and fs: "fs \<noteq> []" "\<forall>f\<in>set fs. get_file e f \<noteq> None \<and> f \<noteq> out"
    "\<forall>f\<in>set fs. \<forall>g\<in>set fs. f \<noteq> g @ ascii ''.sig''"
  shows "(12 \<le> length p \<longrightarrow> (\<exists>e1 e2. main L [p, p] [ascii ''protect'', k, out] e = (0, e1) \<and>
      main L [p] (ascii ''sign'' # out # fs) e1 = (0, e2) \<and>
      (\<forall>f\<in>set fs. get_file e2 (f @ ascii ''.sig'') =
         Some (crypto_sign_detached L (SHA512 L (the (get_file e f))) sk)))) \<and>
    (length p < 12 \<or> p \<noteq> p' \<longrightarrow> (\<exists>e1. main L [p, p'] [ascii ''protect'', k, out] e = (1, e1) \<and> e_files e1 = e_files e))"
proof (intro conjI impI)
  assume "12 \<le> length p"
  from proteger_ok [OF L(2-5) k this, of "[]" out] obtain e1 enc where e1: "proteger L [p, p] k out e = (0, e1)"
    "ouvrir_cle L [p] enc = Some sk" "\<And>q. get_file e1 q = (if q = out then Some enc else get_file e q)" by blast
  then show "\<exists>e1 e2. main L [p, p] [ascii ''protect'', k, out] e = (0, e1) \<and>
      main L [p] (ascii ''sign'' # out # fs) e1 = (0, e2) \<and>
      (\<forall>f\<in>set fs. get_file e2 (f @ ascii ''.sig'') = Some (crypto_sign_detached L (SHA512 L (the (get_file e f))) sk))"
    using signer_ok [OF L(1,2), of e1 out enc "[p]" sk fs] fs by (auto simp: main_cases [OF L(6)])
next
  assume "length p < 12 \<or> p \<noteq> p'"
  moreover obtain e1 where "lire_fichier L k e = (Some sk, e1)" "e_files e1 = e_files e"
    using lire_ok [OF L(2), of k e] k by auto
  ultimately show "\<exists>e1. main L [p, p'] [ascii ''protect'', k, out] e = (1, e1) \<and> e_files e1 = e_files e"
    using k by (auto simp: main_cases [OF L(6)] proteger_def)
qed

end
