(* ===== verification/Engine_State.thy ===== *)
theory Engine_State
  imports Primitives Codec
begin

text \<open>
  \<open>src/engine_internal.hpp\<close>: the state of an engine, shared by the identity, handshake, group, storage
  and backup code.  A \<open>std::optional\<close> is an \<open>option\<close>, a \<open>std::vector\<close> a list, a \<open>SecureBuffer\<close> its bytes
  (empty when never allocated).
\<close>

record ZiaSignedPrekey =
  spk_public_key :: bytes
  spk_private_key :: bytes
  spk_signature :: bytes

record ZiaPqPrekey =
  pq_public_key :: bytes
  pq_private_key :: bytes
  pq_signature :: bytes

record ZiaOneTimePrekey =
  otpk_public_key :: bytes
  otpk_private_key :: bytes
  otpk_consumed :: bool

record ZiaSenderSkippedKey =
  ssk_iteration :: u32
  ssk_key :: bytes

record ZiaSenderKey =
  snk_group_id :: bytes
  snk_sender_id :: bytes
  snk_chain_key :: bytes
  snk_iteration :: u32
  snk_signing_public :: bytes
  snk_signing_private :: bytes
  snk_skipped :: "ZiaSenderSkippedKey list"

record ZiaEngine =
  en_storage_path :: bytes
  en_last_error :: bytes
  en_has_identity :: bool
  en_identity_public :: bytes
  en_identity_private :: bytes
  en_signed_prekey :: "ZiaSignedPrekey option"
  en_pq_prekey :: "ZiaPqPrekey option"
  en_one_time_prekeys :: "ZiaOneTimePrekey list"
  en_require_pq :: bool
  en_sender_keys :: "ZiaSenderKey list"

text \<open>\<open>new ZiaEngine()\<close>.\<close>

definition new_ZiaEngine :: ZiaEngine where
  "new_ZiaEngine =
     \<lparr>en_storage_path = [], en_last_error = [], en_has_identity = False,
      en_identity_public = replicate 32 0, en_identity_private = [], en_signed_prekey = None,
      en_pq_prekey = None, en_one_time_prekeys = [], en_require_pq = False, en_sender_keys = []\<rparr>"

section \<open>Well-formed key material\<close>

definition wf_spk :: "ZiaSignedPrekey \<Rightarrow> bool" where
  "wf_spk k \<longleftrightarrow> length (spk_public_key k) = 32 \<and> length (spk_private_key k) = 32 \<and> length (spk_signature k) = 64"

definition wf_pq :: "ZiaPqPrekey \<Rightarrow> bool" where
  "wf_pq k \<longleftrightarrow> length (pq_public_key k) = 1184 \<and> length (pq_private_key k) = 2400 \<and> length (pq_signature k) = 64"

definition wf_otpk :: "ZiaOneTimePrekey \<Rightarrow> bool" where
  "wf_otpk k \<longleftrightarrow> length (otpk_public_key k) = 32 \<and> length (otpk_private_key k) = 32"

text \<open>
  The identity part of an engine: sizes, and a number of one-time prekeys that fits the 32-bit count of
  the file format.
\<close>

definition wf_engine :: "ZiaEngine \<Rightarrow> bool" where
  "wf_engine en \<longleftrightarrow>
     length (en_identity_public en) = 32 \<and>
     (en_has_identity en \<longrightarrow> length (en_identity_private en) = 64) \<and>
     pred_option wf_spk (en_signed_prekey en) \<and> pred_option wf_pq (en_pq_prekey en) \<and>
     list_all wf_otpk (en_one_time_prekeys en) \<and> length (en_one_time_prekeys en) < 2 ^ 32"

lemma new_engine_wf: "wf_engine new_ZiaEngine"
  by (simp add: wf_engine_def new_ZiaEngine_def)

end
