(* ===== verification/Identity_Store.thy ===== *)
theory Identity_Store
  imports Engine_State Secret_Stream "HOL-Library.Monad_Syntax"
begin

text \<open>
  \<open>src/storage/identity_store.cpp\<close>: the identity file.  \<open>deserialize_identity\<close> fills the engine as it
  reads and stops at the first field that is missing, so it returns the engine as it is left together
  with its verdict.  Each part below takes the bytes left to read and returns the engine and, when it
  did not fail, the bytes left.
\<close>

section \<open>Format\<close>

definition kFormatVersion :: u8 where "kFormatVersion = 2"

definition enc_otpk :: "ZiaOneTimePrekey \<Rightarrow> bytes" where
  "enc_otpk k = otpk_public_key k @ otpk_private_key k @ [if otpk_consumed k then 1 else 0]"

definition identity_section :: "ZiaEngine \<Rightarrow> bytes" where
  "identity_section en =
     [if en_has_identity en then 1 else 0] @ en_identity_public en @
     (if en_has_identity en then take 64 (en_identity_private en) else [])"

definition spk_section :: "ZiaEngine \<Rightarrow> bytes" where
  "spk_section en =
     (case en_signed_prekey en of
        None \<Rightarrow> [0]
      | Some k \<Rightarrow> [1] @ spk_public_key k @ take 32 (spk_private_key k) @ spk_signature k)"

definition pq_section :: "ZiaEngine \<Rightarrow> bytes" where
  "pq_section en =
     (case en_pq_prekey en of
        None \<Rightarrow> [0]
      | Some k \<Rightarrow> [1] @ pq_public_key k @ take 2400 (pq_private_key k) @ pq_signature k)"

definition otpk_section :: "ZiaEngine \<Rightarrow> bytes" where
  "otpk_section en =
     write_u32_le (of_nat (length (en_one_time_prekeys en))) @
     concat (map enc_otpk (en_one_time_prekeys en))"

definition serialize_identity :: "ZiaEngine \<Rightarrow> bytes" where
  "serialize_identity en =
     [kFormatVersion] @ identity_section en @ spk_section en @ pq_section en @ otpk_section en"

section \<open>Reading it back\<close>

definition identity_part :: "ZiaEngine \<Rightarrow> bytes \<Rightarrow> ZiaEngine \<times> bytes option" where
  "identity_part en r =
     (case reader_read 1 r of
        None \<Rightarrow> (en, None)
      | Some (flag, r1) \<Rightarrow>
          let en1 = en\<lparr>en_has_identity := (hd flag \<noteq> 0)\<rparr> in
          (case reader_read 32 r1 of
             None \<Rightarrow> (en1, None)
           | Some (pub, r2) \<Rightarrow>
               let en2 = en1\<lparr>en_identity_public := pub\<rparr> in
               if \<not> en_has_identity en2 then (en2, Some r2)
               else (case reader_read 64 r2 of
                  None \<Rightarrow> (en2\<lparr>en_identity_private := SecureBuffer 64\<rparr>, None)
                | Some (priv, r3) \<Rightarrow> (en2\<lparr>en_identity_private := priv\<rparr>, Some r3))))"

definition spk_part :: "ZiaEngine \<Rightarrow> bytes \<Rightarrow> ZiaEngine \<times> bytes option" where
  "spk_part en r =
     (case reader_read 1 r of
        None \<Rightarrow> (en, None)
      | Some (flag, r1) \<Rightarrow>
          if hd flag = 0 then (en\<lparr>en_signed_prekey := None\<rparr>, Some r1) else
          (case do { (pub, r2) \<leftarrow> reader_read 32 r1; (priv, r3) \<leftarrow> reader_read 32 r2;
                     (sig, r4) \<leftarrow> reader_read 64 r3;
                     Some (\<lparr>spk_public_key = pub, spk_private_key = priv, spk_signature = sig\<rparr>, r4) } of
             None \<Rightarrow> (en, None)
           | Some (spk, r4) \<Rightarrow> (en\<lparr>en_signed_prekey := Some spk\<rparr>, Some r4)))"

definition pq_part :: "u8 \<Rightarrow> ZiaEngine \<Rightarrow> bytes \<Rightarrow> ZiaEngine \<times> bytes option" where
  "pq_part version en0 r =
     (let en = en0\<lparr>en_pq_prekey := None\<rparr> in
      if version < 2 then (en, Some r) else
      case reader_read 1 r of
        None \<Rightarrow> (en, None)
      | Some (flag, r1) \<Rightarrow>
          if hd flag = 0 then (en, Some r1) else
          (case do { (pub, r2) \<leftarrow> reader_read 1184 r1; (priv, r3) \<leftarrow> reader_read 2400 r2;
                     (sig, r4) \<leftarrow> reader_read 64 r3;
                     Some (\<lparr>pq_public_key = pub, pq_private_key = priv, pq_signature = sig\<rparr>, r4) } of
             None \<Rightarrow> (en, None)
           | Some (pq, r4) \<Rightarrow> (en\<lparr>en_pq_prekey := Some pq\<rparr>, Some r4)))"

definition dec_otpk :: "bytes \<Rightarrow> (ZiaOneTimePrekey \<times> bytes) option" where
  "dec_otpk r =
     do { (pub, r1) \<leftarrow> reader_read 32 r; (priv, r2) \<leftarrow> reader_read 32 r1; (consumed, r3) \<leftarrow> reader_read 1 r2;
          Some (\<lparr>otpk_public_key = pub, otpk_private_key = priv, otpk_consumed = (hd consumed \<noteq> 0)\<rparr>, r3) }"

primrec otpk_loop :: "nat \<Rightarrow> ZiaEngine \<Rightarrow> bytes \<Rightarrow> ZiaEngine \<times> bytes option" where
  "otpk_loop 0 en r = (en, Some r)"
| "otpk_loop (Suc n) en r =
     (case dec_otpk r of
        None \<Rightarrow> (en, None)
      | Some (k, r1) \<Rightarrow> otpk_loop n (en\<lparr>en_one_time_prekeys := en_one_time_prekeys en @ [k]\<rparr>) r1)"

definition otpk_part :: "ZiaEngine \<Rightarrow> bytes \<Rightarrow> ZiaEngine \<times> bytes option" where
  "otpk_part en r =
     (case reader_u32 r of
        None \<Rightarrow> (en, None)
      | Some (count, r1) \<Rightarrow> otpk_loop (unat count) (en\<lparr>en_one_time_prekeys := []\<rparr>) r1)"

text \<open>Running one part after the other, stopping at the first failure.\<close>

definition then_part ::
  "ZiaEngine \<times> bytes option \<Rightarrow> (ZiaEngine \<Rightarrow> bytes \<Rightarrow> ZiaEngine \<times> bytes option) \<Rightarrow> ZiaEngine \<times> bytes option" where
  "then_part p f = (case p of (en, None) \<Rightarrow> (en, None) | (en, Some r) \<Rightarrow> f en r)"

definition deserialize_identity :: "bytes \<Rightarrow> ZiaEngine \<Rightarrow> bool \<times> ZiaEngine" where
  "deserialize_identity data en =
     (case reader_read 1 data of
        None \<Rightarrow> (False, en)
      | Some (v, r) \<Rightarrow>
          let version = hd v in
          if version < 1 \<or> version > kFormatVersion then (False, en)
          else case then_part (then_part (then_part (identity_part en r) spk_part) (pq_part version)) otpk_part of
            (en', None) \<Rightarrow> (False, en')
          | (en', Some rest) \<Rightarrow> (rest = [], en'))"

section \<open>The file\<close>

definition identity_path :: "bytes \<Rightarrow> bytes" where
  "identity_path storage_path = path_join storage_path (ascii ''identity.zia'')"

definition save_identity :: "lib \<Rightarrow> ZiaEngine \<Rightarrow> env \<Rightarrow> bool \<times> env" where
  "save_identity L en e =
     (if en_storage_path en = [] then (False, e) else
      let (mk, e1) = master_key L e in
      case mk of
        None \<Rightarrow> (False, e1)
      | Some key \<Rightarrow>
          let (ok, e2) = create_directories L e1 in
          if \<not> ok then (False, e2) else
          let (sealed, e3) = stream_seal L key (serialize_identity en) e2 in
          (case sealed of
             None \<Rightarrow> (False, e3)
           | Some (header, cipher) \<Rightarrow>
               let final_path = identity_path (en_storage_path en) in
               replace_file L (final_path @ ascii ''.tmp'') final_path (header @ cipher) e3))"

text \<open>
  Serialising reads 64 bytes of the private key of an engine that has an identity.  \<open>save_crashes\<close> is the case
  in which \<open>save_identity\<close> gets that far and the key is an empty \<open>SecureBuffer\<close>, a null pointer.
\<close>

definition save_crashes :: "lib \<Rightarrow> ZiaEngine \<Rightarrow> env \<Rightarrow> bool" where
  "save_crashes L en e \<longleftrightarrow>
     en_storage_path en \<noteq> [] \<and> en_has_identity en \<and> length (en_identity_private en) < 64 \<and>
     (let (mk, e1) = master_key L e in mk \<noteq> None \<and> fst (create_directories L e1))"

definition load_identity :: "lib \<Rightarrow> ZiaEngine \<Rightarrow> env \<Rightarrow> bool \<times> ZiaEngine \<times> env" where
  "load_identity L en e =
     (if en_storage_path en = [] then (False, en, e) else
      let (content, e1) = read_file L (identity_path (en_storage_path en)) e in
      case content of
        None \<Rightarrow> (False, en, e1)
      | Some raw \<Rightarrow>
          if length raw < kMin then (False, en, e1) else
          let (mk, e2) = master_key L e1 in
          (case mk of
             None \<Rightarrow> (False, en, e2)
           | Some key \<Rightarrow>
               (case stream_open L key raw of
                  None \<Rightarrow> (False, en, e2)
                | Some plain \<Rightarrow>
                    let (ok, en') = deserialize_identity plain en in (ok, en', e2))))"

section \<open>One-time prekeys as records\<close>

interpretation opc: record_codec wf_otpk enc_otpk dec_otpk 65
proof unfold_locales
  show "length (enc_otpk x) = 65" if "wf_otpk x" for x
    using that by (simp add: enc_otpk_def wf_otpk_def)
  show "dec_otpk (enc_otpk x @ r) = Some (x, r)" if "wf_otpk x" for x r
    using that by (simp add: dec_otpk_def enc_otpk_def wf_otpk_def)
  show "wf_otpk x \<and> length bs = 65 + length r" if "dec_otpk bs = Some (x, r)" for bs x r
    using that by (auto simp: dec_otpk_def wf_otpk_def reader_read_Some bind_eq_Some_conv)
qed

lemma otpk_loop_many:
  "read_many dec_otpk n r = Some (ks, r') \<Longrightarrow>
     otpk_loop n en r = (en\<lparr>en_one_time_prekeys := en_one_time_prekeys en @ ks\<rparr>, Some r')"
  by (induction n arbitrary: en r ks) (auto split: option.splits)

section \<open>Each part reads what its section wrote\<close>

lemma identity_part_section:
  assumes "wf_engine en"
  shows "identity_part en0 (identity_section en @ r) =
    (en0\<lparr>en_has_identity := en_has_identity en, en_identity_public := en_identity_public en,
         en_identity_private := if en_has_identity en then en_identity_private en else en_identity_private en0\<rparr>,
     Some r)"
  using assms by (simp add: identity_part_def identity_section_def wf_engine_def)

lemma spk_part_section:
  assumes "wf_engine en"
  shows "spk_part en0 (spk_section en @ r) = (en0\<lparr>en_signed_prekey := en_signed_prekey en\<rparr>, Some r)"
  using assms
  by (cases "en_signed_prekey en") (simp_all add: spk_part_def spk_section_def wf_engine_def wf_spk_def)

lemma pq_part_section:
  assumes "wf_engine en"
  shows "pq_part 2 en0 (pq_section en @ r) = (en0\<lparr>en_pq_prekey := en_pq_prekey en\<rparr>, Some r)"
  using assms
  by (cases "en_pq_prekey en") (simp_all add: pq_part_def pq_section_def wf_engine_def wf_pq_def)

lemma pq_part_v1: "pq_part 1 en0 r = (en0\<lparr>en_pq_prekey := None\<rparr>, Some r)"
  by (simp add: pq_part_def)

lemma otpk_part_section:
  assumes "wf_engine en"
  shows "otpk_part en0 (otpk_section en @ r) = (en0\<lparr>en_one_time_prekeys := en_one_time_prekeys en\<rparr>, Some r)"
proof -
  let ?ks = "en_one_time_prekeys en"
  have "unat (of_nat (length ?ks) :: u32) = length ?ks"
    using assms by (simp add: wf_engine_def unat_of_nat)
  moreover have "read_many dec_otpk (length ?ks) (concat (map enc_otpk ?ks) @ r) = Some (?ks, r)"
    by (rule opc.read_many_enc) (use assms in \<open>simp add: wf_engine_def\<close>)
  ultimately show ?thesis
    using otpk_loop_many by (simp add: otpk_part_def otpk_section_def)
qed

text \<open>What reading the identity of \<open>en\<close> leaves in \<open>en0\<close>.\<close>

definition with_identity :: "ZiaEngine \<Rightarrow> ZiaPqPrekey option \<Rightarrow> ZiaEngine \<Rightarrow> ZiaEngine" where
  "with_identity en pq en0 = en0
     \<lparr>en_has_identity := en_has_identity en, en_identity_public := en_identity_public en,
      en_identity_private := if en_has_identity en then en_identity_private en else en_identity_private en0,
      en_signed_prekey := en_signed_prekey en, en_pq_prekey := pq,
      en_one_time_prekeys := en_one_time_prekeys en\<rparr>"

lemma deserialize_serialize_identity:
  assumes "wf_engine en"
  shows "deserialize_identity (serialize_identity en @ x) en0 = (x = [], with_identity en (en_pq_prekey en) en0)"
  using assms otpk_part_section [OF assms]
  by (simp add: deserialize_identity_def serialize_identity_def kFormatVersion_def
      then_part_def identity_part_section spk_part_section pq_part_section with_identity_def)

section \<open>Properties\<close>

text \<open>The file of the first format version: no post-quantum section.\<close>

definition identity_v1 :: "ZiaEngine \<Rightarrow> bytes" where
  "identity_v1 en = [1] @ identity_section en @ spk_section en @ otpk_section en"

text \<open>
  The identity format: what \<open>serialize_identity\<close> writes, \<open>deserialize_identity\<close> accepts,
  restoring identity, signed prekey, post-quantum prekey and one-time prekeys and leaving the rest of
  the engine alone; trailing bytes are refused; and a file of the first format version, which has no
  post-quantum section, is still accepted, giving an engine without post-quantum prekey.
\<close>

lemma identity_format_roundtrip:
  assumes "wf_engine en"
  shows "deserialize_identity (serialize_identity en) en0 = (True, with_identity en (en_pq_prekey en) en0) \<and>
    (x \<noteq> [] \<longrightarrow> fst (deserialize_identity (serialize_identity en @ x) en0) = False) \<and>
    deserialize_identity (identity_v1 en) en0 = (True, with_identity en None en0)"
proof (intro conjI impI)
  show "deserialize_identity (serialize_identity en) en0 = (True, with_identity en (en_pq_prekey en) en0)"
    using deserialize_serialize_identity [OF assms, of "[]"] by simp
  show "fst (deserialize_identity (serialize_identity en @ x) en0) = False" if "x \<noteq> []"
    using deserialize_serialize_identity [OF assms] that by simp
  show "deserialize_identity (identity_v1 en) en0 = (True, with_identity en None en0)"
    using otpk_part_section [OF assms, of _ "[]"]
    by (simp add: deserialize_identity_def identity_v1_def kFormatVersion_def then_part_def
        identity_part_section [OF assms] spk_part_section [OF assms] pq_part_v1 with_identity_def)
qed

definition sample_engine :: ZiaEngine where
  "sample_engine = new_ZiaEngine
     \<lparr>en_storage_path := ascii ''/z'', en_has_identity := True, en_identity_public := replicate 32 1,
      en_identity_private := replicate 64 1,
      en_signed_prekey := Some \<lparr>spk_public_key = replicate 32 2, spk_private_key = replicate 32 2,
        spk_signature = replicate 64 3\<rparr>,
      en_one_time_prekeys := [\<lparr>otpk_public_key = replicate 32 4, otpk_private_key = replicate 32 4,
        otpk_consumed = True\<rparr>]\<rparr>"

lemma sample_engine_wf: "wf_engine sample_engine"
  by (simp add: sample_engine_def new_ZiaEngine_def wf_engine_def wf_spk_def wf_otpk_def)

lemma tmp_neq: "p @ ascii ''.tmp'' \<noteq> p"
  by (simp add: ascii_def)

lemma save_identity_ok:
  assumes "disk_ok L" "stream_ok L" "vault_ready L e" "en_storage_path en \<noteq> []"
  obtains k raw e' where "save_identity L en e = (True, e')" "vault_holds L e' k"
    "get_file e' (identity_path (en_storage_path en)) = Some raw" "kMin \<le> length raw"
    "stream_open L k raw = Some (serialize_identity en)"
proof -
  obtain k e1 where k: "ensure_master_key L e = (Some k, e1)" "vault_holds L e1 k"
    using mkey.get_ready [OF assms(3)] by blast
  have len: "length k = 32" by (rule mkey.holds_len [OF k(2)])
  let ?e2 = "e1\<lparr>e_io := Suc (e_io e1)\<rparr>"
  let ?p = "identity_path (en_storage_path en)"
  obtain header cipher where s: "stream_seal L k (serialize_identity en) ?e2 =
      (Some (header, cipher), ?e2\<lparr>e_draw := Suc (e_draw ?e2)\<rparr>)"
    "length (header @ cipher) = length (serialize_identity en) + kMin"
    "stream_open L k (header @ cipher) = Some (serialize_identity en)"
    by (rule stream_seal_ok [OF assms(2) len])
  obtain e' where e': "replace_file L (?p @ ascii ''.tmp'') ?p (header @ cipher) (?e2\<lparr>e_draw := Suc (e_draw ?e2)\<rparr>) = (True, e')"
    "get_file e' ?p = Some (header @ cipher)" "e_secret e' = e_secret (?e2\<lparr>e_draw := Suc (e_draw ?e2)\<rparr>)"
    by (rule replace_file_ok [OF assms(1) tmp_neq]) blast
  have "save_identity L en e = (True, e')"
    using assms(1,4) k(1) s(1) e'(1)
    by (simp add: save_identity_def create_directories_def io_def disk_ok_def Let_def)
  moreover have "vault_holds L e' k" using vault_holds_cong [OF k(2)] e'(3) by simp
  ultimately show thesis using e' s that by simp
qed

lemma load_identity_ok:
  assumes "disk_ok L" "vault_holds L e k" "en_storage_path en0 \<noteq> []"
    and "get_file e (identity_path (en_storage_path en0)) = Some raw" "kMin \<le> length raw"
    and "stream_open L k raw = Some (serialize_identity en)" "wf_engine en"
  shows "\<exists>e'. load_identity L en0 e = (True, with_identity en (en_pq_prekey en) en0, e') \<and> e_secret e' = e_secret e"
proof -
  have "vault_holds L (e\<lparr>e_io := Suc (e_io e)\<rparr>) k" using assms(2) by (simp add: vault_holds_def)
  from ensure_holds [OF this] assms deserialize_serialize_identity [OF assms(7), of "[]" en0]
  show ?thesis by (simp add: load_identity_def read_file_ok)
qed

text \<open>
  The identity survives a restart: on a working disk and key store \<open>save_identity\<close>
  succeeds, and \<open>load_identity\<close> into any engine with the same storage path, as long as the identity file and
  the stored master key are untouched, restores it.
\<close>

lemma identity_survives_restart:
  assumes "disk_ok L" "stream_ok L" "vault_ready L e" "en_storage_path en \<noteq> []" "wf_engine en"
    and "save_identity L en e = (r, e1)" "en_storage_path en0 = en_storage_path en"
    and "e_secret e2 = e_secret e1" "\<And>p. get_file e2 p = get_file e1 p"
  shows "r \<and> (\<exists>e3. load_identity L en0 e2 = (True, with_identity en (en_pq_prekey en) en0, e3))"
proof -
  obtain k raw e' where s: "save_identity L en e = (True, e')" "vault_holds L e' k"
    "get_file e' (identity_path (en_storage_path en)) = Some raw" "kMin \<le> length raw"
    "stream_open L k raw = Some (serialize_identity en)"
    by (rule save_identity_ok [OF assms(1-4)])
  have "vault_holds L e2 k" using vault_holds_cong [OF s(2)] assms(6,8) s(1) by simp
  from load_identity_ok [OF assms(1) this, of en0 raw en] s assms show ?thesis by auto
qed

text \<open>
  Writing is atomic as far as errors are noticed: when \<open>save_identity\<close> reports failure,
  wherever it failed, the identity file is the one that was there before.
\<close>

lemma failed_save_keeps_identity_file:
  assumes "save_identity L en e = (False, e')"
  shows "get_file e' (identity_path (en_storage_path en)) = get_file e (identity_path (en_storage_path en))"
proof -
  let ?p = "identity_path (en_storage_path en)"
  obtain mk_r e1 where m: "ensure_master_key L e = (mk_r, e1)" by fastforce
  have f1: "get_file e1 ?p = get_file e ?p" using ensure_files [of L e ?p] m by simp
  show ?thesis
  proof (cases "en_storage_path en = [] \<or> mk_r = None \<or> \<not> io_ok L (e_io e1)")
    case True
    with assms m f1 show ?thesis
      by (auto simp: save_identity_def create_directories_def io_def split: option.splits if_splits)
  next
    case False
    then obtain key where key: "mk_r = Some key" by auto
    let ?e2 = "e1\<lparr>e_io := Suc (e_io e1)\<rparr>"
    obtain sl e3 where s: "stream_seal L key (serialize_identity en) ?e2 = (sl, e3)" by fastforce
    have f3: "get_file e3 ?p = get_file e ?p"
      using stream_seal_frames(1) [of L key "serialize_identity en" ?e2 ?p] s f1 by simp
    have run: "(case sl of None \<Rightarrow> (False, e3)
        | Some (h, c) \<Rightarrow> replace_file L (?p @ ascii ''.tmp'') ?p (h @ c) e3) = (False, e')"
      using assms m key False s
      by (cases sl) (auto simp: save_identity_def create_directories_def io_def Let_def)
    show ?thesis
    proof (cases sl)
      case None
      with run f3 show ?thesis by simp
    next
      case (Some hc)
      then obtain h c where "replace_file L (?p @ ascii ''.tmp'') ?p (h @ c) e3 = (False, e')"
        using run by (cases hc) auto
      from replace_file_fails [OF tmp_neq this] f3 show ?thesis by simp
    qed
  qed
qed

text \<open>
  But not every error is noticed: \<open>f.good()\<close> is tested before the stream is destroyed, and a
  buffered write that only fails then (a full disk) goes unseen.  The truncated temporary file is
  renamed over the identity, \<open>save_identity\<close> reports success, and the next start cannot load it.
\<close>

lemma unseen_flush_failure_loses_identity:
  assumes "stream_ok L" "vault_holds L e k" "en_storage_path en \<noteq> []" "en_storage_path en0 = en_storage_path en"
    and "\<And>i. io_ok L i \<longleftrightarrow> i \<noteq> e_io e + 3" "io_written L (e_io e + 3) < kMin"
  shows "\<exists>e'. save_identity L en e = (True, e') \<and> \<not> fst (load_identity L en0 e')"
proof -
  have len: "length k = 32" by (rule mkey.holds_len [OF assms(2)])
  let ?e1 = "e\<lparr>e_service := Suc (Suc (e_service e))\<rparr>"
  let ?e2 = "?e1\<lparr>e_io := Suc (e_io e)\<rparr>"
  let ?p = "identity_path (en_storage_path en)"
  obtain header cipher where s: "stream_seal L k (serialize_identity en) ?e2 =
      (Some (header, cipher), ?e2\<lparr>e_draw := Suc (e_draw ?e2)\<rparr>)"
    by (rule stream_seal_ok [OF assms(1) len])
  have io: "io_ok L (e_io e)" "io_ok L (Suc (e_io e))" "io_ok L (Suc (Suc (e_io e)))"
    "\<not> io_ok L (Suc (Suc (Suc (e_io e))))" "io_ok L (Suc (Suc (Suc (Suc (e_io e)))))"
    "io_ok L (Suc (Suc (Suc (Suc (Suc (e_io e))))))"
    by (simp_all add: assms(5))
  obtain e' where e': "save_identity L en e = (True, e')"
    "get_file e' ?p = Some (take (io_written L (e_io e + 3)) (header @ cipher))"
    "e_io e' = Suc (Suc (Suc (Suc (Suc (e_io e)))))"
    using io s ensure_holds [OF assms(2)] assms(3) tmp_neq [of ?p]
    by (simp add: save_identity_def create_directories_def io_def replace_file_def write_file_def
        rename_file_def get_put_file get_drop_file numeral_3_eq_3 Let_def)
  moreover define raw where "raw = take (io_written L (e_io e + 3)) (header @ cipher)"
  ultimately have "get_file e' ?p = Some raw" "length raw < kMin" using assms(6) by simp_all
  then have "\<not> fst (load_identity L en0 e')"
    using io e' assms(3,4) by (simp add: load_identity_def read_file_def io_def)
  with e'(1) show ?thesis by blast
qed

end
