(* ===== verification/Identity.thy ===== *)
theory Identity
  imports Identity_Store
begin

text \<open>
  \<open>src/engine.cpp\<close> and \<open>src/identity.cpp\<close>: starting an engine, generating the identity, signing with it.
\<close>

section \<open>Engine\<close>

text \<open>\<open>zia_engine_init\<close>: the engine (none when libsodium does not start), the status, the environment.
  The storage path is a C string.\<close>

definition zia_engine_init :: "lib \<Rightarrow> bytes option \<Rightarrow> env \<Rightarrow> ZiaEngine option \<times> ZiaStatus \<times> env" where
  "zia_engine_init L storage_path e =
     (if \<not> sodium_init_ok L then (None, ZIA_ERR_CRYPTO_FAILURE, e) else
      let en = new_ZiaEngine\<lparr>en_storage_path := (case storage_path of Some p \<Rightarrow> cstr p | None \<Rightarrow> [])\<rparr>;
          (_, en', e1) = load_identity L en e
      in (Some en', ZIA_OK, e1))"

definition zia_last_error :: "ZiaEngine option \<Rightarrow> bytes" where
  "zia_last_error en = (case en of Some x \<Rightarrow> cstr (en_last_error x) | None \<Rightarrow> [])"

section \<open>Identity\<close>

text \<open>The message is UTF-8 text: each accented letter is two bytes.\<close>

definition msg_not_persisted :: bytes where
  "msg_not_persisted =
     ascii ''identit'' @ [0xC3, 0xA9] @ ascii '' non persist'' @ [0xC3, 0xA9] @
     ascii ''e (coffre-fort indisponible)''"

definition zia_identity_generate :: "lib \<Rightarrow> bool \<Rightarrow> ZiaEngine \<Rightarrow> env \<Rightarrow> bytes res \<times> ZiaEngine \<times> env" where
  "zia_identity_generate L nn en e =
     (if \<not> nn then (Err ZIA_ERR_INVALID_ARG, en, e)
      else if en_has_identity en then (Err ZIA_ERR_ALREADY_INITIALIZED, en, e) else
      let ((pub, priv), e1) = ed25519_keypair L e;
          en1 = en\<lparr>en_identity_public := pub, en_identity_private := priv, en_has_identity := True\<rparr>;
          (saved, e2) = save_identity L en1 e1;
          en2 = en1\<lparr>en_last_error := (if saved then [] else msg_not_persisted)\<rparr>
      in (Ok (en_identity_public en2), en2, e2))"

definition zia_identity_get_public_key :: "bool \<Rightarrow> ZiaEngine \<Rightarrow> bytes res" where
  "zia_identity_get_public_key nn en =
     (if \<not> nn then Err ZIA_ERR_INVALID_ARG
      else if \<not> en_has_identity en then Err ZIA_ERR_NOT_INITIALIZED
      else Ok (en_identity_public en))"

definition zia_identity_sign :: "lib \<Rightarrow> bool \<Rightarrow> ZiaEngine \<Rightarrow> cbuf \<Rightarrow> bytes res" where
  "zia_identity_sign L nn en msg =
     (if \<not> nn \<or> buf_bad msg then Err ZIA_ERR_INVALID_ARG
      else if \<not> en_has_identity en then Err ZIA_ERR_NOT_INITIALIZED
      else if length (en_identity_private en) < 64 then Crash
      else case buf_read msg of
        None \<Rightarrow> Crash
      | Some m \<Rightarrow> Ok (ed25519_sign L (en_identity_private en) m))"

definition zia_verify_signature :: "lib \<Rightarrow> bool \<Rightarrow> bytes \<Rightarrow> cbuf \<Rightarrow> bytes \<Rightarrow> unit res" where
  "zia_verify_signature L nn pub msg sig =
     (if \<not> nn \<or> buf_bad msg then Err ZIA_ERR_INVALID_ARG
      else case buf_read msg of
        None \<Rightarrow> Crash
      | Some m \<Rightarrow> if ed25519_verify L pub m sig then Ok () else Err ZIA_ERR_SIGNATURE_INVALID)"

section \<open>Properties\<close>

definition generated :: "lib \<Rightarrow> env \<Rightarrow> ZiaEngine \<Rightarrow> ZiaEngine" where
  "generated L e en = en
     \<lparr>en_identity_public := fst (crypto_sign_keypair L (e_draw e)),
      en_identity_private := snd (crypto_sign_keypair L (e_draw e)), en_has_identity := True\<rparr>"

lemma generated_wf: "sizes_ok L \<Longrightarrow> wf_engine en \<Longrightarrow> wf_engine (generated L e en)"
  by (simp add: generated_def wf_engine_def sizes_lens)

lemma generate_eq:
  assumes "\<not> en_has_identity en"
  shows "zia_identity_generate L True en e =
    (let (saved, e2) = save_identity L (generated L e en) (e\<lparr>e_draw := Suc (e_draw e)\<rparr>) in
     (Ok (fst (crypto_sign_keypair L (e_draw e))),
      (generated L e en)\<lparr>en_last_error := (if saved then [] else msg_not_persisted)\<rparr>, e2))"
  using assms
  by (simp add: zia_identity_generate_def generated_def ed25519_keypair_def draw_def case_prod_beta Let_def)

text \<open>A first start: no identity file yet.\<close>

lemma first_start:
  assumes "disk_ok L" "sodium_init_ok L" "get_file e (identity_path (cstr path)) = None"
  shows "\<exists>e1. zia_engine_init L (Some path) e = (Some (new_ZiaEngine\<lparr>en_storage_path := cstr path\<rparr>), ZIA_OK, e1) \<and>
    e_secret e1 = e_secret e"
proof (cases "cstr path = []")
  case True
  then show ?thesis using assms by (simp add: zia_engine_init_def load_identity_def)
next
  case False
  then show ?thesis
    using assms read_file_ok [OF assms(1), of "identity_path (cstr path)" e]
    by (simp add: zia_engine_init_def load_identity_def)
qed

lemma vault_ready_cong: "vault_ready L e \<Longrightarrow> e_secret e' = e_secret e \<Longrightarrow> vault_ready L e'"
  by (auto simp add: vault_ready_def vault_holds_def)

text \<open>An installation: first start, generation, and a restart on the same storage, which finds the same key pair.\<close>

lemma install_and_restart:
  assumes "sizes_ok L" "disk_ok L" "stream_ok L" "vault_ready L e" "sodium_init_ok L"
    and "cstr path \<noteq> []" "get_file e (identity_path (cstr path)) = None"
  obtains en e1 i en' e2 en'' e4 where
    "zia_engine_init L (Some path) e = (Some en, ZIA_OK, e1)" "\<not> en_has_identity en"
    "zia_identity_generate L True en e1 = (Ok (fst (crypto_sign_keypair L i)), en', e2)"
    "zia_engine_init L (Some path) e2 = (Some en'', ZIA_OK, e4)"
    "\<forall>x \<in> {en', en''}. en_has_identity x \<and> (en_identity_public x, en_identity_private x) = crypto_sign_keypair L i"
proof -
  let ?en = "new_ZiaEngine\<lparr>en_storage_path := cstr path\<rparr>"
  obtain e1 where e1: "zia_engine_init L (Some path) e = (Some ?en, ZIA_OK, e1)" "e_secret e1 = e_secret e"
    using first_start [OF assms(2,5,7)] by blast
  let ?g = "generated L e1 ?en" and ?e = "e1\<lparr>e_draw := Suc (e_draw e1)\<rparr>"
  have ready: "vault_ready L ?e" using vault_ready_cong [OF assms(4)] e1(2) by simp
  have gp: "en_storage_path ?g \<noteq> []" "en_storage_path ?g = cstr path" using assms(6) by (simp_all add: generated_def)
  have gwf: "wf_engine ?g"
    using generated_wf [OF assms(1), of ?en] new_engine_wf by (simp add: wf_engine_def)
  obtain k raw e' where s: "save_identity L ?g ?e = (True, e')" "vault_holds L e' k"
    "get_file e' (identity_path (en_storage_path ?g)) = Some raw" "kMin \<le> length raw"
    "stream_open L k raw = Some (serialize_identity ?g)"
    by (rule save_identity_ok [OF assms(2,3) ready gp(1)])
  let ?en' = "?g\<lparr>en_last_error := []\<rparr>" and ?n = "with_identity ?g (en_pq_prekey ?g) ?en"
  have gen: "zia_identity_generate L True ?en e1 = (Ok (fst (crypto_sign_keypair L (e_draw e1))), ?en', e')"
    using generate_eq [of ?en L e1] s(1) by (simp add: new_ZiaEngine_def)
  obtain e4 where ld: "load_identity L ?en e' = (True, ?n, e4)"
    using load_identity_ok [OF assms(2) s(2), of ?en raw ?g] s gp assms(6) gwf by auto
  then have init: "zia_engine_init L (Some path) e' = (Some ?n, ZIA_OK, e4)"
    using assms(5) by (simp add: zia_engine_init_def)
  show thesis
    by (rule that [OF e1(1) _ gen init]) (auto simp: with_identity_def generated_def new_ZiaEngine_def)
qed

text \<open>
  C28 (functional).  The identity of an installation: on a device without identity file the engine starts
  without identity; generating one succeeds, a second attempt is refused; and after a restart on the
  same storage the engine has the same public key and signs messages that verify under it.
\<close>

theorem identity_lifecycle:
  assumes "sizes_ok L" "sign_ok L" "disk_ok L" "stream_ok L" "vault_ready L e" "sodium_init_ok L"
    and "cstr path \<noteq> []" "get_file e (identity_path (cstr path)) = None"
  shows "\<exists>en e1 pub en' e2. zia_engine_init L (Some path) e = (Some en, ZIA_OK, e1) \<and>
    zia_identity_generate L True en e1 = (Ok pub, en', e2) \<and> zia_identity_get_public_key True en' = Ok pub \<and>
    (\<forall>e3. zia_identity_generate L True en' e3 = (Err ZIA_ERR_ALREADY_INITIALIZED, en', e3)) \<and>
    (\<exists>en'' e4. zia_engine_init L (Some path) e2 = (Some en'', ZIA_OK, e4) \<and>
       zia_identity_get_public_key True en'' = Ok pub \<and>
       (\<forall>m. \<exists>sig. zia_identity_sign L True en'' (Buf m) = Ok sig \<and>
          zia_verify_signature L True pub (Buf m) sig = Ok ()))"
proof -
  obtain en e1 i en' e2 en'' e4 where run: "zia_engine_init L (Some path) e = (Some en, ZIA_OK, e1)"
    "zia_identity_generate L True en e1 = (Ok (fst (crypto_sign_keypair L i)), en', e2)"
    "zia_engine_init L (Some path) e2 = (Some en'', ZIA_OK, e4)"
    and key: "\<forall>x \<in> {en', en''}. en_has_identity x \<and> (en_identity_public x, en_identity_private x) = crypto_sign_keypair L i"
    by (rule install_and_restart [OF assms(1,3-8)])
  have n: "en_has_identity en''" "en_identity_private en'' = snd (crypto_sign_keypair L i)"
    using key by (auto simp: prod_eq_iff)
  have "\<exists>sig. zia_identity_sign L True en'' (Buf m) = Ok sig \<and>
      zia_verify_signature L True (fst (crypto_sign_keypair L i)) (Buf m) sig = Ok ()" for m
    using n assms(1,2)
    by (simp add: sizes_lens zia_identity_sign_def zia_verify_signature_def ed25519_sign_def ed25519_verify_def sign_ok_def)
  moreover have "zia_identity_get_public_key True en' = Ok (fst (crypto_sign_keypair L i))"
    "zia_identity_get_public_key True en'' = Ok (fst (crypto_sign_keypair L i))" "en_has_identity en'"
    using key by (auto simp: zia_identity_get_public_key_def prod_eq_iff)
  moreover from this(3) have "zia_identity_generate L True en' e3 = (Err ZIA_ERR_ALREADY_INITIALIZED, en', e3)" for e3
    by (simp add: zia_identity_generate_def)
  ultimately show ?thesis using run by blast
qed

theorem identity_lifecycle_witness:
  "\<exists>en e1 pub en' e2. zia_engine_init sample_lib (Some (ascii ''/z'')) env0 = (Some en, ZIA_OK, e1) \<and>
     zia_identity_generate sample_lib True en e1 = (Ok pub, en', e2) \<and>
     (\<exists>en'' e4. zia_engine_init sample_lib (Some (ascii ''/z'')) e2 = (Some en'', ZIA_OK, e4) \<and>
        zia_identity_get_public_key True en'' = Ok pub)"
proof -
  have "sodium_init_ok sample_lib" "cstr (ascii ''/z'') \<noteq> []" "get_file env0 (identity_path (cstr (ascii ''/z''))) = None"
    by (simp_all add: sample_lib_def ascii_def cstr_def get_file_def env0_def)
  from identity_lifecycle [OF sample_sizes_ok sample_sign_ok sample_disk_ok sample_stream_ok sample_vault_ready this]
  show ?thesis by blast
qed

end
