(* ===== verification/X3dh.thy ===== *)
theory X3dh
  imports Identity Network
begin

text \<open>
  \<open>src/x3dh.cpp\<close>: the hybrid key agreement (X3DH extended by ML-KEM, called PQXDH) that opens a session.
  \<open>zia_prekey_bundle_generate\<close> publishes a bundle, \<open>zia_session_from_bundle\<close> is the initiator,
  \<open>zia_session_accept_handshake\<close> the responder.  The results of \<open>save_identity\<close> are ignored by the code.
\<close>

section \<open>Operations\<close>

definition derive_shared_secret ::
  "lib \<Rightarrow> bytes \<Rightarrow> bytes \<Rightarrow> bytes \<Rightarrow> bytes option \<Rightarrow> bytes option \<Rightarrow> bytes" where
  "derive_shared_secret L dh1 dh2 dh3 dh4 ss =
     hkdf_sha256 L (replicate 32 0)
       (take 32 dh1 @ take 32 dh2 @ take 32 dh3 @
        (case dh4 of Some d \<Rightarrow> take 32 d | None \<Rightarrow> []) @ (case ss of Some s \<Rightarrow> take 32 s | None \<Rightarrow> []))
       (if ss \<noteq> None then ascii ''ZiaCryptePQXDH'' else ascii ''ZiaCrypteX3DH'') 32"

definition zia_session_require_pq :: "bool \<Rightarrow> ZiaEngine \<Rightarrow> int \<Rightarrow> unit res \<times> ZiaEngine" where
  "zia_session_require_pq nn en required =
     (if \<not> nn then (Err ZIA_ERR_INVALID_ARG, en) else (Ok (), en\<lparr>en_require_pq := (required \<noteq> 0)\<rparr>))"

definition zia_prekey_bundle_rotate :: "lib \<Rightarrow> bool \<Rightarrow> ZiaEngine \<Rightarrow> env \<Rightarrow> unit res \<times> ZiaEngine \<times> env" where
  "zia_prekey_bundle_rotate L nn en e =
     (if \<not> nn then (Err ZIA_ERR_INVALID_ARG, en, e)
      else if \<not> en_has_identity en then (Err ZIA_ERR_NOT_INITIALIZED, en, e) else
      let ((pub, priv), e1) = x25519_keypair L e in
      if length (en_identity_private en) < 64 then (Crash, en, e1) else
      let spk = \<lparr>spk_public_key = pub, spk_private_key = priv,
                 spk_signature = ed25519_sign L (en_identity_private en) pub\<rparr>;
          en1 = en\<lparr>en_signed_prekey := Some spk\<rparr>;
          ((pq_pub, pq_priv), e2) = mlkem768_keypair L e1
      in if length pq_priv \<noteq> kPqSecretKeyLen then (Err ZIA_ERR_CRYPTO_FAILURE, en1, e2) else
      let pq = \<lparr>pq_public_key = pq_pub, pq_private_key = pq_priv,
                pq_signature = ed25519_sign L (en_identity_private en) pq_pub\<rparr>;
          en2 = en1\<lparr>en_pq_prekey := Some pq\<rparr>;
          (_, e3) = save_identity L en2 e2
      in (Ok (), en2, e3))"

definition zia_prekey_bundle_generate ::
  "lib \<Rightarrow> bool \<Rightarrow> ZiaEngine \<Rightarrow> env \<Rightarrow> ZiaPrekeyBundle res \<times> ZiaEngine \<times> env" where
  "zia_prekey_bundle_generate L nn en e =
     (if \<not> nn then (Err ZIA_ERR_INVALID_ARG, en, e)
      else if \<not> en_has_identity en then (Err ZIA_ERR_NOT_INITIALIZED, en, e) else
      let (rc, en1, e1) =
        (if en_signed_prekey en = None \<or> en_pq_prekey en = None
         then zia_prekey_bundle_rotate L True en e else (Ok (), en, e))
      in case rc of
        Err st \<Rightarrow> (Err st, en1, e1)
      | Crash \<Rightarrow> (Crash, en1, e1)
      | Ok _ \<Rightarrow>
          let ((pub, priv), e2) = x25519_keypair L e1;
              en2 = en1\<lparr>en_one_time_prekeys := en_one_time_prekeys en1 @
                [\<lparr>otpk_public_key = pub, otpk_private_key = priv, otpk_consumed = False\<rparr>]\<rparr>;
              (_, e3) = save_identity L en2 e2
          in if save_crashes L en2 e2 then (Crash, en2, e2) else
             (case (en_signed_prekey en2, en_pq_prekey en2) of
                (Some spk, Some pq) \<Rightarrow>
                  (Ok \<lparr>b_identity_key = en_identity_public en2, b_signed_prekey = spk_public_key spk,
                       b_signed_prekey_signature = spk_signature spk, b_one_time_prekey = pub,
                       b_has_one_time_prekey = 1, b_pq_prekey = pq_public_key pq,
                       b_pq_prekey_signature = pq_signature pq, b_has_pq_prekey = 1\<rparr>, en2, e3)
              | _ \<Rightarrow> (Crash, en2, e3)))"

text \<open>The conversions of the two identities, and the Diffie-Hellman values of the initiator.\<close>

definition zia_session_from_bundle ::
  "lib \<Rightarrow> bool \<Rightarrow> ZiaEngine \<Rightarrow> ZiaPrekeyBundle \<Rightarrow> ZiaHandshakeMaterial \<Rightarrow> env \<Rightarrow>
     (ZiaSession \<times> ZiaHandshakeMaterial) res \<times> env" where
  "zia_session_from_bundle L nn en b hs0 e =
     (if \<not> nn then (Err ZIA_ERR_INVALID_ARG, e)
      else if \<not> en_has_identity en then (Err ZIA_ERR_NOT_INITIALIZED, e)
      else if \<not> ed25519_verify L (b_identity_key b) (b_signed_prekey b) (b_signed_prekey_signature b)
      then (Err ZIA_ERR_SIGNATURE_INVALID, e)
      else if ed25519_to_x25519_public L (en_identity_public en) \<noteq> None \<and> length (en_identity_private en) < 64
      then (Crash, e)
      else case (ed25519_to_x25519_public L (en_identity_public en),
                 ed25519_to_x25519_private L (en_identity_private en),
                 ed25519_to_x25519_public L (b_identity_key b)) of
        (Some _, Some ik_a_priv, Some ik_b_pub) \<Rightarrow>
          let ((ek_pub, ek_priv), e1) = x25519_keypair L e in
          (case (x25519_scalarmult L ik_a_priv (b_signed_prekey b),
                 x25519_scalarmult L ek_priv ik_b_pub,
                 x25519_scalarmult L ek_priv (b_signed_prekey b)) of
             (Some dh1, Some dh2, Some dh3) \<Rightarrow>
               let use_otpk = (b_has_one_time_prekey b \<noteq> 0);
                   dh4 = (if use_otpk then x25519_scalarmult L ek_priv (b_one_time_prekey b) else None)
               in if use_otpk \<and> dh4 = None then (Err ZIA_ERR_CRYPTO_FAILURE, e1) else
               let use_pq = (b_has_pq_prekey b \<noteq> 0) in
               if use_pq \<and> \<not> ed25519_verify L (b_identity_key b) (b_pq_prekey b) (b_pq_prekey_signature b)
               then (Err ZIA_ERR_SIGNATURE_INVALID, e1)
               else if \<not> use_pq \<and> en_require_pq en then (Err ZIA_ERR_SIGNATURE_INVALID, e1)
               else let (kem, e2) = (if use_pq then mlkem768_encapsulate L (b_pq_prekey b) e1 else (None, e1)) in
               if use_pq \<and> kem = None then (Err ZIA_ERR_CRYPTO_FAILURE, e2) else
               let sk = derive_shared_secret L dh1 dh2 dh3 dh4 (map_option snd kem);
                   (session, e3) = init_as_initiator L
                     (new_ZiaSession\<lparr>s_ad := en_identity_public en @ b_identity_key b\<rparr>) sk (b_signed_prekey b) e2
               in (Ok (session,
                     \<lparr>h_initiator_identity_key = en_identity_public en, h_initiator_ephemeral_key = ek_pub,
                      h_used_one_time_prekey =
                        (if use_otpk then b_one_time_prekey b else h_used_one_time_prekey hs0),
                      h_has_one_time_prekey = (if use_otpk then 1 else 0),
                      h_pq_ciphertext = (case kem of Some (ct, _) \<Rightarrow> ct | None \<Rightarrow> replicate 1088 0),
                      h_has_pq = (if use_pq then 1 else 0)\<rparr>), e3)
           | _ \<Rightarrow> (Err ZIA_ERR_CRYPTO_FAILURE, e1))
      | _ \<Rightarrow> (Err ZIA_ERR_CRYPTO_FAILURE, e))"

text \<open>The search for the one-time prekey the initiator used.\<close>

definition find_otpk :: "ZiaEngine \<Rightarrow> bytes \<Rightarrow> nat option" where
  "find_otpk en pub =
     find_index (\<lambda>k. \<not> otpk_consumed k \<and> otpk_public_key k = pub) (en_one_time_prekeys en)"

definition consume_otpk :: "nat \<Rightarrow> ZiaEngine \<Rightarrow> ZiaEngine" where
  "consume_otpk i en = en\<lparr>en_one_time_prekeys :=
     (en_one_time_prekeys en)[i := (en_one_time_prekeys en ! i)\<lparr>otpk_consumed := True\<rparr>]\<rparr>"

definition zia_session_accept_handshake ::
  "lib \<Rightarrow> bool \<Rightarrow> ZiaEngine \<Rightarrow> ZiaHandshakeMaterial \<Rightarrow> env \<Rightarrow> ZiaSession res \<times> ZiaEngine \<times> env" where
  "zia_session_accept_handshake L nn en hs e =
     (if \<not> nn then (Err ZIA_ERR_INVALID_ARG, en, e)
      else case (en_has_identity en, en_signed_prekey en) of
        (True, Some spk) \<Rightarrow>
          if ed25519_to_x25519_public L (en_identity_public en) \<noteq> None \<and> length (en_identity_private en) < 64
          then (Crash, en, e) else
          (case (ed25519_to_x25519_public L (en_identity_public en),
                 ed25519_to_x25519_private L (en_identity_private en),
                 ed25519_to_x25519_public L (h_initiator_identity_key hs)) of
             (Some _, Some ik_b_priv, Some ik_a_pub) \<Rightarrow>
               (case (x25519_scalarmult L (spk_private_key spk) ik_a_pub,
                      x25519_scalarmult L ik_b_priv (h_initiator_ephemeral_key hs),
                      x25519_scalarmult L (spk_private_key spk) (h_initiator_ephemeral_key hs)) of
                  (Some dh1, Some dh2, Some dh3) \<Rightarrow>
                    let use_otpk = (h_has_one_time_prekey hs \<noteq> 0);
                        otpk = (if use_otpk then find_otpk en (h_used_one_time_prekey hs) else None)
                    in if use_otpk \<and> otpk = None then (Err ZIA_ERR_BUNDLE_EXHAUSTED, en, e) else
                    let dh4 = (case otpk of
                          Some i \<Rightarrow> x25519_scalarmult L (otpk_private_key (en_one_time_prekeys en ! i))
                            (h_initiator_ephemeral_key hs)
                        | None \<Rightarrow> None)
                    in if use_otpk \<and> dh4 = None then (Err ZIA_ERR_CRYPTO_FAILURE, en, e) else
                    let use_pq = (h_has_pq hs \<noteq> 0) in
                    if use_pq \<and> en_pq_prekey en = None then (Err ZIA_ERR_NOT_INITIALIZED, en, e)
                    else if \<not> use_pq \<and> en_require_pq en then (Err ZIA_ERR_SIGNATURE_INVALID, en, e) else
                    let ss = (if use_pq
                          then mlkem768_decapsulate L (pq_private_key (the (en_pq_prekey en))) (h_pq_ciphertext hs)
                          else None)
                    in if use_pq \<and> ss = None then (Err ZIA_ERR_CRYPTO_FAILURE, en, e) else
                    let sk = derive_shared_secret L dh1 dh2 dh3 dh4 ss;
                        session = init_as_responder
                          (new_ZiaSession\<lparr>s_ad := h_initiator_identity_key hs @ en_identity_public en\<rparr>)
                          sk (spk_public_key spk) (spk_private_key spk)
                    in (case otpk of
                          None \<Rightarrow> (Ok session, en, e)
                        | Some i \<Rightarrow>
                            let en1 = consume_otpk i en; (_, e1) = save_identity L en1 e
                            in (Ok session, en1, e1))
                | _ \<Rightarrow> (Err ZIA_ERR_CRYPTO_FAILURE, en, e))
           | _ \<Rightarrow> (Err ZIA_ERR_CRYPTO_FAILURE, en, e))
      | _ \<Rightarrow> (Err ZIA_ERR_NOT_INITIALIZED, en, e))"

section \<open>Engines holding genuine keys\<close>

text \<open>
  The invariant of an engine that made its keys itself: the identity is a generated Ed25519 pair, the
  prekeys are generated pairs of earlier draws, signed by the identity.
\<close>

definition honest_engine :: "lib \<Rightarrow> env \<Rightarrow> ZiaEngine \<Rightarrow> bool" where
  "honest_engine L e en \<longleftrightarrow>
     en_has_identity en \<and>
     (\<exists>i. crypto_sign_keypair L i = (en_identity_public en, en_identity_private en)) \<and>
     (\<forall>spk. en_signed_prekey en = Some spk \<longrightarrow>
        (\<exists>i < e_draw e. crypto_box_keypair L i = (spk_public_key spk, spk_private_key spk)) \<and>
        spk_signature spk = ed25519_sign L (en_identity_private en) (spk_public_key spk)) \<and>
     (\<forall>pq. en_pq_prekey en = Some pq \<longrightarrow>
        (\<exists>i. OQS_keypair L i = Some (pq_public_key pq, pq_private_key pq)) \<and>
        pq_signature pq = ed25519_sign L (en_identity_private en) (pq_public_key pq)) \<and>
     (\<forall>k \<in> set (en_one_time_prekeys en). x25519_pair L (otpk_public_key k) (otpk_private_key k))"

lemma honest_later: "honest_engine L e en \<Longrightarrow> e_draw e \<le> e_draw e' \<Longrightarrow> honest_engine L e' en"
  unfolding honest_engine_def by (meson order.strict_trans2)

lemma honest_public_len: "sizes_ok L \<Longrightarrow> honest_engine L e en \<Longrightarrow> length (en_identity_public en) = 32"
  using sizes_lens(3) [of L] unfolding honest_engine_def by (metis fst_conv)

lemma honest_private_len: "sizes_ok L \<Longrightarrow> honest_engine L e en \<Longrightarrow> length (en_identity_private en) = 64"
  using sizes_lens(4) [of L] unfolding honest_engine_def by (metis snd_conv)

text \<open>Saving draws at most two random numbers: a new master key and the stream header.\<close>

lemma save_draw: "e_draw e \<le> e_draw (snd (save_identity L en e)) \<and> e_draw (snd (save_identity L en e)) \<le> e_draw e + 2"
proof -
  obtain mk e1 where m: "ensure_master_key L e = (mk, e1)" by fastforce
  have d1: "e_draw e \<le> e_draw e1" "e_draw e1 \<le> e_draw e + 1" using ensure_draw [of e L] m by simp_all
  let ?e2 = "e1\<lparr>e_io := Suc (e_io e1)\<rparr>"
  have d2: "e_draw (snd (stream_seal L k p ?e2)) = Suc (e_draw e1)" for k p by (simp add: stream_seal_frames)
  show ?thesis
  proof (cases mk)
    case None
    then show ?thesis using m d1 by (simp add: save_identity_def)
  next
    case (Some key)
    obtain sl e3 where s: "stream_seal L key (serialize_identity en) ?e2 = (sl, e3)" by fastforce
    have "e_draw e3 = Suc (e_draw e1)" using d2 [of key "serialize_identity en"] s by simp
    then show ?thesis
      using m Some s d1
      by (cases sl) (auto simp: save_identity_def create_directories_def io_def Let_def case_prod_beta replace_file_frames)
  qed
qed

section \<open>Publishing a bundle\<close>

lemma rotate_honest:
  assumes "sizes_ok L" "kem_ok L" "honest_engine L e en"
  obtains en' e' where "zia_prekey_bundle_rotate L True en e = (Ok (), en', e')" "honest_engine L e' en'"
    "en_signed_prekey en' \<noteq> None" "en_pq_prekey en' \<noteq> None" "e_draw e \<le> e_draw e'"
    "en_identity_public en' = en_identity_public en" "en_one_time_prekeys en' = en_one_time_prekeys en"
proof -
  let ?kp = "crypto_box_keypair L (e_draw e)" and ?e2 = "e\<lparr>e_draw := Suc (Suc (e_draw e))\<rparr>"
  obtain pk sk where pq: "OQS_keypair L (Suc (e_draw e)) = Some (pk, sk)" "length sk = 2400"
    using assms(2) unfolding kem_ok_def by metis
  let ?spk = "\<lparr>spk_public_key = fst ?kp, spk_private_key = snd ?kp,
      spk_signature = ed25519_sign L (en_identity_private en) (fst ?kp)\<rparr>"
  let ?pq = "\<lparr>pq_public_key = pk, pq_private_key = sk, pq_signature = ed25519_sign L (en_identity_private en) pk\<rparr>"
  let ?en = "en\<lparr>en_signed_prekey := Some ?spk, en_pq_prekey := Some ?pq\<rparr>"
  let ?e3 = "snd (save_identity L ?en ?e2)"
  have d: "e_draw ?e2 \<le> e_draw ?e3" using save_draw by blast
  have id: "en_has_identity en" using assms(3) by (simp add: honest_engine_def)
  have run: "zia_prekey_bundle_rotate L True en e = (Ok (), ?en, ?e3)"
    using id pq honest_private_len [OF assms(1,3)]
    by (simp add: zia_prekey_bundle_rotate_def x25519_keypair_def mlkem768_keypair_def draw_def case_prod_beta
        kPqSecretKeyLen_def Let_def)
  have box: "crypto_box_keypair L (e_draw e) = (fst ?kp, snd ?kp)" "e_draw e < e_draw ?e3" using d by simp_all
  have "honest_engine L ?e3 ?en"
    using assms(3) pq(1) box unfolding honest_engine_def by auto
  then show thesis by (rule that [OF run]) (use d in simp_all)
qed

lemma bundle_honest:
  assumes "sizes_ok L" "kem_ok L" "honest_engine L e en"
  obtains b en' e' spk pq where "zia_prekey_bundle_generate L True en e = (Ok b, en', e')" "honest_engine L e' en'"
    "en_signed_prekey en' = Some spk" "en_pq_prekey en' = Some pq"
    "b_identity_key b = en_identity_public en'" "b_signed_prekey b = spk_public_key spk"
    "b_signed_prekey_signature b = spk_signature spk" "b_has_one_time_prekey b = 1"
    "b_pq_prekey b = pq_public_key pq" "b_pq_prekey_signature b = pq_signature pq" "b_has_pq_prekey b = 1"
    "\<exists>k \<in> set (en_one_time_prekeys en'). \<not> otpk_consumed k \<and> otpk_public_key k = b_one_time_prekey b"
proof -
  have id: "en_has_identity en" using assms(3) by (simp add: honest_engine_def)
  obtain en1 e1 where r: "(if en_signed_prekey en = None \<or> en_pq_prekey en = None
      then zia_prekey_bundle_rotate L True en e else (Ok (), en, e)) = (Ok (), en1, e1)"
    "honest_engine L e1 en1" "en_signed_prekey en1 \<noteq> None" "en_pq_prekey en1 \<noteq> None"
  proof (cases "en_signed_prekey en = None \<or> en_pq_prekey en = None")
    case True
    then show thesis using rotate_honest [OF assms] that by metis
  next
    case False
    then show thesis using that [of en e] assms(3) by simp
  qed
  let ?kp = "crypto_box_keypair L (e_draw e1)"
  let ?k = "\<lparr>otpk_public_key = fst ?kp, otpk_private_key = snd ?kp, otpk_consumed = False\<rparr>"
  let ?en = "en1\<lparr>en_one_time_prekeys := en_one_time_prekeys en1 @ [?k]\<rparr>"
  let ?e2 = "e1\<lparr>e_draw := Suc (e_draw e1)\<rparr>"
  let ?e3 = "snd (save_identity L ?en ?e2)"
  obtain spk pq where sp: "en_signed_prekey en1 = Some spk" "en_pq_prekey en1 = Some pq" using r by auto
  let ?b = "\<lparr>b_identity_key = en_identity_public en1, b_signed_prekey = spk_public_key spk,
      b_signed_prekey_signature = spk_signature spk, b_one_time_prekey = fst ?kp, b_has_one_time_prekey = 1,
      b_pq_prekey = pq_public_key pq, b_pq_prekey_signature = pq_signature pq, b_has_pq_prekey = 1\<rparr>"
  have run: "zia_prekey_bundle_generate L True en e = (Ok ?b, ?en, ?e3)"
    using id r(1) sp honest_private_len [OF assms(1) r(2)]
    by (simp add: zia_prekey_bundle_generate_def save_crashes_def x25519_keypair_def draw_def case_prod_beta Let_def)
  have "e_draw e1 \<le> e_draw ?e3" using save_draw [of ?e2 L ?en] by simp
  from honest_later [OF r(2) this] have "honest_engine L ?e3 ?en"
    using box_keypair_pair [of L "e_draw e1"] by (auto simp: honest_engine_def)
  then show thesis by (rule that [OF run]) (use sp in auto)
qed

section \<open>Both sides derive the same secret\<close>

lemma honest_identity:
  assumes "dh_ok L" "honest_engine L e en"
  obtains x y where "ed25519_to_x25519_public L (en_identity_public en) = Some x"
    "ed25519_to_x25519_private L (en_identity_private en) = Some y" "x25519_pair L x y"
proof -
  obtain i where i: "crypto_sign_keypair L i = (en_identity_public en, en_identity_private en)"
    using assms(2) by (auto simp: honest_engine_def)
  with assms(1) obtain x y where "pk_to_curve25519 L (en_identity_public en) = Some x"
    "sk_to_curve25519 L (en_identity_private en) = Some y"
    unfolding dh_ok_def by (metis fst_conv option.exhaust snd_conv)
  moreover from this i have "x25519_pair L x y" unfolding x25519_pair_def by (metis fst_conv snd_conv)
  ultimately show thesis
    using that by (simp add: ed25519_to_x25519_public_def ed25519_to_x25519_private_def)
qed

lemma honest_signature:
  "sign_ok L \<Longrightarrow> honest_engine L e en \<Longrightarrow>
     ed25519_verify L (en_identity_public en) m (ed25519_sign L (en_identity_private en) m)"
  by (auto simp: honest_engine_def sign_ok_def ed25519_verify_def ed25519_sign_def) (metis fst_conv snd_conv)

lemma dh_agree:
  assumes "dh_ok L" "x25519_pair L p s" "x25519_pair L q t"
  obtains d where "x25519_scalarmult L s q = Some d" "x25519_scalarmult L t p = Some d"
  using dh_commute [OF assms] by (auto simp: x25519_scalarmult_def)

lemma length_derive [simp]: "sizes_ok L \<Longrightarrow> length (derive_shared_secret L d1 d2 d3 d4 ss) = 32"
  by (simp add: derive_shared_secret_def length_hkdf_sha256)

lemma find_otpk_present:
  assumes "k \<in> set (en_one_time_prekeys en)" "\<not> otpk_consumed k" "otpk_public_key k = pub"
  obtains i where "find_otpk en pub = Some i" "i < length (en_one_time_prekeys en)"
    "otpk_public_key (en_one_time_prekeys en ! i) = pub"
proof -
  from assms have "find_otpk en pub \<noteq> None" by (auto simp: find_otpk_def find_index_None)
  then obtain i where "find_otpk en pub = Some i" by auto
  with that show thesis by (auto simp: find_otpk_def dest!: find_index_Some)
qed

lemma honest_prekeys:
  assumes "kem_ok L" "honest_engine L e B" "en_signed_prekey B = Some spk" "en_pq_prekey B = Some pq"
  obtains j ct ss where "j < e_draw e" "crypto_box_keypair L j = (spk_public_key spk, spk_private_key spk)"
    "x25519_pair L (spk_public_key spk) (spk_private_key spk)"
    "spk_signature spk = ed25519_sign L (en_identity_private B) (spk_public_key spk)"
    "pq_signature pq = ed25519_sign L (en_identity_private B) (pq_public_key pq)"
    "OQS_encaps L i (pq_public_key pq) = Some (ct, ss)" "OQS_decaps L (pq_private_key pq) ct = Some ss"
    "length (pq_private_key pq) = 2400"
proof -
  obtain j where j: "j < e_draw e" "crypto_box_keypair L j = (spk_public_key spk, spk_private_key spk)"
    "spk_signature spk = ed25519_sign L (en_identity_private B) (spk_public_key spk)"
    using assms(2,3) by (auto simp: honest_engine_def)
  obtain q where q: "OQS_keypair L q = Some (pq_public_key pq, pq_private_key pq)"
    "pq_signature pq = ed25519_sign L (en_identity_private B) (pq_public_key pq)"
    using assms(2,4) by (auto simp: honest_engine_def)
  obtain ct ss where "OQS_encaps L i (pq_public_key pq) = Some (ct, ss)"
    "OQS_decaps L (pq_private_key pq) ct = Some ss" "length (pq_private_key pq) = 2400"
    using assms(1) q(1) unfolding kem_ok_def by (metis option.inject prod.inject)
  then show thesis using that j q(2) box_keypair_pair [of L j] by simp
qed

text \<open>The four exchanges of X3DH give the same results on both sides.\<close>

lemma exchanges_agree:
  assumes "dh_ok L" "x25519_pair L xa ya" "x25519_pair L xb yb" "x25519_pair L ek_pub ek_priv"
    "x25519_pair L sp_pub sp_priv" "x25519_pair L op_pub op_priv"
  obtains d1 d2 d3 d4 where
    "x25519_scalarmult L ya sp_pub = Some d1" "x25519_scalarmult L sp_priv xa = Some d1"
    "x25519_scalarmult L ek_priv xb = Some d2" "x25519_scalarmult L yb ek_pub = Some d2"
    "x25519_scalarmult L ek_priv sp_pub = Some d3" "x25519_scalarmult L sp_priv ek_pub = Some d3"
    "x25519_scalarmult L ek_priv op_pub = Some d4" "x25519_scalarmult L op_priv ek_pub = Some d4"
  using dh_agree [OF assms(1,2,5)] dh_agree [OF assms(1,4,3)] dh_agree [OF assms(1,4,5)] dh_agree [OF assms(1,4,6)]
  by metis

lemma handshake_agrees:
  assumes L: "sizes_ok L" "dh_ok L" "sign_ok L" "kem_ok L"
    and A: "honest_engine L e0 A" and B: "honest_engine L e B"
    and spk: "en_signed_prekey B = Some spk" and pq: "en_pq_prekey B = Some pq"
    and b: "b_identity_key b = en_identity_public B" "b_signed_prekey b = spk_public_key spk"
      "b_signed_prekey_signature b = spk_signature spk" "b_has_one_time_prekey b = 1"
      "b_pq_prekey b = pq_public_key pq" "b_pq_prekey_signature b = pq_signature pq" "b_has_pq_prekey b = 1"
    and otpk: "\<exists>k \<in> set (en_one_time_prekeys B). \<not> otpk_consumed k \<and> otpk_public_key k = b_one_time_prekey b"
  obtains sA hs e2 sB B' e3 where
    "zia_session_from_bundle L True A b hs0 e = (Ok (sA, hs), e2)"
    "zia_session_accept_handshake L True B hs e2 = (Ok sB, B', e3)" "leads L e3 sA sB"
    "e_draw e3 \<le> e_draw e + 5" "s_ns sB = 0"
proof -
  let ?ek = "crypto_box_keypair L (e_draw e)"
  have ek: "x25519_pair L (fst ?ek) (snd ?ek)" by (rule box_keypair_pair)
  obtain xa ya where a: "ed25519_to_x25519_public L (en_identity_public A) = Some xa"
    "ed25519_to_x25519_private L (en_identity_private A) = Some ya" "x25519_pair L xa ya"
    by (rule honest_identity [OF L(2) A])
  obtain xb yb where bb: "ed25519_to_x25519_public L (en_identity_public B) = Some xb"
    "ed25519_to_x25519_private L (en_identity_private B) = Some yb" "x25519_pair L xb yb"
    by (rule honest_identity [OF L(2) B])
  obtain j ct ss where j: "j < e_draw e" "crypto_box_keypair L j = (spk_public_key spk, spk_private_key spk)"
    and sp: "x25519_pair L (spk_public_key spk) (spk_private_key spk)"
    and sigs: "spk_signature spk = ed25519_sign L (en_identity_private B) (spk_public_key spk)"
      "pq_signature pq = ed25519_sign L (en_identity_private B) (pq_public_key pq)"
    and kem: "OQS_encaps L (Suc (e_draw e)) (pq_public_key pq) = Some (ct, ss)"
      "OQS_decaps L (pq_private_key pq) ct = Some ss" "length (pq_private_key pq) = 2400"
    by (rule honest_prekeys [OF L(4) B spk pq])
  obtain i where i: "find_otpk B (b_one_time_prekey b) = Some i" "i < length (en_one_time_prekeys B)"
    "otpk_public_key (en_one_time_prekeys B ! i) = b_one_time_prekey b"
    using otpk find_otpk_present [of _ B "b_one_time_prekey b"] by blast
  let ?op = "otpk_private_key (en_one_time_prekeys B ! i)"
  have op: "x25519_pair L (b_one_time_prekey b) ?op"
    using B i by (metis honest_engine_def nth_mem)
  obtain d1 d2 d3 d4 where d:
    "x25519_scalarmult L ya (spk_public_key spk) = Some d1" "x25519_scalarmult L (spk_private_key spk) xa = Some d1"
    "x25519_scalarmult L (snd ?ek) xb = Some d2" "x25519_scalarmult L yb (fst ?ek) = Some d2"
    "x25519_scalarmult L (snd ?ek) (spk_public_key spk) = Some d3" "x25519_scalarmult L (spk_private_key spk) (fst ?ek) = Some d3"
    "x25519_scalarmult L (snd ?ek) (b_one_time_prekey b) = Some d4" "x25519_scalarmult L ?op (fst ?ek) = Some d4"
    by (rule exchanges_agree [OF L(2) a(3) bb(3) ek sp op])
  let ?sk = "derive_shared_secret L d1 d2 d3 (Some d4) (Some ss)"
  let ?ad = "en_identity_public A @ en_identity_public B"
  let ?s0 = "new_ZiaSession\<lparr>s_ad := ?ad\<rparr>"
  let ?e2 = "e\<lparr>e_draw := Suc (Suc (e_draw e))\<rparr>"
  obtain sA e3 where ini: "init_as_initiator L ?s0 ?sk (spk_public_key spk) ?e2 = (sA, e3)" by fastforce
  have e3: "e_draw e3 = Suc (Suc (Suc (e_draw e)))"
    using ini by (auto simp: init_as_initiator_def x25519_keypair_def draw_def case_prod_beta Let_def)
  let ?hs = "\<lparr>h_initiator_identity_key = en_identity_public A, h_initiator_ephemeral_key = fst ?ek,
      h_used_one_time_prekey = b_one_time_prekey b, h_has_one_time_prekey = 1, h_pq_ciphertext = ct, h_has_pq = 1\<rparr>"
  have ida: "en_has_identity A" "en_has_identity B" using A B by (simp_all add: honest_engine_def)
  have fb: "zia_session_from_bundle L True A b hs0 e = (Ok (sA, ?hs), e3)"
    using ida a bb d kem ini honest_signature [OF L(3) B] sigs honest_private_len [OF L(1) A]
    by (simp add: zia_session_from_bundle_def b x25519_keypair_def mlkem768_encapsulate_def draw_def case_prod_beta)
  let ?sB = "init_as_responder ?s0 ?sk (spk_public_key spk) (spk_private_key spk)"
  let ?e4 = "snd (save_identity L (consume_otpk i B) e3)"
  have acc: "zia_session_accept_handshake L True B ?hs e3 = (Ok ?sB, consume_otpk i B, ?e4)"
    using ida(2) bb(1,2) a(1) d(2,4,6,8) kem(2,3) i(1) spk pq honest_private_len [OF L(1) B]
    by (simp add: zia_session_accept_handshake_def mlkem768_decapsulate_def kPqSecretKeyLen_def case_prod_beta)
      (simp add: Let_def)
  have sv: "e_draw e3 \<le> e_draw ?e4" "e_draw ?e4 \<le> e_draw e3 + 2" using save_draw by blast+
  have ad: "length ?ad = 64"
    using honest_public_len [OF L(1) A] honest_public_len [OF L(1) B] by simp
  have "leads L ?e4 sA ?sB"
    by (rule init_sessions_lead [OF L(1,2) ad length_derive [OF L(1)] j(2) _ ini sv(1)]) (use j(1) in simp)
  moreover have "e_draw ?e4 \<le> e_draw e + 5" using sv(2) e3 by linarith
  moreover have "s_ns ?sB = 0" by (simp add: init_as_responder_def new_ZiaSession_def)
  ultimately show thesis by (rule that [OF fb acc])
qed

section \<open>Properties\<close>

text \<open>
  C2 (liveness).  From handshake to conversation: a responder that made its keys itself publishes a
  bundle, an initiator opens a session from it, and the responder accepts the handshake.  None of the
  three steps fails and both sides derive the same secret.  A conversation in turns, the initiator
  speaking first, delivers every message; and on an unreliable network, with both parties sending at any
  time and restarting at any time, every message that waits decrypts to its plaintext.
\<close>

theorem handshake_opens_conversation:
  assumes "sizes_ok L" "dh_ok L" "sign_ok L" "kem_ok L" "aead_ok L" "mem_ok L" "fresh_keys L N" "stream_ok L"
    and "honest_engine L e A" "honest_engine L e B"
  shows "\<exists>b B1 e1. zia_prekey_bundle_generate L True B e = (Ok b, B1, e1) \<and>
    (e_draw e1 + 6 + length ms \<le> N \<longrightarrow>
      (\<exists>sA hs e2 sB B2 e3. zia_session_from_bundle L True A b hs0 e1 = (Ok (sA, hs), e2) \<and>
        zia_session_accept_handshake L True B1 hs e2 = (Ok sB, B2, e3) \<and>
        converse L sA sB ((True, p) # ms) e3 = Ok p # map (\<lambda>m. Ok (snd m)) ms \<and>
        (\<forall>store net. (\<forall>q. \<exists>k. vault_holds L (e3\<lparr>e_secret := store q\<rparr>) k) \<longrightarrow>
           net_reachable L N (opened sA sB store e3) net \<longrightarrow> inbox_opens L net)))"
proof -
  obtain b B1 e1 spk pq where g: "zia_prekey_bundle_generate L True B e = (Ok b, B1, e1)" "honest_engine L e1 B1"
    "en_signed_prekey B1 = Some spk" "en_pq_prekey B1 = Some pq"
    "b_identity_key b = en_identity_public B1" "b_signed_prekey b = spk_public_key spk"
    "b_signed_prekey_signature b = spk_signature spk" "b_has_one_time_prekey b = 1"
    "b_pq_prekey b = pq_public_key pq" "b_pq_prekey_signature b = pq_signature pq" "b_has_pq_prekey b = 1"
    "\<exists>k \<in> set (en_one_time_prekeys B1). \<not> otpk_consumed k \<and> otpk_public_key k = b_one_time_prekey b"
    by (rule bundle_honest [OF assms(1,4,10)])
  obtain sA hs e2 sB B2 e3 where h: "zia_session_from_bundle L True A b hs0 e1 = (Ok (sA, hs), e2)"
    "zia_session_accept_handshake L True B1 hs e2 = (Ok sB, B2, e3)" "leads L e3 sA sB" "e_draw e3 \<le> e_draw e1 + 5"
    "s_ns sB = 0"
    by (rule handshake_agrees [OF assms(1-4) assms(9) g(2-12)])
  have "converse L sA sB ((True, p) # ms) e3 = Ok p # map (\<lambda>m. Ok (snd m)) ms"
    if N: "e_draw e1 + 6 + length ms \<le> N"
  proof -
    obtain A' B' e' where x: "exchange L sA sB p e3 = (Ok p, A', B', e')" "leads L e' B' A'"
      "s_has_send_chain A'" "e_draw e' = Suc (e_draw e3)"
      by (rule exchange_new_chain [OF assms(1,5,6,2,7) h(3)]) (use N h(4) in simp)
    have "converse L A' B' ms e' = map (\<lambda>m. Ok (snd m)) ms"
      by (rule converse_ok [OF assms(1,5,6,2,7)]) (use x N h(4) in auto)
    with x(1) show ?thesis by simp
  qed
  moreover have "inbox_opens L net"
    if "\<forall>q. \<exists>k. vault_holds L (e3\<lparr>e_secret := store q\<rparr>) k" "net_reachable L N (opened sA sB store e3) net" for store net
    by (rule net_ok_opens [OF assms(1,6,2,7) net_reachable_ok [OF assms(1,5,6,2,8,7) that(2) opened_ok [OF h(3) that(1) h(5)]]])
  ultimately show ?thesis using g(1) h(1,2) by blast
qed

definition honest_sample :: "u8 \<Rightarrow> ZiaEngine" where
  "honest_sample i = new_ZiaEngine\<lparr>en_has_identity := True, en_identity_public := replicate 32 i,
     en_identity_private := replicate 64 i\<rparr>"

lemma honest_sample_honest: "honest_engine sample_lib env0 (honest_sample i)"
proof -
  have "crypto_sign_keypair sample_lib (unat i) = (replicate 32 i, replicate 64 i)" by (simp add: sample_lib_def)
  then show ?thesis unfolding honest_engine_def honest_sample_def new_ZiaEngine_def by auto
qed

text \<open>An engine without storage path never persists anything, and draws nothing for it.\<close>

lemma no_path_save: "en_storage_path en = [] \<Longrightarrow> save_identity L en e = (False, e)"
  by (simp add: save_identity_def)

lemma sample_bundle_draws:
  "e_draw (snd (snd (zia_prekey_bundle_generate sample_lib True (honest_sample i) env0))) = 3"
  by (simp add: zia_prekey_bundle_generate_def zia_prekey_bundle_rotate_def honest_sample_def new_ZiaEngine_def
      no_path_save save_crashes_def x25519_keypair_def mlkem768_keypair_def draw_def case_prod_beta kPqSecretKeyLen_def env0_def
      sample_lib_def)

definition no_handshake :: ZiaHandshakeMaterial where
  "no_handshake = \<lparr>h_initiator_identity_key = replicate 32 0, h_initiator_ephemeral_key = replicate 32 0,
     h_used_one_time_prekey = replicate 32 0, h_has_one_time_prekey = 0, h_pq_ciphertext = replicate 1088 0, h_has_pq = 0\<rparr>"

theorem handshake_opens_conversation_witness:
  "\<exists>b B1 e1 sA hs e2 sB B2 e3. zia_prekey_bundle_generate sample_lib True (honest_sample 9) env0 = (Ok b, B1, e1) \<and>
     zia_session_from_bundle sample_lib True (honest_sample 8) b no_handshake e1 = (Ok (sA, hs), e2) \<and>
     zia_session_accept_handshake sample_lib True B1 hs e2 = (Ok sB, B2, e3) \<and>
     converse sample_lib sA sB [(True, [1]), (False, [2]), (True, [3])] e3 = [Ok [1], Ok [2], Ok [3]]"
proof -
  obtain b B1 e1 where g: "zia_prekey_bundle_generate sample_lib True (honest_sample 9) env0 = (Ok b, B1, e1)"
    and imp: "e_draw e1 + 6 + length [(False, [2 :: u8]), (True, [3])] \<le> 256 \<longrightarrow>
      (\<exists>sA hs e2 sB B2 e3. zia_session_from_bundle sample_lib True (honest_sample 8) b no_handshake e1 = (Ok (sA, hs), e2) \<and>
        zia_session_accept_handshake sample_lib True B1 hs e2 = (Ok sB, B2, e3) \<and>
        converse sample_lib sA sB ((True, [1]) # [(False, [2]), (True, [3])]) e3 =
          Ok [1] # map (\<lambda>m. Ok (snd m)) [(False, [2]), (True, [3])] \<and>
        (\<forall>store net. (\<forall>q. \<exists>k. vault_holds sample_lib (e3\<lparr>e_secret := store q\<rparr>) k) \<longrightarrow>
           net_reachable sample_lib 256 (opened sA sB store e3) net \<longrightarrow> inbox_opens sample_lib net))"
    using handshake_opens_conversation [OF sample_sizes_ok sample_dh_ok sample_sign_ok sample_kem_ok sample_aead_ok
        sample_mem_ok sample_fresh_keys sample_stream_ok honest_sample_honest honest_sample_honest,
        of 9 "[(False, [2]), (True, [3])]" 8 no_handshake "[1]"] by blast
  have "e_draw e1 = 3" using sample_bundle_draws [of 9] g by simp
  with imp g show ?thesis by auto
qed

text \<open>
  C17 (safety).  What an initiator has checked when a session opens: the signed prekey is signed by the
  announced identity, so is the post-quantum prekey if the bundle has one, the handshake uses the
  post-quantum component exactly when the bundle offers it, and with \<open>require_pq\<close> set there is no session
  without it.
\<close>

theorem from_bundle_checks:
  assumes "zia_session_from_bundle L nn en b hs0 e = (Ok (s, hs), e')"
  shows "ed25519_verify L (b_identity_key b) (b_signed_prekey b) (b_signed_prekey_signature b) \<and>
    (b_has_pq_prekey b \<noteq> 0 \<longrightarrow>
       ed25519_verify L (b_identity_key b) (b_pq_prekey b) (b_pq_prekey_signature b)) \<and>
    (h_has_pq hs \<noteq> 0 \<longleftrightarrow> b_has_pq_prekey b \<noteq> 0) \<and> (en_require_pq en \<longrightarrow> h_has_pq hs \<noteq> 0) \<and>
    s_ad s = en_identity_public en @ b_identity_key b \<and> s_dhr_public s = b_signed_prekey b"
  using assms
  by (auto simp: zia_session_from_bundle_def init_as_initiator_def x25519_keypair_def draw_def case_prod_beta Let_def
      split: if_splits option.splits)

theorem from_bundle_checks_witness:
  "\<exists>b B1 e1 s hs e2. zia_prekey_bundle_generate sample_lib True (honest_sample 9) env0 = (Ok b, B1, e1) \<and>
     zia_session_from_bundle sample_lib True (honest_sample 8) b no_handshake e1 = (Ok (s, hs), e2) \<and>
     ed25519_verify sample_lib (b_identity_key b) (b_signed_prekey b) (b_signed_prekey_signature b)"
proof -
  obtain b B1 e1 spk pq where g: "zia_prekey_bundle_generate sample_lib True (honest_sample 9) env0 = (Ok b, B1, e1)"
    "honest_engine sample_lib e1 B1"
    "en_signed_prekey B1 = Some spk" "en_pq_prekey B1 = Some pq"
    "b_identity_key b = en_identity_public B1" "b_signed_prekey b = spk_public_key spk"
    "b_signed_prekey_signature b = spk_signature spk" "b_has_one_time_prekey b = 1"
    "b_pq_prekey b = pq_public_key pq" "b_pq_prekey_signature b = pq_signature pq" "b_has_pq_prekey b = 1"
    "\<exists>k \<in> set (en_one_time_prekeys B1). \<not> otpk_consumed k \<and> otpk_public_key k = b_one_time_prekey b"
    by (rule bundle_honest [OF sample_sizes_ok sample_kem_ok honest_sample_honest])
  obtain s hs e2 where h: "zia_session_from_bundle sample_lib True (honest_sample 8) b no_handshake e1 = (Ok (s, hs), e2)"
    by (rule handshake_agrees [OF sample_sizes_ok sample_dh_ok sample_sign_ok sample_kem_ok honest_sample_honest g(2-12)])
  from from_bundle_checks [OF h] g(1) h show ?thesis by blast
qed

lemma accept_Ok:
  assumes "zia_session_accept_handshake L nn en hs e = (Ok s, en', e')"
  shows "(en_require_pq en \<longrightarrow> h_has_pq hs \<noteq> 0) \<and>
    (h_has_one_time_prekey hs \<noteq> 0 \<longrightarrow>
       (\<exists>i. find_otpk en (h_used_one_time_prekey hs) = Some i \<and> en' = consume_otpk i en \<and>
          e' = snd (save_identity L (consume_otpk i en) e)))"
  using assms
  by (auto simp: zia_session_accept_handshake_def case_prod_beta Let_def split: if_splits option.splits bool.splits)

text \<open>
  The responder cannot be downgraded either: with \<open>require_pq\<close> set, a handshake without the
  post-quantum component is never accepted, and the engine is unchanged by every refused handshake.
\<close>

lemma accept_checks:
  assumes "zia_session_accept_handshake L nn en hs e = (r, en', e')"
  shows "(en_require_pq en \<and> h_has_pq hs = 0 \<longrightarrow> \<not> is_Ok r) \<and> (\<not> is_Ok r \<longrightarrow> en' = en \<and> e' = e)"
proof -
  have "\<not> is_Ok r \<longrightarrow> en' = en \<and> e' = e"
    using assms
    by (auto simp: zia_session_accept_handshake_def case_prod_beta Let_def split: if_splits option.splits bool.splits)
  moreover have "en_require_pq en \<and> h_has_pq hs = 0 \<longrightarrow> \<not> is_Ok r"
    using accept_Ok [of L nn en hs e _ en' e'] assms by (cases r) auto
  ultimately show ?thesis by blast
qed

section \<open>One-time prekeys are used once\<close>

lemma find_otpk_consumed:
  assumes "distinct (map otpk_public_key (en_one_time_prekeys en))" "find_otpk en pub = Some i"
  shows "find_otpk (consume_otpk i en) pub = None"
proof -
  let ?ks = "en_one_time_prekeys en"
  have i: "i < length ?ks" "otpk_public_key (?ks ! i) = pub"
    using assms(2) by (auto simp: find_otpk_def dest!: find_index_Some)
  have "otpk_consumed k" if k: "k \<in> set (?ks[i := (?ks ! i)\<lparr>otpk_consumed := True\<rparr>])" "otpk_public_key k = pub" for k
  proof -
    from k(1) obtain j where j: "j < length ?ks" "k = ?ks[i := (?ks ! i)\<lparr>otpk_consumed := True\<rparr>] ! j"
      by (auto simp: in_set_conv_nth)
    show ?thesis
    proof (cases "j = i")
      case True
      with j show ?thesis by simp
    next
      case False
      with j have "otpk_public_key (?ks ! j) = otpk_public_key (?ks ! i)" using k(2) i(2) by simp
      with assms(1) i(1) j(1) have "j = i" by (simp add: distinct_conv_nth) metis
      with False show ?thesis by simp
    qed
  qed
  then show ?thesis by (auto simp: find_otpk_def find_index_None consume_otpk_def)
qed

text \<open>Whether a handshake naming a one-time prekey is refused depends only on what the identity file keeps.\<close>

lemma accept_exhausted:
  assumes "zia_session_accept_handshake L nn en hs e = (Ok s, en', e')" "h_has_one_time_prekey hs \<noteq> 0"
    and "en_has_identity en2 = en_has_identity en" "en_signed_prekey en2 = en_signed_prekey en"
    and "en_identity_public en2 = en_identity_public en" "en_identity_private en2 = en_identity_private en"
    and "find_otpk en2 (h_used_one_time_prekey hs) = None"
  shows "zia_session_accept_handshake L nn en2 hs e2 = (Err ZIA_ERR_BUNDLE_EXHAUSTED, en2, e2)"
  using assms
  by (auto simp: zia_session_accept_handshake_def case_prod_beta Let_def split: if_splits option.splits bool.splits)

lemma consume_list:
  assumes "list_all wf_otpk ks"
  shows "list_all wf_otpk (ks[i := (ks ! i)\<lparr>otpk_consumed := True\<rparr>])"
proof -
  have "wf_otpk (k\<lparr>otpk_consumed := True\<rparr>) = wf_otpk k" for k by (simp add: wf_otpk_def)
  then show ?thesis
    using assms
    by (cases "i < length ks") (auto simp: list_all_length nth_list_update list_update_beyond not_less)
qed

lemma consume_otpk_wf: "wf_engine en \<Longrightarrow> wf_engine (consume_otpk i en)"
  using consume_list [of "en_one_time_prekeys en" i] by (simp add: wf_engine_def consume_otpk_def)

text \<open>
  C18 (safety).  A one-time prekey serves one handshake: after a handshake naming it has been accepted, the
  same handshake is refused with \<open>ZIA_ERR_BUNDLE_EXHAUSTED\<close>, by the engine itself and, on a working disk
  and key store, by the engine that starts on the same storage after a restart.
\<close>

theorem one_time_prekey_single_use:
  assumes "disk_ok L" "stream_ok L" "vault_ready L e" "wf_engine en" "en_storage_path en \<noteq> []" "0 \<notin> set (en_storage_path en)"
    and "distinct (map otpk_public_key (en_one_time_prekeys en))"
    and "zia_session_accept_handshake L True en hs e = (Ok s, en', e')" "h_has_one_time_prekey hs \<noteq> 0"
    and "sodium_init_ok L"
  shows "zia_session_accept_handshake L True en' hs e2 = (Err ZIA_ERR_BUNDLE_EXHAUSTED, en', e2) \<and>
    (\<exists>en3 e3. zia_engine_init L (Some (en_storage_path en)) e' = (Some en3, ZIA_OK, e3) \<and>
       zia_session_accept_handshake L True en3 hs e3 = (Err ZIA_ERR_BUNDLE_EXHAUSTED, en3, e3))"
proof
  obtain i where i: "find_otpk en (h_used_one_time_prekey hs) = Some i" "en' = consume_otpk i en"
    "e' = snd (save_identity L (consume_otpk i en) e)"
    using accept_Ok [OF assms(8)] assms(9) by blast
  have none: "find_otpk en' (h_used_one_time_prekey hs) = None"
    using find_otpk_consumed [OF assms(7) i(1)] i(2) by simp
  have same: "en_has_identity en' = en_has_identity en" "en_signed_prekey en' = en_signed_prekey en"
    "en_identity_public en' = en_identity_public en" "en_identity_private en' = en_identity_private en"
    "en_storage_path en' = en_storage_path en"
    by (simp_all add: i(2) consume_otpk_def)
  show "zia_session_accept_handshake L True en' hs e2 = (Err ZIA_ERR_BUNDLE_EXHAUSTED, en', e2)"
    by (rule accept_exhausted [OF assms(8,9) same(1-4) none])
  let ?en0 = "new_ZiaEngine\<lparr>en_storage_path := en_storage_path en\<rparr>"
  let ?en3 = "with_identity en' (en_pq_prekey en') ?en0"
  obtain k raw e1 where sv: "save_identity L en' e = (True, e1)" "vault_holds L e1 k"
    "get_file e1 (identity_path (en_storage_path en')) = Some raw" "kMin \<le> length raw"
    "stream_open L k raw = Some (serialize_identity en')"
    by (rule save_identity_ok [OF assms(1-3), of en']) (use assms(5) same(5) in simp_all)
  have "wf_engine en'" using consume_otpk_wf [OF assms(4)] i(2) by simp
  with load_identity_ok [OF assms(1) sv(2), of ?en0 raw en'] sv assms(5) same(5) i
  obtain e3 where ld: "load_identity L ?en0 e' = (True, ?en3, e3)" by auto
  then have "zia_engine_init L (Some (en_storage_path en)) e' = (Some ?en3, ZIA_OK, e3)"
    using assms(6,10) by (simp add: zia_engine_init_def)
  moreover have "en_has_identity en"
    using assms(8) by (auto simp: zia_session_accept_handshake_def split: bool.splits if_splits)
  then have "zia_session_accept_handshake L True ?en3 hs e3 = (Err ZIA_ERR_BUNDLE_EXHAUSTED, ?en3, e3)"
    by (intro accept_exhausted [OF assms(8,9)])
      (use same none in \<open>simp_all add: with_identity_def find_otpk_def\<close>)
  ultimately show "\<exists>en3 e3. zia_engine_init L (Some (en_storage_path en)) e' = (Some en3, ZIA_OK, e3) \<and>
       zia_session_accept_handshake L True en3 hs e3 = (Err ZIA_ERR_BUNDLE_EXHAUSTED, en3, e3)" by blast
qed

text \<open>A responder with one prekey and a handshake for it.\<close>

definition sample_otpk_handshake :: ZiaHandshakeMaterial where
  "sample_otpk_handshake = no_handshake\<lparr>h_used_one_time_prekey := replicate 32 4, h_has_one_time_prekey := 1\<rparr>"

definition sample_responder :: ZiaEngine where
  "sample_responder = sample_engine\<lparr>en_one_time_prekeys := [\<lparr>otpk_public_key = replicate 32 4,
     otpk_private_key = replicate 32 4, otpk_consumed = False\<rparr>]\<rparr>"

lemma accept_classic:
  assumes "en_has_identity en" "64 \<le> length (en_identity_private en)" "en_signed_prekey en = Some spk" "\<not> en_require_pq en"
    and "h_has_one_time_prekey hs \<noteq> 0" "h_has_pq hs = 0" "find_otpk en (h_used_one_time_prekey hs) = Some i"
    and "\<And>x. ed25519_to_x25519_public L x \<noteq> None" "\<And>x. ed25519_to_x25519_private L x \<noteq> None"
    and "\<And>x y. x25519_scalarmult L x y \<noteq> None"
  shows "\<exists>s en' e'. zia_session_accept_handshake L True en hs e = (Ok s, en', e')"
proof -
  obtain a b c d1 d2 d3 d4 where "ed25519_to_x25519_public L (en_identity_public en) = Some a"
    "ed25519_to_x25519_private L (en_identity_private en) = Some b"
    "ed25519_to_x25519_public L (h_initiator_identity_key hs) = Some c"
    "x25519_scalarmult L (spk_private_key spk) c = Some d1"
    "x25519_scalarmult L b (h_initiator_ephemeral_key hs) = Some d2"
    "x25519_scalarmult L (spk_private_key spk) (h_initiator_ephemeral_key hs) = Some d3"
    "x25519_scalarmult L (otpk_private_key (en_one_time_prekeys en ! i)) (h_initiator_ephemeral_key hs) = Some d4"
    using assms(8-10) by (metis option.exhaust)
  with assms(1-7) show ?thesis
    by (simp add: zia_session_accept_handshake_def case_prod_beta) (simp add: Let_def)
qed

lemma sample_accept: "\<exists>s en' e'. zia_session_accept_handshake sample_lib True sample_responder sample_otpk_handshake env0 = (Ok s, en', e')"
proof (rule accept_classic)
  show "find_otpk sample_responder (h_used_one_time_prekey sample_otpk_handshake) = Some 0"
    by (simp add: find_otpk_def sample_responder_def sample_otpk_handshake_def)
qed (auto simp: sample_responder_def sample_engine_def new_ZiaEngine_def sample_otpk_handshake_def no_handshake_def
    x25519_scalarmult_def ed25519_to_x25519_public_def ed25519_to_x25519_private_def sample_lib_def)

theorem one_time_prekey_single_use_witness:
  "\<exists>s en' e'. zia_session_accept_handshake sample_lib True sample_responder sample_otpk_handshake env0 = (Ok s, en', e') \<and>
     zia_session_accept_handshake sample_lib True en' sample_otpk_handshake e' = (Err ZIA_ERR_BUNDLE_EXHAUSTED, en', e')"
proof -
  obtain s en' e' where a: "zia_session_accept_handshake sample_lib True sample_responder sample_otpk_handshake env0 = (Ok s, en', e')"
    using sample_accept by blast
  have "wf_engine sample_responder" "en_storage_path sample_responder \<noteq> []" "0 \<notin> set (en_storage_path sample_responder)"
    "distinct (map otpk_public_key (en_one_time_prekeys sample_responder))"
    using sample_engine_wf
    by (simp_all add: sample_responder_def wf_engine_def wf_otpk_def) (simp_all add: sample_engine_def ascii_def)
  from one_time_prekey_single_use [OF sample_disk_ok sample_stream_ok sample_vault_ready this a]
  have "zia_session_accept_handshake sample_lib True en' sample_otpk_handshake e' = (Err ZIA_ERR_BUNDLE_EXHAUSTED, en', e')"
    by (simp add: sample_otpk_handshake_def sample_lib_def)
  with a show ?thesis by blast
qed

text \<open>
  A rotation that fails is not without effect: when ML-KEM key generation fails, the function
  returns \<open>ZIA_ERR_CRYPTO_FAILURE\<close> although the signed prekey in memory has already been replaced, and the
  new one is neither published nor saved.  Handshakes against the published prekey then derive another
  secret on the responder's side.
\<close>

lemma failed_rotation_replaces_signed_prekey:
  assumes "en_has_identity en" "length (en_identity_private en) = 64" "OQS_keypair L (Suc (e_draw e)) = None"
  shows "\<exists>en' e'. zia_prekey_bundle_rotate L True en e = (Err ZIA_ERR_CRYPTO_FAILURE, en', e') \<and>
    map_option spk_public_key (en_signed_prekey en') = Some (fst (crypto_box_keypair L (e_draw e))) \<and>
    e_files e' = e_files e \<and> en_pq_prekey en' = en_pq_prekey en"
  using assms
  by (simp add: zia_prekey_bundle_rotate_def x25519_keypair_def mlkem768_keypair_def draw_def case_prod_beta
      kPqSecretKeyLen_def Let_def)

end
