(* ===== verification/Vault.thy ===== *)
theory Vault
  imports Identity_Store
begin

text \<open>
  \<open>src/storage/secure_blob.cpp\<close> and \<open>src/vault.cpp\<close>: named blobs, each encrypted in a file of the vault
  directory.  The contract \<open>blob_store\<close> says how reading, writing and erasing act on a view of the store;
  the vault implements it, and \<open>vault_refines_map\<close> lifts it to whole sequences of calls.
\<close>

section \<open>secure_blob.cpp\<close>

definition isalnum :: "u8 \<Rightarrow> bool" where
  "isalnum c \<longleftrightarrow> 48 \<le> c \<and> c \<le> 57 \<or> 65 \<le> c \<and> c \<le> 90 \<or> 97 \<le> c \<and> c \<le> 122"

definition valid_name :: "bytes \<Rightarrow> bool" where
  "valid_name name \<longleftrightarrow>
     name \<noteq> [] \<and> length name \<le> 128 \<and> list_all (\<lambda>c. isalnum c \<or> c = 46 \<or> c = 95 \<or> c = 45) name"

definition vault_dir :: "ZiaEngine \<Rightarrow> bytes" where
  "vault_dir en = path_join (en_storage_path en) (ascii ''vault'')"

definition vault_path :: "ZiaEngine \<Rightarrow> bytes \<Rightarrow> bytes" where
  "vault_path en name = path_join (vault_dir en) (name @ ascii ''.zia'')"

definition secure_write :: "lib \<Rightarrow> ZiaEngine \<Rightarrow> bytes \<Rightarrow> cbuf \<Rightarrow> env \<Rightarrow> bool \<times> env" where
  "secure_write L en name data e =
     (if en_storage_path en = [] \<or> \<not> valid_name name then (False, e)
      else case buf_read data of
        None \<Rightarrow> (False, e)
      | Some plain \<Rightarrow>
          let (mk, e1) = master_key L e in
          (case mk of
             None \<Rightarrow> (False, e1)
           | Some key \<Rightarrow>
               let (ok, e2) = create_directories L e1 in
               if \<not> ok then (False, e2) else
               let (sealed, e3) = stream_seal L key plain e2 in
               (case sealed of
                  None \<Rightarrow> (False, e3)
                | Some (header, cipher) \<Rightarrow>
                    let final_path = vault_path en name in
                    replace_file L (final_path @ ascii ''.tmp'') final_path (header @ cipher) e3)))"

definition secure_read :: "lib \<Rightarrow> ZiaEngine \<Rightarrow> bytes \<Rightarrow> env \<Rightarrow> bytes option \<times> env" where
  "secure_read L en name e =
     (if en_storage_path en = [] \<or> \<not> valid_name name then (None, e) else
      let (content, e1) = read_file L (vault_path en name) e in
      case content of
        None \<Rightarrow> (None, e1)
      | Some raw \<Rightarrow>
          if length raw < kMin then (None, e1) else
          let (mk, e2) = master_key L e1 in
          (case mk of None \<Rightarrow> (None, e2) | Some key \<Rightarrow> (stream_open L key raw, e2)))"

definition secure_erase :: "lib \<Rightarrow> ZiaEngine \<Rightarrow> bytes \<Rightarrow> env \<Rightarrow> bool \<times> env" where
  "secure_erase L en name e =
     (if en_storage_path en = [] \<or> \<not> valid_name name then (False, e)
      else remove_file L (vault_path en name) e)"

section \<open>vault.cpp\<close>

definition msg_vault_write :: bytes where
  "msg_vault_write = [0xC3, 0xA9] @ ascii ''criture dans le coffre local impossible''"

definition zia_secure_write ::
  "lib \<Rightarrow> bool \<Rightarrow> ZiaEngine \<Rightarrow> bytes \<Rightarrow> cbuf \<Rightarrow> env \<Rightarrow> unit res \<times> ZiaEngine \<times> env" where
  "zia_secure_write L nn en name data e =
     (if \<not> nn \<or> buf_bad data then (Err ZIA_ERR_INVALID_ARG, en, e) else
      let (ok, e1) = secure_write L en (cstr name) data e in
      if ok then (Ok (), en, e1) else (Err ZIA_ERR_STORAGE_IO, en\<lparr>en_last_error := msg_vault_write\<rparr>, e1))"

definition zia_secure_read :: "lib \<Rightarrow> bool \<Rightarrow> ZiaEngine \<Rightarrow> bytes \<Rightarrow> env \<Rightarrow> bytes res \<times> env" where
  "zia_secure_read L nn en name e =
     (if \<not> nn then (Err ZIA_ERR_INVALID_ARG, e) else
      let (r, e1) = secure_read L en (cstr name) e in
      case r of
        None \<Rightarrow> (Err ZIA_ERR_SESSION_NOT_FOUND, e1)
      | Some data \<Rightarrow>
          let (ok, e2) = malloc L (if data = [] then 1 else length data) e1 in
          if ok then (Ok data, e2) else (Err ZIA_ERR_OUT_OF_MEMORY, e2))"

definition zia_secure_erase :: "lib \<Rightarrow> bool \<Rightarrow> ZiaEngine \<Rightarrow> bytes \<Rightarrow> env \<Rightarrow> unit res \<times> env" where
  "zia_secure_erase L nn en name e =
     (if \<not> nn then (Err ZIA_ERR_INVALID_ARG, e) else
      let (ok, e1) = secure_erase L en (cstr name) e in
      (if ok then Ok () else Err ZIA_ERR_STORAGE_IO, e1))"

section \<open>Names and paths\<close>

lemma valid_name_no_slash: "valid_name n \<Longrightarrow> slash \<notin> set n \<and> 0 \<notin> set n"
  by (auto simp: valid_name_def list_all_iff isalnum_def slash_def)

lemma vault_dir_form: "vault_dir en \<noteq> [] \<and> last (vault_dir en) \<noteq> slash"
  by (simp add: vault_dir_def path_join_def ascii_def slash_def)

lemma vault_path_form:
  assumes "valid_name n"
  shows "vault_path en n = vault_dir en @ [slash] @ n @ ascii ''.zia''"
proof -
  have "n \<noteq> []" "hd n \<noteq> slash"
    using assms valid_name_no_slash [OF assms] by (auto simp: valid_name_def) (metis hd_in_set)
  then show ?thesis using vault_dir_form [of en] by (simp add: vault_path_def path_join_def)
qed

lemma vault_path_inj: "valid_name n \<Longrightarrow> valid_name m \<Longrightarrow> vault_path en n = vault_path en m \<longleftrightarrow> n = m"
  by (simp add: vault_path_form)

lemma tmp_not_vault_path:
  assumes "valid_name n" "valid_name m"
  shows "vault_path en n @ ascii ''.tmp'' \<noteq> vault_path en m"
proof
  assume "vault_path en n @ ascii ''.tmp'' = vault_path en m"
  then have "last (vault_path en n @ ascii ''.tmp'') = last (vault_path en m)" by simp
  then show False using assms by (simp add: vault_path_form ascii_def)
qed

section \<open>The contract of a blob store\<close>

locale blob_store =
  fixes inv :: "env \<Rightarrow> bool"
    and valid :: "bytes \<Rightarrow> bool"
    and view :: "env \<Rightarrow> bytes \<Rightarrow> bytes option"
    and rd :: "bytes \<Rightarrow> env \<Rightarrow> bytes option \<times> env"
    and wr :: "bytes \<Rightarrow> bytes \<Rightarrow> env \<Rightarrow> bool \<times> env"
    and er :: "bytes \<Rightarrow> env \<Rightarrow> bool \<times> env"
  assumes rd_law: "inv e \<Longrightarrow> valid n \<Longrightarrow> \<exists>e'. rd n e = (view e n, e') \<and> inv e' \<and> view e' = view e"
    and wr_law: "inv e \<Longrightarrow> valid n \<Longrightarrow>
      \<exists>e'. wr n d e = (True, e') \<and> inv e' \<and> (\<forall>m. valid m \<longrightarrow> view e' m = (if m = n then Some d else view e m))"
    and er_law: "inv e \<Longrightarrow> valid n \<Longrightarrow>
      \<exists>e'. er n e = (True, e') \<and> inv e' \<and> (\<forall>m. valid m \<longrightarrow> view e' m = (if m = n then None else view e m))"
begin

lemma read_after_write:
  assumes "inv e" "valid n" "valid m" "wr n d e = (r, e1)"
  shows "r \<and> fst (rd m e1) = (if m = n then Some d else view e m)"
  using wr_law [OF assms(1,2), of d] assms(3,4) rd_law [of e1 m] by auto

lemma read_after_erase:
  assumes "inv e" "valid n" "valid m" "er n e = (r, e1)"
  shows "r \<and> fst (rd m e1) = (if m = n then None else view e m)"
  using er_law [OF assms(1,2)] assms(3,4) rd_law [of e1 m] by auto

end

text \<open>The vault under a held master key, on a working disk.\<close>

definition vault_inv :: "lib \<Rightarrow> ZiaEngine \<Rightarrow> bytes \<Rightarrow> env \<Rightarrow> bool" where
  "vault_inv L en k e \<longleftrightarrow> disk_ok L \<and> stream_ok L \<and> vault_holds L e k \<and> en_storage_path en \<noteq> []"

definition vault_view :: "lib \<Rightarrow> ZiaEngine \<Rightarrow> bytes \<Rightarrow> env \<Rightarrow> bytes \<Rightarrow> bytes option" where
  "vault_view L en k e n =
     (case get_file e (vault_path en n) of
        None \<Rightarrow> None
      | Some raw \<Rightarrow> if length raw < kMin then None else stream_open L k raw)"

lemma secure_read_ok:
  assumes "vault_inv L en k e" "valid_name n"
  shows "\<exists>e'. secure_read L en n e = (vault_view L en k e n, e') \<and> vault_inv L en k e' \<and>
    vault_view L en k e' = vault_view L en k e"
proof -
  let ?e1 = "e\<lparr>e_io := Suc (e_io e)\<rparr>"
  have d: "disk_ok L" "vault_holds L ?e1 k" "en_storage_path en \<noteq> []"
    using assms(1) by (simp_all add: vault_inv_def vault_holds_def)
  note run = read_file_ok [OF d(1), of "vault_path en n" e] ensure_holds [OF d(2)]
  have inv: "vault_inv L en k (e\<lparr>e_io := x\<rparr>)" "vault_inv L en k (e\<lparr>e_io := x, e_service := y\<rparr>)" for x y
    using assms(1) by (simp_all add: vault_inv_def vault_holds_def)
  have view: "vault_view L en k (e\<lparr>e_io := x\<rparr>) = vault_view L en k e"
    "vault_view L en k (e\<lparr>e_io := x, e_service := y\<rparr>) = vault_view L en k e" for x y
    by (simp_all add: vault_view_def fun_eq_iff)
  show ?thesis
    using run d(3) assms(2) inv view
    by (auto simp: secure_read_def vault_view_def split: option.split)
qed

lemma secure_write_ok:
  assumes "vault_inv L en k e" "valid_name n"
  shows "\<exists>e'. secure_write L en n (Buf d) e = (True, e') \<and> vault_inv L en k e' \<and>
    (\<forall>m. valid_name m \<longrightarrow> vault_view L en k e' m = (if m = n then Some d else vault_view L en k e m))"
proof -
  have i: "disk_ok L" "stream_ok L" "vault_holds L e k" "en_storage_path en \<noteq> []"
    using assms(1) by (simp_all add: vault_inv_def)
  have len: "length k = 32" by (rule mkey.holds_len [OF i(3)])
  let ?e2 = "e\<lparr>e_service := Suc (Suc (e_service e)), e_io := Suc (e_io e)\<rparr>"
  let ?p = "vault_path en n"
  obtain header cipher where s: "stream_seal L k d ?e2 = (Some (header, cipher), ?e2\<lparr>e_draw := Suc (e_draw ?e2)\<rparr>)"
    "length (header @ cipher) = length d + kMin" "stream_open L k (header @ cipher) = Some d"
    by (rule stream_seal_ok [OF i(2) len])
  let ?e3 = "?e2\<lparr>e_draw := Suc (e_draw ?e2)\<rparr>"
  obtain e' where e': "replace_file L (?p @ ascii ''.tmp'') ?p (header @ cipher) ?e3 = (True, e')"
    "get_file e' ?p = Some (header @ cipher)" "e_secret e' = e_secret ?e3"
    by (rule replace_file_ok [OF i(1) tmp_neq]) blast
  have run: "secure_write L en n (Buf d) e = (True, e')"
    using i assms(2) ensure_holds [OF i(3)] s(1) e'(1)
    by (simp add: secure_write_def create_directories_def io_def disk_ok_def Let_def)
  have inv: "vault_inv L en k e'" using i vault_holds_cong [OF i(3)] e'(3) by (simp add: vault_inv_def)
  have "vault_view L en k e' m = vault_view L en k e m" if "valid_name m" "m \<noteq> n" for m
  proof -
    have "vault_path en m \<noteq> ?p @ ascii ''.tmp''" "vault_path en m \<noteq> ?p"
      using tmp_not_vault_path [OF assms(2) that(1)] vault_path_inj [OF that(1) assms(2)] that(2) by metis+
    then have "get_file e' (vault_path en m) = get_file e (vault_path en m)"
      using replace_file_other [of "vault_path en m" "?p @ ascii ''.tmp''" ?p L "header @ cipher" ?e3] e'(1) by simp
    then show ?thesis by (simp add: vault_view_def)
  qed
  moreover have "vault_view L en k e' n = Some d" using e'(2) s(2,3) by (simp add: vault_view_def)
  ultimately show ?thesis using run inv by auto
qed

lemma secure_erase_ok:
  assumes "vault_inv L en k e" "valid_name n"
  shows "\<exists>e'. secure_erase L en n e = (True, e') \<and> vault_inv L en k e' \<and>
    (\<forall>m. valid_name m \<longrightarrow> vault_view L en k e' m = (if m = n then None else vault_view L en k e m))"
proof -
  let ?e' = "drop_file (vault_path en n) (e\<lparr>e_io := Suc (e_io e)\<rparr>)"
  have "secure_erase L en n e = (True, ?e')"
    using assms by (simp add: secure_erase_def remove_file_def io_def vault_inv_def disk_ok_def)
  moreover have "vault_inv L en k ?e'" using assms(1) by (simp add: vault_inv_def vault_holds_def)
  moreover have "vault_view L en k ?e' m = (if m = n then None else vault_view L en k e m)" if "valid_name m" for m
    using vault_path_inj [OF that assms(2)] by (simp add: vault_view_def get_drop_file)
  ultimately show ?thesis by blast
qed

interpretation blob: blob_store "vault_inv L en k" valid_name "vault_view L en k" "secure_read L en"
  "\<lambda>n d. secure_write L en n (Buf d)" "secure_erase L en" for L en k
  by unfold_locales (fact secure_read_ok, fact secure_write_ok, fact secure_erase_ok)

section \<open>Sequences of calls\<close>

datatype vop = VWrite bytes bytes | VRead bytes | VErase bytes

fun vop_name :: "vop \<Rightarrow> bytes" where
  "vop_name (VWrite n d) = n" | "vop_name (VRead n) = n" | "vop_name (VErase n) = n"

text \<open>The answers of the interface: a status, with the data for a read.\<close>

fun vault_step :: "lib \<Rightarrow> ZiaEngine \<Rightarrow> vop \<Rightarrow> env \<Rightarrow> bytes res \<times> ZiaEngine \<times> env" where
  "vault_step L en (VWrite n d) e =
     (let (r, en', e') = zia_secure_write L True en n (Buf d) e in
      (case r of Ok _ \<Rightarrow> Ok [] | Err s \<Rightarrow> Err s | Crash \<Rightarrow> Crash, en', e'))"
| "vault_step L en (VRead n) e = (let (r, e') = zia_secure_read L True en n e in (r, en, e'))"
| "vault_step L en (VErase n) e =
     (let (r, e') = zia_secure_erase L True en n e in
      (case r of Ok _ \<Rightarrow> Ok [] | Err s \<Rightarrow> Err s | Crash \<Rightarrow> Crash, en, e'))"

primrec vault_run :: "lib \<Rightarrow> ZiaEngine \<Rightarrow> vop list \<Rightarrow> env \<Rightarrow> bytes res list" where
  "vault_run L en [] e = []"
| "vault_run L en (c # cs) e = (let (r, en', e') = vault_step L en c e in r # vault_run L en' cs e')"

text \<open>The specification: a finite map.\<close>

fun map_step :: "vop \<Rightarrow> (bytes \<rightharpoonup> bytes) \<Rightarrow> bytes res \<times> (bytes \<rightharpoonup> bytes)" where
  "map_step (VWrite n d) m = (Ok [], m(n \<mapsto> d))"
| "map_step (VRead n) m = (case m n of Some d \<Rightarrow> Ok d | None \<Rightarrow> Err ZIA_ERR_SESSION_NOT_FOUND, m)"
| "map_step (VErase n) m = (Ok [], m(n := None))"

primrec map_run :: "vop list \<Rightarrow> (bytes \<rightharpoonup> bytes) \<Rightarrow> bytes res list" where
  "map_run [] m = []"
| "map_run (c # cs) m = (let (r, m') = map_step c m in r # map_run cs m')"

lemma cstr_valid: "valid_name n \<Longrightarrow> cstr n = n"
  using valid_name_no_slash by simp

lemma vault_step_refines:
  assumes "mem_ok L" "vault_inv L en k e" "valid_name (vop_name c)"
    and "\<And>n. valid_name n \<Longrightarrow> m n = vault_view L en k e n"
  obtains e' where "vault_step L en c e = (fst (map_step c m), en, e')" "vault_inv L en k e'"
    "\<And>n. valid_name n \<Longrightarrow> snd (map_step c m) n = vault_view L en k e' n"
proof (cases c)
  case (VWrite n d)
  with assms(2,3) secure_write_ok [of L en k e n d] obtain e' where
    "secure_write L en n (Buf d) e = (True, e')" "vault_inv L en k e'"
    "\<forall>m. valid_name m \<longrightarrow> vault_view L en k e' m = (if m = n then Some d else vault_view L en k e m)" by auto
  with that [of e'] VWrite assms(3,4) show thesis by (auto simp: zia_secure_write_def cstr_valid)
next
  case (VRead n)
  with assms(2,3) secure_read_ok [of L en k e n] obtain e' where
    r: "secure_read L en n e = (vault_view L en k e n, e')" "vault_inv L en k e'"
    "vault_view L en k e' = vault_view L en k e" by auto
  have inv: "vault_inv L en k (e'\<lparr>e_alloc := x\<rparr>)" "vault_view L en k (e'\<lparr>e_alloc := x\<rparr>) = vault_view L en k e" for x
    using r(2,3) by (simp_all add: vault_inv_def vault_holds_def vault_view_def fun_eq_iff)
  show thesis
  proof (cases "vault_view L en k e n")
    case None
    with r that [of e'] VRead assms(3,4) show thesis by (auto simp: zia_secure_read_def cstr_valid)
  next
    case (Some d)
    with r inv that [of "e'\<lparr>e_alloc := Suc (e_alloc e')\<rparr>"] VRead assms(1,3,4) show thesis
      by (auto simp: zia_secure_read_def cstr_valid malloc_mem_ok)
  qed
next
  case (VErase n)
  with assms(2,3) secure_erase_ok [of L en k e n] obtain e' where
    "secure_erase L en n e = (True, e')" "vault_inv L en k e'"
    "\<forall>m. valid_name m \<longrightarrow> vault_view L en k e' m = (if m = n then None else vault_view L en k e m)" by auto
  with that [of e'] VErase assms(3,4) show thesis by (auto simp: zia_secure_erase_def cstr_valid)
qed

text \<open>
  C9 (refinement).  The vault is a map from names to byte strings: any sequence of writes, reads and
  erasures through the exported functions, on valid names, answers exactly as the same sequence on a map
  that starts with what the vault holds.
\<close>

theorem vault_refines_map:
  assumes "mem_ok L" "vault_inv L en k e" "list_all (\<lambda>c. valid_name (vop_name c)) cs"
    and "\<And>n. valid_name n \<Longrightarrow> m n = vault_view L en k e n"
  shows "vault_run L en cs e = map_run cs m"
  using assms(2-4)
proof (induction cs arbitrary: e m)
  case Nil
  then show ?case by simp
next
  case (Cons c cs)
  have "valid_name (vop_name c)" using Cons.prems(2) by simp
  from vault_step_refines [OF assms(1) Cons.prems(1) this Cons.prems(3)] obtain e' where
    "vault_step L en c e = (fst (map_step c m), en, e')" "vault_inv L en k e'"
    "\<And>n. valid_name n \<Longrightarrow> snd (map_step c m) n = vault_view L en k e' n" by blast
  with Cons.IH [of e' "snd (map_step c m)"] Cons.prems(2) show ?case by (simp add: case_prod_beta)
qed

definition vault_env :: env where
  "vault_env = env0\<lparr>e_secret := Some (sample_hex (replicate 32 7))\<rparr>"

lemma sample_vault_inv: "vault_inv sample_lib sample_engine (replicate 32 7) vault_env"
proof -
  have "vault_holds sample_lib vault_env (replicate 32 7)"
    by (simp add: vault_holds_def vault_env_def sample_laws) (simp add: sample_lib_def)
  then show ?thesis by (simp add: vault_inv_def sample_laws) (simp add: sample_engine_def ascii_def)
qed

theorem vault_refines_map_witness:
  "vault_run sample_lib sample_engine
     [VRead (ascii ''a''), VWrite (ascii ''a'') [1], VWrite (ascii ''b'') [2], VRead (ascii ''a''), VErase (ascii ''a''), VRead (ascii ''a'')]
     vault_env = [Err ZIA_ERR_SESSION_NOT_FOUND, Ok [], Ok [], Ok [1], Ok [], Err ZIA_ERR_SESSION_NOT_FOUND]"
proof -
  have "(\<lambda>_. None) n = vault_view sample_lib sample_engine (replicate 32 7) vault_env n" for n
    by (simp add: vault_view_def vault_env_def env0_def get_file_def)
  from vault_refines_map [OF sample_mem_ok sample_vault_inv _ this, where cs = "[VRead (ascii ''a''),
      VWrite (ascii ''a'') [1], VWrite (ascii ''b'') [2], VRead (ascii ''a''), VErase (ascii ''a''), VRead (ascii ''a'')]"]
  have "vault_run sample_lib sample_engine
     [VRead (ascii ''a''), VWrite (ascii ''a'') [1], VWrite (ascii ''b'') [2], VRead (ascii ''a''), VErase (ascii ''a''), VRead (ascii ''a'')]
     vault_env = map_run [VRead (ascii ''a''), VWrite (ascii ''a'') [1], VWrite (ascii ''b'') [2], VRead (ascii ''a''),
       VErase (ascii ''a''), VRead (ascii ''a'')] (\<lambda>_. None)"
    by (simp add: valid_name_def isalnum_def ascii_def del: vault_run.simps map_run.simps)
  also have "\<dots> = [Err ZIA_ERR_SESSION_NOT_FOUND, Ok [], Ok [], Ok [1], Ok [], Err ZIA_ERR_SESSION_NOT_FOUND]"
    by (simp add: ascii_def)
  finally show ?thesis .
qed

lemma secure_write_other:
  assumes "p \<noteq> vault_path en n" "p \<noteq> vault_path en n @ ascii ''.tmp''"
  shows "get_file (snd (secure_write L en n d e)) p = get_file e p"
proof -
  obtain mk e1 where m: "ensure_master_key L e = (mk, e1)" by fastforce
  have f1: "get_file e1 p = get_file e p" using ensure_files [of L e p] m by simp
  let ?e2 = "e1\<lparr>e_io := Suc (e_io e1)\<rparr>"
  show ?thesis
  proof (cases "buf_read d = None \<or> mk = None \<or> \<not> io_ok L (e_io e1)")
    case True
    with m f1 show ?thesis
      by (auto simp: secure_write_def create_directories_def io_def split: option.split)
  next
    case False
    then obtain key pl where k: "mk = Some key" "buf_read d = Some pl" by auto
    obtain sl e3 where s: "stream_seal L key pl ?e2 = (sl, e3)" by fastforce
    have "get_file e3 p = get_file e p" using stream_seal_frames(1) [of L key pl ?e2 p] s f1 by simp
    then show ?thesis
      using m k False s assms
      by (cases sl) (auto simp: secure_write_def create_directories_def io_def Let_def replace_file_other)
  qed
qed

text \<open>
  C32 (safety).  Confinement: whatever name is passed, a valid one designates a file lying directly in the
  vault directory (it contains no separator), an invalid one is refused without a system call, and no
  call ever touches a file other than that one and its temporary sibling.
\<close>

theorem vault_confined:
  shows "(valid_name n \<longrightarrow> slash \<notin> set n \<and> vault_path en n = vault_dir en @ [slash] @ n @ ascii ''.zia'') \<and>
    (\<not> valid_name n \<longrightarrow> secure_write L en n d e = (False, e) \<and> secure_read L en n e = (None, e) \<and>
       secure_erase L en n e = (False, e)) \<and>
    (\<forall>p. p \<noteq> vault_path en n \<and> p \<noteq> vault_path en n @ ascii ''.tmp'' \<longrightarrow>
       get_file (snd (secure_write L en n d e)) p = get_file e p \<and>
       get_file (snd (secure_erase L en n e)) p = get_file e p)"
  by (auto simp: valid_name_no_slash vault_path_form secure_write_def secure_read_def secure_erase_def
      remove_file_def io_def get_drop_file secure_write_other [unfolded secure_write_def])

theorem vault_confined_witness:
  "vault_path sample_engine (ascii ''..'') = ascii ''/z/vault/...zia'' \<and>
   secure_read sample_lib sample_engine (ascii ''../x'') vault_env = (None, vault_env)"
proof -
  have "valid_name (ascii ''..'')" "\<not> valid_name (ascii ''../x'')"
    by (simp_all add: valid_name_def isalnum_def ascii_def)
  with vault_confined [of "ascii ''..''" sample_engine] vault_confined [of "ascii ''../x''" sample_engine sample_lib "Buf []" vault_env]
  show ?thesis
    by (simp add: vault_dir_def path_join_def sample_engine_def ascii_def slash_def)
qed

end
