(* ===== verification/Backup.thy ===== *)
theory Backup
  imports Vault "HOL-Library.List_Lexorder"
begin

text \<open>
  \<open>src/backup.cpp\<close>: a backup carries the identity and every readable vault entry, encrypted under a key
  derived from a passphrase.  Importing writes the vault entries one by one while it parses, so a failure
  half-way leaves the entries written so far.

  The directory listing is one call that either lists the files or nothing; \<open>std::sort\<close> on strings is
  the sorting by the lexicographic order of unsigned bytes.
\<close>

section \<open>Model\<close>

definition kMagic :: bytes where "kMagic = ascii ''ZIABKP01''"
definition kOpsLimit :: u64 where "kOpsLimit = 4"
definition kMemLimit :: u64 where "kMemLimit = 67108864"
definition MEMLIMIT_MIN :: u64 where "MEMLIMIT_MIN = 8192"
definition SALTBYTES :: nat where "SALTBYTES = 16"

definition kKindIdentity :: u8 where "kKindIdentity = 0"
definition kKindVault :: u8 where "kKindVault = 1"

text \<open>
  The stem of a path lying directly in a directory with extension \<open>.zia\<close> (a file called just \<open>.zia\<close>
  has no extension).
\<close>

definition entry_stem :: "bytes \<Rightarrow> bytes \<Rightarrow> bytes option" where
  "entry_stem dir path =
     (let n = drop (length dir + 1) path; k = length n - 4 in
      if take (length dir + 1) path = dir @ [slash] \<and> slash \<notin> set n \<and> 4 < length n \<and> drop k n = ascii ''.zia''
      then Some (take k n) else None)"

definition vault_entries :: "lib \<Rightarrow> ZiaEngine \<Rightarrow> env \<Rightarrow> bytes list \<times> env" where
  "vault_entries L en e =
     (let (found, e1) = io L e in
      if \<not> found then ([], e1) else
      let (listed, e2) = io L e1 in
      if \<not> listed then ([], e2)
      else (sort (List.map_filter (entry_stem (vault_dir en)) (remdups (map fst (e_files e2)))), e2))"

text \<open>One record of the plaintext.\<close>

definition backup_entry :: "u8 \<Rightarrow> bytes \<Rightarrow> bytes \<Rightarrow> bytes" where
  "backup_entry kind nom data =
     [kind] @ write_u32_le (of_nat (length nom)) @ nom @ write_u32_le (of_nat (length data)) @ data"

primrec export_entries :: "lib \<Rightarrow> ZiaEngine \<Rightarrow> bytes list \<Rightarrow> env \<Rightarrow> bytes \<times> env" where
  "export_entries L en [] e = ([], e)"
| "export_entries L en (nom # noms) e =
     (let (r, e1) = secure_read L en nom e;
          (rest, e2) = export_entries L en noms e1
      in (case r of None \<Rightarrow> rest | Some data \<Rightarrow> backup_entry kKindVault nom data @ rest, e2))"

definition msg_no_identity :: bytes where "msg_no_identity = ascii ''aucune identite a sauvegarder''"
definition msg_pass_short :: bytes where
  "msg_pass_short = ascii ''phrase de passe trop courte (12 caracteres minimum)''"
definition msg_memory :: bytes where "msg_memory = ascii ''memoire insuffisante pour deriver la cle''"
definition msg_not_backup :: bytes where "msg_not_backup = ascii ''ce fichier n'est pas une sauvegarde ZiaCrypte''"
definition msg_truncated :: bytes where "msg_truncated = ascii ''sauvegarde tronquee''"
definition msg_bounds :: bytes where "msg_bounds = ascii ''parametres de sauvegarde hors bornes''"
definition msg_unreadable :: bytes where "msg_unreadable = ascii ''sauvegarde illisible''"
definition msg_pass_wrong :: bytes where "msg_pass_wrong = ascii ''phrase de passe incorrecte, ou sauvegarde alteree''"
definition msg_incomplete :: bytes where "msg_incomplete = ascii ''sauvegarde incomplete''"
definition msg_unreadable_incomplete :: bytes where
  "msg_unreadable_incomplete = ascii ''sauvegarde illisible ou incomplete''"
definition msg_save :: bytes where "msg_save = ascii ''impossible d'enregistrer l'identite restauree''"

definition zia_backup_export :: "lib \<Rightarrow> bool \<Rightarrow> ZiaEngine \<Rightarrow> bytes \<Rightarrow> env \<Rightarrow> bytes res \<times> ZiaEngine \<times> env" where
  "zia_backup_export L nn en passphrase e =
     (if \<not> nn then (Err ZIA_ERR_INVALID_ARG, en, e)
      else if \<not> en_has_identity en then (Err ZIA_ERR_INVALID_ARG, en\<lparr>en_last_error := msg_no_identity\<rparr>, e)
      else if length (cstr passphrase) < 12 then (Err ZIA_ERR_INVALID_ARG, en\<lparr>en_last_error := msg_pass_short\<rparr>, e)
      else if length (en_identity_private en) < 64 then (Crash, en, e) else
      let (noms, e1) = vault_entries L en e;
          (entries, e2) = export_entries L en noms e1;
          plain = write_u32_le (of_nat (1 + length noms)) @
                  backup_entry kKindIdentity [] (serialize_identity en) @ entries;
          (d, e3) = draw e2;
          salt = randombytes_buf L d SALTBYTES
      in case crypto_pwhash L (cstr passphrase) salt kOpsLimit kMemLimit of
           None \<Rightarrow> (Err ZIA_ERR_OUT_OF_MEMORY, en\<lparr>en_last_error := msg_memory\<rparr>, e3)
         | Some key \<Rightarrow>
             let (sealed, e4) = stream_seal L key plain e3 in
             (case sealed of
                None \<Rightarrow> (Err ZIA_ERR_CRYPTO_FAILURE, en, e4)
              | Some (header, cipher) \<Rightarrow>
                  let blob = kMagic @ salt @ put_u64 kOpsLimit @ put_u64 kMemLimit @ header @ cipher;
                      (ok, e5) = malloc L (length blob) e4
                  in (if ok then Ok blob else Err ZIA_ERR_OUT_OF_MEMORY, en, e5)))"

text \<open>
  The first half of \<open>zia_backup_import\<close>, up to the decrypted content: a failure carries the status and the
  message left in \<open>last_error\<close>.
\<close>

definition backup_open :: "lib \<Rightarrow> bytes \<Rightarrow> bytes \<Rightarrow> ZiaStatus \<times> bytes + bytes" where
  "backup_open L pass data =
     (case reader_read 8 data of
        None \<Rightarrow> Inl (ZIA_ERR_INVALID_ARG, msg_not_backup)
      | Some (magic, r0) \<Rightarrow>
          if magic \<noteq> kMagic then Inl (ZIA_ERR_INVALID_ARG, msg_not_backup) else
          (case do { (salt, r1) \<leftarrow> reader_read SALTBYTES r0; (ops, r2) \<leftarrow> reader_u64 r1;
                     (mem, r3) \<leftarrow> reader_u64 r2; (header, r4) \<leftarrow> reader_read HEADERBYTES r3;
                     Some (salt, ops, mem, header, r4) } of
             None \<Rightarrow> Inl (ZIA_ERR_INVALID_ARG, msg_truncated)
           | Some (salt, ops, mem, header, r) \<Rightarrow>
               if ops = 0 \<or> ops > 16 \<or> mem < MEMLIMIT_MIN \<or> mem > 1024 * 1024 * 1024
               then Inl (ZIA_ERR_INVALID_ARG, msg_bounds)
               else if length r < ABYTES then Inl (ZIA_ERR_INVALID_ARG, msg_truncated) else
               (case crypto_pwhash L pass salt ops mem of
                  None \<Rightarrow> Inl (ZIA_ERR_OUT_OF_MEMORY, msg_memory)
                | Some key \<Rightarrow>
                    (case secretstream_init_pull L header key of
                       None \<Rightarrow> Inl (ZIA_ERR_CRYPTO_FAILURE, msg_unreadable)
                     | Some st \<Rightarrow>
                         (case secretstream_pull L st r of
                            None \<Rightarrow> Inl (ZIA_ERR_CRYPTO_FAILURE, msg_pass_wrong)
                          | Some (plain, tag) \<Rightarrow>
                              if tag \<noteq> TAG_FINAL then Inl (ZIA_ERR_CRYPTO_FAILURE, msg_incomplete)
                              else Inr plain)))))"

text \<open>The fields of one record: kind, name and payload, and the bytes after it.\<close>

definition read_entry :: "bytes \<Rightarrow> ((u8 \<times> bytes \<times> bytes) \<times> bytes) option" where
  "read_entry r =
     do { (kind, r1) \<leftarrow> reader_read 1 r; (name_len, r2) \<leftarrow> reader_u32 r1;
          (nom, r3) \<leftarrow> reader_read (unat name_len) r2; (data_len, r4) \<leftarrow> reader_u32 r3;
          (payload, r5) \<leftarrow> reader_read (unat data_len) r4;
          Some ((hd kind, nom, payload), r5) }"

text \<open>The loop over the records: whether all went well, \<open>identite_vue\<close>, the engine and the environment.\<close>

primrec import_loop :: "lib \<Rightarrow> nat \<Rightarrow> bytes \<Rightarrow> bool \<Rightarrow> ZiaEngine \<Rightarrow> env \<Rightarrow> bool \<times> bool \<times> ZiaEngine \<times> env" where
  "import_loop L 0 p vue en e = (True, vue, en, e)"
| "import_loop L (Suc n) p vue en e =
     (case read_entry p of
        None \<Rightarrow> (False, vue, en, e)
      | Some ((kind, nom, payload), p') \<Rightarrow>
          if kind = kKindIdentity then
            (let (ok, en') = deserialize_identity payload en in
             if ok then import_loop L n p' True en' e else (False, False, en', e))
          else if kind = kKindVault then
            (let (ok, e') = secure_write L en nom (Buf payload) e in
             if ok then import_loop L n p' vue en e' else (False, vue, en, e'))
          else import_loop L n p' vue en e)"

definition zia_backup_import :: "lib \<Rightarrow> bool \<Rightarrow> ZiaEngine \<Rightarrow> bytes \<Rightarrow> bytes \<Rightarrow> env \<Rightarrow> unit res \<times> ZiaEngine \<times> env" where
  "zia_backup_import L nn en passphrase data e =
     (if \<not> nn then (Err ZIA_ERR_INVALID_ARG, en, e) else
      case backup_open L (cstr passphrase) data of
        Inl (s, msg) \<Rightarrow> (Err s, en\<lparr>en_last_error := msg\<rparr>, e)
      | Inr plain \<Rightarrow>
          let (ok, vue, en1, e1) =
            (case reader_u32 plain of
               None \<Rightarrow> (False, False, en, e)
             | Some (count, p) \<Rightarrow> import_loop L (unat count) p False en e)
          in if \<not> ok \<or> \<not> vue then
               (Err ZIA_ERR_CRYPTO_FAILURE, en1\<lparr>en_last_error := msg_unreadable_incomplete\<rparr>, e1)
             else
             let (saved, e2) = save_identity L en1 e1 in
             if saved then (Ok (), en1, e2) else (Err ZIA_ERR_STORAGE_IO, en1\<lparr>en_last_error := msg_save\<rparr>, e2))"

section \<open>Listing the vault\<close>

lemma entry_stem_path: "valid_name n \<Longrightarrow> entry_stem (vault_dir en) (vault_path en n) = Some n"
  using valid_name_no_slash [of n]
  by (auto simp: entry_stem_def vault_path_form valid_name_def Let_def slash_def ascii_def)

lemma entry_stem_Some:
  assumes "entry_stem (vault_dir en) p = Some n"
  shows "p = vault_dir en @ [slash] @ n @ ascii ''.zia''"
proof -
  let ?d = "length (vault_dir en) + 1"
  let ?n = "drop ?d p"
  have t: "take ?d p = vault_dir en @ [slash]" "drop (length ?n - 4) ?n = ascii ''.zia''" "take (length ?n - 4) ?n = n"
    using assms by (simp_all add: entry_stem_def Let_def split: if_splits)
  have "p = take ?d p @ take (length ?n - 4) ?n @ drop (length ?n - 4) ?n" by (simp only: append_take_drop_id)
  then show ?thesis unfolding t by simp
qed

lemma vault_entries_ok:
  assumes "disk_ok L"
  shows "\<exists>noms. vault_entries L en e = (noms, e\<lparr>e_io := Suc (Suc (e_io e))\<rparr>) \<and>
    (\<forall>n. valid_name n \<longrightarrow> n \<in> set noms \<longleftrightarrow> get_file e (vault_path en n) \<noteq> None) \<and>
    length noms \<le> length (e_files e)"
proof -
  have "n \<in> set (List.map_filter (entry_stem (vault_dir en)) (remdups (map fst (e_files e)))) \<longleftrightarrow>
      get_file e (vault_path en n) \<noteq> None" if "valid_name n" for n
  proof
    assume "n \<in> set (List.map_filter (entry_stem (vault_dir en)) (remdups (map fst (e_files e))))"
    then obtain p where "p \<in> fst ` set (e_files e)" "entry_stem (vault_dir en) p = Some n"
      by (force simp: map_filter_def)
    with entry_stem_Some [of en p n] vault_path_form [OF that, of en]
    show "get_file e (vault_path en n) \<noteq> None" by (simp add: get_file_def map_of_eq_None_iff)
  next
    assume "get_file e (vault_path en n) \<noteq> None"
    then have "vault_path en n \<in> fst ` set (e_files e)" by (simp add: get_file_def map_of_eq_None_iff)
    with entry_stem_path [OF that, of en]
    show "n \<in> set (List.map_filter (entry_stem (vault_dir en)) (remdups (map fst (e_files e))))"
      by (force simp: map_filter_def)
  qed
  moreover have "length (List.map_filter (entry_stem (vault_dir en)) (remdups (map fst (e_files e)))) \<le> length (e_files e)"
  proof -
    have "length (filter P (remdups xs)) \<le> length xs" for P and xs :: "bytes list"
      by (rule le_trans [OF length_filter_le length_remdups_leq])
    from this [of _ "map fst (e_files e)"] show ?thesis by (simp add: map_filter_def)
  qed
  ultimately show ?thesis using assms by (simp add: vault_entries_def io_def disk_ok_def Let_def)
qed

section \<open>Records\<close>

lemma read_entry_entry:
  assumes "length nom < 2 ^ 32" "length data < 2 ^ 32"
  shows "read_entry (backup_entry kind nom data @ r) = Some ((kind, nom, data), r)"
  using assms by (simp add: read_entry_def backup_entry_def unat_of_nat)

abbreviation vault_entry :: "bytes \<times> bytes \<Rightarrow> bytes" where
  "vault_entry p \<equiv> backup_entry kKindVault (fst p) (snd p)"

text \<open>The entries of a list of names that can be read, with their contents.\<close>

definition readable :: "(bytes \<Rightarrow> bytes option) \<Rightarrow> bytes list \<Rightarrow> (bytes \<times> bytes) list" where
  "readable view noms = List.map_filter (\<lambda>n. if valid_name n then map_option (Pair n) (view n) else None) noms"

lemma readable_simps [simp]:
  "readable view [] = []"
  "readable view (n # noms) =
     (case if valid_name n then view n else None of None \<Rightarrow> readable view noms | Some d \<Rightarrow> (n, d) # readable view noms)"
  by (auto simp: readable_def map_filter_def split: option.split)

lemma readable_set: "(n, d) \<in> set (readable view noms) \<longleftrightarrow> n \<in> set noms \<and> valid_name n \<and> view n = Some d"
  by (induction noms) (auto split: option.splits if_splits)

lemma readable_length: "length (readable view noms) \<le> length noms"
  by (induction noms) (auto split: option.splits)

lemma readable_all: "length (readable view noms) = length noms \<longleftrightarrow> (\<forall>n\<in>set noms. valid_name n \<and> view n \<noteq> None)"
proof (induction noms)
  case (Cons n noms)
  with readable_length [of view noms] show ?case by (auto split: option.splits)
qed simp

lemma map_of_readable:
  "map_of (rev (readable view noms)) n = (if n \<in> set noms \<and> valid_name n then view n else None)"
proof (cases "map_of (rev (readable view noms)) n")
  case None
  then have "n \<notin> fst ` set (readable view noms)" by (simp add: map_of_eq_None_iff)
  then have "\<nexists>d. (n, d) \<in> set (readable view noms)" by force
  with None show ?thesis by (auto simp: readable_set)
next
  case (Some d)
  then have "(n, d) \<in> set (readable view noms)" using map_of_SomeD [of "rev (readable view noms)" n d] by simp
  with Some show ?thesis by (simp add: readable_set)
qed

lemma export_entries_ok:
  assumes "vault_inv L en k e"
  shows "\<exists>e'. export_entries L en noms e = (concat (map vault_entry (readable (vault_view L en k e) noms)), e')"
  using assms
proof (induction noms arbitrary: e)
  case (Cons n noms)
  show ?case
  proof (cases "valid_name n")
    case True
    obtain e1 where "secure_read L en n e = (vault_view L en k e n, e1)" "vault_inv L en k e1"
      "vault_view L en k e1 = vault_view L en k e" using blob.rd_law [OF Cons.prems True] by blast
    with Cons.IH [of e1] True show ?thesis by (auto split: option.split)
  next
    case False
    then have "secure_read L en n e = (None, e)" by (simp add: secure_read_def)
    with Cons.IH [OF Cons.prems] False show ?thesis by auto
  qed
qed simp

lemma import_loop_vault:
  assumes "vault_inv L en k f" "\<forall>p\<in>set ps. valid_name (fst p) \<and> length (snd p) < 2 ^ 32"
  shows "\<exists>f'. import_loop L (length ps + j) (concat (map vault_entry ps) @ r) vue en f = import_loop L j r vue en f' \<and>
    vault_inv L en k f' \<and>
    (\<forall>m. valid_name m \<longrightarrow> vault_view L en k f' m =
       (case map_of (rev ps) m of Some d \<Rightarrow> Some d | None \<Rightarrow> vault_view L en k f m))"
  using assms
proof (induction ps arbitrary: f)
  case (Cons p ps)
  obtain n d where p: "p = (n, d)" by (cases p)
  have n: "valid_name n" "length n < 2 ^ 32" "length d < 2 ^ 32" using Cons.prems(2) p by (auto simp: valid_name_def)
  obtain f1 where w: "secure_write L en n (Buf d) f = (True, f1)" "vault_inv L en k f1"
    "\<forall>m. valid_name m \<longrightarrow> vault_view L en k f1 m = (if m = n then Some d else vault_view L en k f m)"
    using blob.wr_law [OF Cons.prems(1) n(1)] by blast
  have "import_loop L (length (p # ps) + j) (concat (map vault_entry (p # ps)) @ r) vue en f =
      import_loop L (length ps + j) (concat (map vault_entry ps) @ r) vue en f1"
    using w(1) p read_entry_entry [OF n(2,3), of kKindVault] by (simp add: kKindIdentity_def kKindVault_def)
  moreover obtain f' where f': "import_loop L (length ps + j) (concat (map vault_entry ps) @ r) vue en f1 = import_loop L j r vue en f'"
    "vault_inv L en k f'" "\<forall>m. valid_name m \<longrightarrow> vault_view L en k f' m =
       (case map_of (rev ps) m of Some d \<Rightarrow> Some d | None \<Rightarrow> vault_view L en k f1 m)"
    using Cons.IH [OF w(2)] Cons.prems(2) by auto
  moreover have "vault_view L en k f' m = (case map_of (rev (p # ps)) m of Some d \<Rightarrow> Some d | None \<Rightarrow> vault_view L en k f m)"
    if "valid_name m" for m
    using f'(3) w(3) that p by (auto simp: map_add_def split: option.split)
  ultimately show ?case by metis
qed auto

section \<open>Files outside the vault\<close>

lemma vault_inv_path: "en_storage_path en' = en_storage_path en \<Longrightarrow> vault_inv L en' k e = vault_inv L en k e"
  by (simp add: vault_inv_def)

lemma vault_view_path: "en_storage_path en' = en_storage_path en \<Longrightarrow> vault_view L en' k e = vault_view L en k e"
  by (simp add: vault_view_def vault_path_def vault_dir_def fun_eq_iff)

lemma identity_not_vault:
  assumes "valid_name n"
  shows "vault_path en n \<noteq> identity_path (en_storage_path en)"
    "vault_path en n \<noteq> identity_path (en_storage_path en) @ ascii ''.tmp''"
  unfolding vault_path_form [OF assms]
  by (simp_all add: vault_dir_def identity_path_def path_join_def ascii_def slash_def)

lemma save_identity_other:
  assumes "vault_holds L e k"
  shows "q \<noteq> identity_path (en_storage_path en) \<Longrightarrow> q \<noteq> identity_path (en_storage_path en) @ ascii ''.tmp'' \<Longrightarrow>
      get_file (snd (save_identity L en e)) q = get_file e q"
    and "e_secret (snd (save_identity L en e)) = e_secret e"
proof -
  let ?e1 = "e\<lparr>e_service := Suc (Suc (e_service e))\<rparr>"
  let ?e2 = "?e1\<lparr>e_io := Suc (e_io e)\<rparr>"
  obtain sl e3 where s: "stream_seal L k (serialize_identity en) ?e2 = (sl, e3)" by fastforce
  have "get_file e3 q = get_file e q" using stream_seal_frames(1) [of L k "serialize_identity en" ?e2 q] s by simp
  then show "get_file (snd (save_identity L en e)) q = get_file e q"
    if "q \<noteq> identity_path (en_storage_path en)" "q \<noteq> identity_path (en_storage_path en) @ ascii ''.tmp''"
    using s that ensure_holds [OF assms]
    by (cases sl) (auto simp: save_identity_def create_directories_def io_def Let_def replace_file_other)
  have "e_secret e3 = e_secret e"
    using s by (auto simp: stream_seal_def draw_def split: option.splits prod.splits)
  then show "e_secret (snd (save_identity L en e)) = e_secret e"
    using s ensure_holds [OF assms]
    by (cases sl) (auto simp: save_identity_def create_directories_def io_def Let_def replace_file_frames)
qed

lemma save_identity_vault:
  assumes "vault_inv L en k e" "sizes_ok L"
  shows "\<exists>e'. save_identity L en e = (True, e') \<and> vault_inv L en k e' \<and>
    (\<forall>n. valid_name n \<longrightarrow> vault_view L en k e' n = vault_view L en k e n) \<and>
    (wf_engine en \<longrightarrow> (\<forall>en0. en_storage_path en0 = en_storage_path en \<longrightarrow>
       (\<exists>e''. load_identity L en0 e' = (True, with_identity en (en_pq_prekey en) en0, e''))))"
proof -
  have i: "disk_ok L" "stream_ok L" "vault_holds L e k" "en_storage_path en \<noteq> []"
    using assms(1) by (simp_all add: vault_inv_def)
  have "vault_ready L e" using i(3) assms(2) by (auto simp: vault_ready_def vault_holds_def)
  then obtain k' raw e' where s: "save_identity L en e = (True, e')" "vault_holds L e' k'"
    "get_file e' (identity_path (en_storage_path en)) = Some raw" "kMin \<le> length raw"
    "stream_open L k' raw = Some (serialize_identity en)"
    by (rule save_identity_ok [OF i(1,2) _ i(4)])
  have sec: "e_secret e' = e_secret e"
    using save_identity_other(2) [OF i(3), of en] s(1) by simp
  have "vault_inv L en k e'" using i vault_holds_cong [OF i(3) sec] by (simp add: vault_inv_def)
  moreover have "vault_view L en k e' n = vault_view L en k e n" if "valid_name n" for n
    using save_identity_other(1) [OF i(3) identity_not_vault [OF that, of en]] s(1) by (simp add: vault_view_def)
  moreover have "\<exists>e''. load_identity L en0 e' = (True, with_identity en (en_pq_prekey en) en0, e'')"
    if "wf_engine en" "en_storage_path en0 = en_storage_path en" for en0
    using load_identity_ok [OF i(1) s(2), of en0 raw en] that i(4) s by auto
  ultimately show ?thesis using s(1) by blast
qed

section \<open>Export, then import\<close>

definition backup_plain :: "ZiaEngine \<Rightarrow> (bytes \<Rightarrow> bytes option) \<Rightarrow> bytes list \<Rightarrow> bytes" where
  "backup_plain en view noms =
     write_u32_le (of_nat (1 + length noms)) @ backup_entry kKindIdentity [] (serialize_identity en) @
     concat (map vault_entry (readable view noms))"

lemma backup_open_seal:
  assumes "stream_ok L" "length key = 32" "length salt = 16" "crypto_pwhash L pass salt kOpsLimit kMemLimit = Some key"
  obtains header cipher where
    "stream_seal L key plain e = (Some (header, cipher), e\<lparr>e_draw := Suc (e_draw e)\<rparr>)"
    "backup_open L pass (kMagic @ salt @ put_u64 kOpsLimit @ put_u64 kMemLimit @ header @ cipher) = Inr plain"
proof -
  obtain h st st' where s: "secretstream_init_push L (e_draw e) key = Some (h, st)" "length h = 24"
    "secretstream_init_pull L h key = Some st'"
    "\<forall>m tag. \<exists>c. secretstream_push L st m tag = Some c \<and> length c = length m + 17 \<and> secretstream_pull L st' c = Some (m, tag)"
    using assms(1,2) unfolding stream_ok_def by blast
  obtain c where c: "secretstream_push L st plain TAG_FINAL = Some c" "length c = length plain + 17"
    "secretstream_pull L st' c = Some (plain, TAG_FINAL)" using s(4) by blast
  have m: "length kMagic = 8" by (simp add: kMagic_def ascii_def)
  have b: "\<not> (kOpsLimit = 0 \<or> kOpsLimit > 16 \<or> kMemLimit < MEMLIMIT_MIN \<or> kMemLimit > 1024 * 1024 * 1024)"
    by (simp add: kOpsLimit_def kMemLimit_def MEMLIMIT_MIN_def)
  have "backup_open L pass (kMagic @ salt @ put_u64 kOpsLimit @ put_u64 kMemLimit @ h @ c) = Inr plain"
    using m b s(2,3) c assms(3,4) by (simp add: backup_open_def SALTBYTES_def HEADERBYTES_def ABYTES_def)
  then show thesis using that [of h c] s(1) c(1) by (simp add: stream_seal_def draw_def)
qed

lemma export_ok:
  assumes "vault_inv L en k e" "wf_engine en" "pwhash_ok L" "sizes_ok L" "mem_ok L" "en_has_identity en" "12 \<le> length (cstr pass)"
  obtains blob e' noms where "zia_backup_export L True en pass e = (Ok blob, en, e')"
    "vault_entries L en e = (noms, e\<lparr>e_io := Suc (Suc (e_io e))\<rparr>)"
    "\<forall>n. valid_name n \<longrightarrow> n \<in> set noms \<longleftrightarrow> get_file e (vault_path en n) \<noteq> None" "length noms \<le> length (e_files e)"
    "backup_open L (cstr pass) blob = Inr (backup_plain en (vault_view L en k e) noms)"
proof -
  let ?e1 = "e\<lparr>e_io := Suc (Suc (e_io e))\<rparr>"
  have i: "disk_ok L" "stream_ok L" using assms(1) by (simp_all add: vault_inv_def)
  obtain noms where n: "vault_entries L en e = (noms, ?e1)"
    "\<forall>n. valid_name n \<longrightarrow> n \<in> set noms \<longleftrightarrow> get_file e (vault_path en n) \<noteq> None" "length noms \<le> length (e_files e)"
    using vault_entries_ok [OF i(1)] by blast
  have "vault_inv L en k ?e1" "vault_view L en k ?e1 = vault_view L en k e"
    using assms(1) by (simp_all add: vault_inv_def vault_holds_def vault_view_def fun_eq_iff)
  then obtain e2 where e2: "export_entries L en noms ?e1 = (concat (map vault_entry (readable (vault_view L en k e) noms)), e2)"
    using export_entries_ok [of L en k ?e1] by auto
  let ?salt = "randombytes_buf L (e_draw e2) 16" and ?e3 = "e2\<lparr>e_draw := Suc (e_draw e2)\<rparr>"
  have salt: "length ?salt = 16" by (rule sizes_lens(2) [OF assms(4)])
  obtain key where key: "crypto_pwhash L (cstr pass) ?salt kOpsLimit kMemLimit = Some key" "length key = 32"
    using assms(3) salt unfolding pwhash_ok_def by blast
  obtain header cipher where s: "stream_seal L key (backup_plain en (vault_view L en k e) noms) ?e3 =
      (Some (header, cipher), ?e3\<lparr>e_draw := Suc (e_draw ?e3)\<rparr>)"
    "backup_open L (cstr pass) (kMagic @ ?salt @ put_u64 kOpsLimit @ put_u64 kMemLimit @ header @ cipher) =
       Inr (backup_plain en (vault_view L en k e) noms)"
    by (rule backup_open_seal [OF i(2) key(2) salt key(1)])
  have "\<exists>e'. zia_backup_export L True en pass e =
      (Ok (kMagic @ ?salt @ put_u64 kOpsLimit @ put_u64 kMemLimit @ header @ cipher), en, e')"
    using s(1) n(1) e2 key(1) assms(2,5-7)
    by (simp add: wf_engine_def zia_backup_export_def draw_def SALTBYTES_def malloc_mem_ok backup_plain_def)
  with that [OF _ n s(2)] show thesis by blast
qed

lemma import_plain:
  assumes "vault_inv L en0 k f" "wf_engine en"
    and "length (serialize_identity en) < 2 ^ 32" "\<forall>n d. view n = Some d \<longrightarrow> length d < 2 ^ 32" "1 + length noms < 2 ^ 32"
  shows "\<exists>f' p count. reader_u32 (backup_plain en view noms) = Some (count, p) \<and>
    import_loop L (unat count) p False en0 f =
      import_loop L (length noms - length (readable view noms)) [] True (with_identity en (en_pq_prekey en) en0) f' \<and>
    vault_inv L en0 k f' \<and>
    (\<forall>m. valid_name m \<longrightarrow> vault_view L en0 k f' m =
       (if m \<in> set noms \<and> view m \<noteq> None then view m else vault_view L en0 k f m))"
proof -
  let ?en1 = "with_identity en (en_pq_prekey en) en0" and ?ps = "readable view noms"
  let ?r = "concat (map vault_entry ?ps)"
  have path: "en_storage_path ?en1 = en_storage_path en0" by (simp add: with_identity_def)
  have rd: "reader_u32 (backup_plain en view noms) =
      Some (of_nat (Suc (length noms)), backup_entry kKindIdentity [] (serialize_identity en) @ ?r)"
    by (simp only: backup_plain_def reader_u32_append plus_1_eq_Suc)
  have cnt: "unat (of_nat (Suc (length noms)) :: u32) = Suc (length ?ps + (length noms - length ?ps))"
    using assms(5) readable_length [of view noms] by (simp add: unat_of_nat del: of_nat_Suc)
  have id: "import_loop L (Suc n) (backup_entry kKindIdentity [] (serialize_identity en) @ ?r) False en0 f =
      import_loop L n ?r True ?en1 f" for n
    using read_entry_entry [of "[]" "serialize_identity en" kKindIdentity ?r] assms(3)
      deserialize_serialize_identity [OF assms(2), of "[]" en0] by simp
  have "\<forall>p\<in>set ?ps. valid_name (fst p) \<and> length (snd p) < 2 ^ 32" using assms(4) by (auto simp: readable_set)
  from import_loop_vault [of L ?en1 k f ?ps "length noms - length ?ps" "[]" True, OF _ this] assms(1)
  obtain f' where f': "import_loop L (length ?ps + (length noms - length ?ps)) ?r True ?en1 f =
      import_loop L (length noms - length ?ps) [] True ?en1 f'" "vault_inv L en0 k f'"
    "\<forall>m. valid_name m \<longrightarrow> vault_view L en0 k f' m = (case map_of (rev ?ps) m of Some d \<Rightarrow> Some d | None \<Rightarrow> vault_view L en0 k f m)"
    unfolding vault_inv_path [OF path] vault_view_path [OF path] append_Nil2 by blast
  have "vault_view L en0 k f' m = (if m \<in> set noms \<and> view m \<noteq> None then view m else vault_view L en0 k f m)"
    if "valid_name m" for m
    using f'(3) that by (auto simp: map_of_readable split: option.split)
  moreover have "import_loop L (unat (of_nat (Suc (length noms)) :: u32))
      (backup_entry kKindIdentity [] (serialize_identity en) @ ?r) False en0 f =
      import_loop L (length noms - length ?ps) [] True ?en1 f'"
    unfolding cnt id by (rule f'(1))
  ultimately show ?thesis using rd f'(2) by blast
qed

section \<open>Properties\<close>

lemma with_identity_wf:
  "wf_engine en \<Longrightarrow> en_has_identity en \<Longrightarrow> wf_engine (with_identity en (en_pq_prekey en) en0)"
  by (simp add: wf_engine_def with_identity_def)

text \<open>Two devices for the examples: the files of the first are given, the second holds nothing.\<close>

definition device_a :: "bytes \<Rightarrow> env" where
  "device_a raw = vault_env\<lparr>e_files := [(ascii ''/z/vault/n.zia'', raw)]\<rparr>"

definition device_b :: env where
  "device_b = env0\<lparr>e_secret := Some (sample_hex (replicate 32 9))\<rparr>"

definition sample_blob :: bytes where
  "sample_blob = replicate 24 0 @ 3 # sample_enc (replicate 32 7) [1, 2, 3]"

lemma device_inv:
  "vault_inv sample_lib sample_engine (replicate 32 7) (device_a raw)"
  "vault_inv sample_lib sample_engine (replicate 32 9) device_b"
proof -
  show "vault_inv sample_lib sample_engine (replicate 32 7) (device_a raw)"
    using sample_vault_inv by (simp add: vault_inv_def vault_holds_def device_a_def)
  have "vault_holds sample_lib device_b (replicate 32 9)"
    by (simp add: vault_holds_def device_b_def sample_laws) (simp add: sample_lib_def)
  then show "vault_inv sample_lib sample_engine (replicate 32 9) device_b"
    by (simp add: vault_inv_def sample_laws) (simp add: sample_engine_def ascii_def)
qed

lemma device_entries: "fst (vault_entries sample_lib sample_engine (device_a raw)) = [ascii ''n'']"
proof -
  have "entry_stem (ascii ''/z/vault'') (ascii ''/z/vault/n.zia'') = Some (ascii ''n'')"
    by (simp add: entry_stem_def ascii_def slash_def)
  moreover have "vault_dir sample_engine = ascii ''/z/vault''"
    by (simp add: vault_dir_def path_join_def sample_engine_def ascii_def slash_def)
  ultimately show ?thesis
    by (simp add: vault_entries_def io_def device_a_def map_filter_def) (simp add: sample_lib_def)
qed

lemma device_view:
  "vault_view sample_lib sample_engine (replicate 32 7) (device_a raw) n =
     (if vault_path sample_engine n = ascii ''/z/vault/n.zia'' then
        (if length raw < kMin then None else stream_open sample_lib (replicate 32 7) raw) else None)"
  by (simp add: vault_view_def device_a_def get_file_def)

lemma sample_blob_open: "stream_open sample_lib (replicate 32 7) sample_blob = Some [1, 2, 3]" "kMin \<le> length sample_blob"
proof -
  show "stream_open sample_lib (replicate 32 7) sample_blob = Some [1, 2, 3]"
    by (simp add: stream_open_def HEADERBYTES_def sample_blob_def sample_lib_def)
  show "kMin \<le> length sample_blob"
    by (simp add: sample_blob_def kMin_def HEADERBYTES_def ABYTES_def)
qed

lemma sample_identity_small: "length (serialize_identity sample_engine) < 2 ^ 32"
  by (simp add: serialize_identity_def identity_section_def spk_section_def pq_section_def otpk_section_def
      enc_otpk_def sample_engine_def new_ZiaEngine_def)

lemma sample_path: "vault_path sample_engine (ascii ''n'') = ascii ''/z/vault/n.zia''" "valid_name (ascii ''n'')"
  by (simp_all add: vault_path_def vault_dir_def path_join_def sample_engine_def ascii_def slash_def valid_name_def isalnum_def)

text \<open>
  C10 (roundtrip).  Backup and restoration on another device.  When every file of the vault can be read (and
  all sizes fit the 32-bit lengths of the format), exporting with a passphrase of at least 12 characters
  succeeds and importing the result with the same passphrase, on any device with a working vault and
  under any other master key, succeeds: the engine holds the saved identity with all its prekeys, every
  vault entry of the first device is in the vault of the second with its content, entries only the second
  device had are kept, and after a restart the identity loads from disk.
\<close>

theorem backup_roundtrip:
  assumes A: "vault_inv L en k e" "wf_engine en" "en_has_identity en"
    and L: "pwhash_ok L" "sizes_ok L" "mem_ok L"
    and pass: "12 \<le> length (cstr pass)"
    and small: "length (serialize_identity en) < 2 ^ 32" "1 + length (e_files e) < 2 ^ 32"
      "\<forall>n d. vault_view L en k e n = Some d \<longrightarrow> length d < 2 ^ 32"
    and readable: "\<forall>n\<in>set (fst (vault_entries L en e)). valid_name n \<and> vault_view L en k e n \<noteq> None"
    and B: "vault_inv L en0 k0 f"
  shows "\<exists>blob e' f'. zia_backup_export L True en pass e = (Ok blob, en, e') \<and>
    zia_backup_import L True en0 pass blob f = (Ok (), with_identity en (en_pq_prekey en) en0, f') \<and>
    (\<forall>n. valid_name n \<longrightarrow> vault_view L en0 k0 f' n =
       (if vault_view L en k e n \<noteq> None then vault_view L en k e n else vault_view L en0 k0 f n)) \<and>
    (\<exists>f''. load_identity L en0 f' = (True, with_identity en (en_pq_prekey en) en0, f''))"
proof -
  let ?en1 = "with_identity en (en_pq_prekey en) en0" and ?view = "vault_view L en k e"
  obtain blob e' noms where x: "zia_backup_export L True en pass e = (Ok blob, en, e')"
    "vault_entries L en e = (noms, e\<lparr>e_io := Suc (Suc (e_io e))\<rparr>)"
    "\<forall>n. valid_name n \<longrightarrow> n \<in> set noms \<longleftrightarrow> get_file e (vault_path en n) \<noteq> None" "length noms \<le> length (e_files e)"
    "backup_open L (cstr pass) blob = Inr (backup_plain en ?view noms)"
    by (rule export_ok [OF A(1,2) L A(3) pass])
  have all: "length (Backup.readable ?view noms) = length noms" using readable x(2) by (simp add: readable_all)
  have "1 + length noms < 2 ^ 32" using small(2) x(4) by linarith
  from import_plain [where view = ?view, OF B A(2) small(1,3) this] all obtain f1 p count where i:
    "reader_u32 (backup_plain en ?view noms) = Some (count, p)" "import_loop L (unat count) p False en0 f = (True, True, ?en1, f1)"
    "vault_inv L en0 k0 f1"
    "\<forall>m. valid_name m \<longrightarrow> vault_view L en0 k0 f1 m = (if m \<in> set noms \<and> ?view m \<noteq> None then ?view m else vault_view L en0 k0 f m)"
    by auto
  have path: "en_storage_path ?en1 = en_storage_path en0" by (simp add: with_identity_def)
  have "vault_inv L ?en1 k0 f1" using i(3) by (simp add: vault_inv_path [OF path])
  from save_identity_vault [OF this L(2)] obtain f' where s: "save_identity L ?en1 f1 = (True, f')"
    "\<forall>n. valid_name n \<longrightarrow> vault_view L en0 k0 f' n = vault_view L en0 k0 f1 n"
    "\<forall>en0. en_storage_path en0 = en_storage_path ?en1 \<longrightarrow>
       (\<exists>e''. load_identity L en0 f' = (True, with_identity ?en1 (en_pq_prekey ?en1) en0, e''))"
    unfolding vault_view_path [OF path] using with_identity_wf [OF A(2,3)] by blast
  have again: "with_identity ?en1 (en_pq_prekey ?en1) en0 = ?en1" using A(3) by (simp add: with_identity_def)
  have listed: "m \<in> set noms" if "valid_name m" "?view m \<noteq> None" for m
    using that x(3) by (auto simp: vault_view_def split: option.splits)
  have "zia_backup_import L True en0 pass blob f = (Ok (), ?en1, f')"
    using x(5) i(1,2) s(1) by (simp add: zia_backup_import_def)
  moreover have "\<exists>f''. load_identity L en0 f' = (True, ?en1, f'')" using s(3) path again by metis
  ultimately show ?thesis using x(1) s(2) i(4) listed by (auto simp: Ball_def)
qed

theorem backup_roundtrip_witness:
  "\<exists>blob e' f'. zia_backup_export sample_lib True sample_engine (replicate 12 65) (device_a sample_blob) = (Ok blob, sample_engine, e') \<and>
    zia_backup_import sample_lib True sample_engine (replicate 12 65) blob device_b =
      (Ok (), with_identity sample_engine (en_pq_prekey sample_engine) sample_engine, f') \<and>
    vault_view sample_lib sample_engine (replicate 32 9) f' (ascii ''n'') = Some [1, 2, 3]"
proof -
  have h: "en_has_identity sample_engine" "12 \<le> length (cstr (replicate 12 (65 :: u8)))"
    "1 + length (e_files (device_a sample_blob)) < 2 ^ 32"
    by (simp_all add: sample_engine_def device_a_def)
  have small: "\<forall>n d. vault_view sample_lib sample_engine (replicate 32 7) (device_a sample_blob) n = Some d \<longrightarrow> length d < 2 ^ 32"
    using sample_blob_open by (auto simp: device_view)
  have rd: "\<forall>n\<in>set (fst (vault_entries sample_lib sample_engine (device_a sample_blob))). valid_name n \<and>
      vault_view sample_lib sample_engine (replicate 32 7) (device_a sample_blob) n \<noteq> None"
    using sample_blob_open by (simp add: device_entries device_view sample_path)
  have "vault_view sample_lib sample_engine (replicate 32 7) (device_a sample_blob) (ascii ''n'') = Some [1, 2, 3]"
    using sample_blob_open by (simp add: device_view sample_path)
  with backup_roundtrip [OF device_inv(1) sample_engine_wf h(1) sample_pwhash_ok sample_sizes_ok sample_mem_ok h(2)
      sample_identity_small h(3) small rd device_inv(2)] sample_path(2)
  show ?thesis by (metis option.distinct(1))
qed

text \<open>
  One unreadable file in the vault makes a backup useless without a warning.  The number of
  records is written before the entries are read, and an entry that cannot be read is skipped: the export
  still answers \<open>ZIA_OK\<close>, but importing the result, with the right passphrase and on any device, fails with
  \<open>ZIA_ERR_CRYPTO_FAILURE\<close>, after the identity of the engine has already been replaced in memory.
\<close>

lemma unreadable_entry_breaks_backup:
  assumes A: "vault_inv L en k e" "wf_engine en" "en_has_identity en"
    and L: "pwhash_ok L" "sizes_ok L" "mem_ok L"
    and pass: "12 \<le> length (cstr pass)"
    and small: "length (serialize_identity en) < 2 ^ 32" "1 + length (e_files e) < 2 ^ 32"
      "\<forall>n d. vault_view L en k e n = Some d \<longrightarrow> length d < 2 ^ 32"
    and bad: "n \<in> set (fst (vault_entries L en e))" "\<not> valid_name n \<or> vault_view L en k e n = None"
    and B: "vault_inv L en0 k0 f"
  shows "\<exists>blob e' en' f'. zia_backup_export L True en pass e = (Ok blob, en, e') \<and>
    zia_backup_import L True en0 pass blob f = (Err ZIA_ERR_CRYPTO_FAILURE, en', f') \<and>
    en_identity_public en' = en_identity_public en"
proof -
  let ?en1 = "with_identity en (en_pq_prekey en) en0" and ?view = "vault_view L en k e"
  obtain blob e' noms where x: "zia_backup_export L True en pass e = (Ok blob, en, e')"
    "vault_entries L en e = (noms, e\<lparr>e_io := Suc (Suc (e_io e))\<rparr>)" "length noms \<le> length (e_files e)"
    "backup_open L (cstr pass) blob = Inr (backup_plain en ?view noms)"
    by (rule export_ok [OF A(1,2) L A(3) pass])
  have "length (readable ?view noms) \<noteq> length noms" using bad x(2) by (auto simp: readable_all)
  with readable_length [of ?view noms] obtain j where j: "length noms - length (readable ?view noms) = Suc j"
    by (metis Suc_diff_Suc le_neq_implies_less)
  have "1 + length noms < 2 ^ 32" using small(2) x(3) by linarith
  from import_plain [where view = ?view, OF B A(2) small(1,3) this] obtain f1 p count where
    "reader_u32 (backup_plain en ?view noms) = Some (count, p)"
    "import_loop L (unat count) p False en0 f = (False, True, ?en1, f1)"
    unfolding j by (auto simp: read_entry_def reader_read_def)
  with x(1,4) show ?thesis by (auto simp: zia_backup_import_def with_identity_def)
qed

text \<open>
  C29 (safety).  Nothing happens before authentication.  Whatever bytes are given to the import, it succeeds
  or changes anything but \<open>last_error\<close> only if the bytes carry the magic, work parameters within the bounds
  (at most 16 passes, between 8 KiB and 1 GiB), and a stream that authenticates under the key derived with
  these parameters from the passphrase and ends with the final tag; in particular the key derivation never
  runs on parameters out of bounds.
\<close>

theorem import_guarded:
  assumes "zia_backup_import L nn en pass data e = (r, en', e')"
    and "r = Ok () \<or> e' \<noteq> e \<or> (\<forall>m. en' \<noteq> en\<lparr>en_last_error := m\<rparr>)"
  shows "\<exists>salt a b ops mem header cipher key st plain. data = kMagic @ salt @ a @ b @ header @ cipher \<and>
    length salt = 16 \<and> length a = 8 \<and> length b = 8 \<and> length header = 24 \<and> 17 \<le> length cipher \<and>
    ops = get_u64 a \<and> mem = get_u64 b \<and> 0 < ops \<and> ops \<le> 16 \<and> 8192 \<le> mem \<and> mem \<le> 2 ^ 30 \<and>
    crypto_pwhash L (cstr pass) salt ops mem = Some key \<and> secretstream_init_pull L header key = Some st \<and>
    secretstream_pull L st cipher = Some (plain, TAG_FINAL)"
proof -
  obtain plain where "backup_open L (cstr pass) data = Inr plain"
  proof (cases "backup_open L (cstr pass) data")
    case (Inl f)
    obtain s m where "f = (s, m)" by (cases f)
    with Inl assms have False by (cases nn) (auto simp: zia_backup_import_def dest: spec [where x = "en_last_error en"])
    then show thesis ..
  qed blast
  then show ?thesis
    by (auto simp: backup_open_def reader_u64_def reader_read_Some bind_eq_Some_conv SALTBYTES_def HEADERBYTES_def
        ABYTES_def MEMLIMIT_MIN_def not_less word_neq_0_conv split: option.splits if_splits)
      (intro exI conjI, rule refl, assumption+)
qed

lemma sample_import_ok:
  "\<exists>data e'. zia_backup_import sample_lib True sample_engine [65] data device_b =
     (Ok (), with_identity sample_engine (en_pq_prekey sample_engine) sample_engine, e')"
proof -
  let ?plain = "backup_plain sample_engine (\<lambda>_. None) []" and ?en1 = "with_identity sample_engine (en_pq_prekey sample_engine) sample_engine"
  obtain key where key: "crypto_pwhash sample_lib [65] (replicate 16 0) kOpsLimit kMemLimit = Some key" "length key = 32"
    using sample_pwhash_ok unfolding pwhash_ok_def by (metis length_replicate)
  obtain header cipher where o: "backup_open sample_lib [65]
      (kMagic @ replicate 16 0 @ put_u64 kOpsLimit @ put_u64 kMemLimit @ header @ cipher) = Inr ?plain"
    by (rule backup_open_seal [OF sample_stream_ok key(2) _ key(1)]) simp_all
  obtain f1 p count where i: "reader_u32 ?plain = Some (count, p)"
    "import_loop sample_lib (unat count) p False sample_engine device_b = (True, True, ?en1, f1)"
    "vault_inv sample_lib sample_engine (replicate 32 9) f1"
    using import_plain [OF device_inv(2) sample_engine_wf sample_identity_small, of "\<lambda>_. None" "[]"] by auto
  have "vault_inv sample_lib ?en1 (replicate 32 9) f1" using i(3) by (simp add: vault_inv_def with_identity_def)
  from save_identity_vault [OF this sample_sizes_ok] obtain f' where "save_identity sample_lib ?en1 f1 = (True, f')" by blast
  with o i(1,2) show ?thesis
    by (intro exI [of _ "kMagic @ replicate 16 0 @ put_u64 kOpsLimit @ put_u64 kMemLimit @ header @ cipher"])
      (simp add: zia_backup_import_def)
qed

theorem import_guarded_witness:
  "\<exists>data. fst (zia_backup_import sample_lib True sample_engine [65] data device_b) = Ok () \<and> take 8 data = kMagic \<and>
     0 < get_u64 (take 8 (drop 24 data)) \<and> get_u64 (take 8 (drop 24 data)) \<le> 16"
proof -
  obtain data e' where d: "zia_backup_import sample_lib True sample_engine [65] data device_b =
     (Ok (), with_identity sample_engine (en_pq_prekey sample_engine) sample_engine, e')"
    using sample_import_ok by blast
  have "length kMagic = 8" by (simp add: kMagic_def ascii_def)
  with import_guarded [OF d] have "take 8 data = kMagic \<and> 0 < get_u64 (take 8 (drop 24 data)) \<and> get_u64 (take 8 (drop 24 data)) \<le> 16"
    by auto
  with d show ?thesis by (intro exI [of _ data]) simp
qed

end
