(* ===== verification/Sender_Keys.thy ===== *)
theory Sender_Keys
  imports Engine_State Ratchet Files
begin

text \<open>
  \<open>src/sender_keys.cpp\<close>: group messages.  Each member has one chain per group, distributes it to the others
  and signs its messages.  The engine keeps its own chain under the empty sender name and the chains of
  the other members under theirs.  Names arrive as C strings.
\<close>

section \<open>Format\<close>

definition kMagicDistribution :: bytes where "kMagicDistribution = ascii ''ZIASKD01''"
definition kMagicMessage :: bytes where "kMagicMessage = ascii ''ZIASKM01''"
definition kDistributionLen :: nat where "kDistributionLen = 8 + 4 + 32 + 32"
definition kMaxSkip :: nat where "kMaxSkip = 2000"
definition kMaxSkippedSender :: nat where "kMaxSkippedSender = 2000"

section \<open>Helpers\<close>

definition kdf_chain :: "lib \<Rightarrow> bytes \<Rightarrow> (bytes \<times> bytes) option" where
  "kdf_chain L ck =
     (case hmac_sha256 L ck 0x01 of None \<Rightarrow> None
      | Some mk \<Rightarrow> (case hmac_sha256 L ck 0x02 of None \<Rightarrow> None | Some nxt \<Rightarrow> Some (nxt, mk)))"

definition trouver :: "ZiaEngine \<Rightarrow> bytes \<Rightarrow> bytes \<Rightarrow> nat option" where
  "trouver en grp sender =
     find_index (\<lambda>k. snk_group_id k = grp \<and> snk_sender_id k = sender) (en_sender_keys en)"

definition ranger_clef_sautee :: "ZiaSenderKey \<Rightarrow> u32 \<Rightarrow> bytes \<Rightarrow> ZiaSenderKey" where
  "ranger_clef_sautee st iteration key =
     st\<lparr>snk_skipped := cache_store kMaxSkippedSender (snk_skipped st) \<lparr>ssk_iteration = iteration, ssk_key = key\<rparr>\<rparr>"

definition reprendre_clef_sautee :: "ZiaSenderKey \<Rightarrow> u32 \<Rightarrow> (bytes \<times> ZiaSenderKey) option" where
  "reprendre_clef_sautee st iteration =
     (case cache_take (\<lambda>sk. ssk_iteration sk = iteration) (snk_skipped st) of
        None \<Rightarrow> None
      | Some (sk, c) \<Rightarrow> Some (ssk_key sk, st\<lparr>snk_skipped := c\<rparr>))"

text \<open>Writing a sender key back at its position in the engine.\<close>

definition put_sender :: "nat \<Rightarrow> ZiaSenderKey \<Rightarrow> ZiaEngine \<Rightarrow> ZiaEngine" where
  "put_sender i st en = en\<lparr>en_sender_keys := (en_sender_keys en)[i := st]\<rparr>"

section \<open>Operations\<close>

definition zia_sender_key_create :: "lib \<Rightarrow> bool \<Rightarrow> ZiaEngine \<Rightarrow> bytes \<Rightarrow> env \<Rightarrow> bytes res \<times> ZiaEngine \<times> env" where
  "zia_sender_key_create L nn en group_id e =
     (let grp = cstr group_id in
      if \<not> nn \<or> grp = [] then (Err ZIA_ERR_INVALID_ARG, en, e) else
      let (i, e1) = draw e;
          chain = randombytes_buf L i 32;
          ((sig_pub, sig_priv), e2) = ed25519_keypair L e1;
          st = \<lparr>snk_group_id = grp, snk_sender_id = [], snk_chain_key = chain, snk_iteration = 0,
                snk_signing_public = sig_pub, snk_signing_private = sig_priv, snk_skipped = []\<rparr>;
          en1 = (case trouver en grp [] of
              Some j \<Rightarrow> put_sender j st en
            | None \<Rightarrow> en\<lparr>en_sender_keys := en_sender_keys en @ [st]\<rparr>);
          (ok, e3) = malloc L kDistributionLen e2
      in if \<not> ok then (Err ZIA_ERR_OUT_OF_MEMORY, en1, e3)
         else (Ok (kMagicDistribution @ put_u32 (snk_iteration st) @ snk_chain_key st @ snk_signing_public st), en1, e3))"

definition zia_sender_key_process :: "bool \<Rightarrow> ZiaEngine \<Rightarrow> bytes \<Rightarrow> bytes \<Rightarrow> bytes \<Rightarrow> unit res \<times> ZiaEngine" where
  "zia_sender_key_process nn en group_id sender_id distribution =
     (if \<not> nn then (Err ZIA_ERR_INVALID_ARG, en)
      else if length distribution \<noteq> kDistributionLen then (Err ZIA_ERR_INVALID_ARG, en)
      else if take 8 distribution \<noteq> kMagicDistribution then (Err ZIA_ERR_INVALID_ARG, en) else
      let grp = cstr group_id; sender = cstr sender_id in
      if grp = [] \<or> sender = [] then (Err ZIA_ERR_INVALID_ARG, en) else
      let st = \<lparr>snk_group_id = grp, snk_sender_id = sender, snk_chain_key = take 32 (drop 12 distribution),
                snk_iteration = get_u32 (drop 8 distribution),
                snk_signing_public = take 32 (drop 44 distribution), snk_signing_private = [], snk_skipped = []\<rparr>
      in (Ok (), case trouver en grp sender of
              Some j \<Rightarrow> put_sender j st en
            | None \<Rightarrow> en\<lparr>en_sender_keys := en_sender_keys en @ [st]\<rparr>))"

definition zia_sender_key_encrypt ::
  "lib \<Rightarrow> bool \<Rightarrow> ZiaEngine \<Rightarrow> bytes \<Rightarrow> cbuf \<Rightarrow> env \<Rightarrow> bytes res \<times> ZiaEngine \<times> env" where
  "zia_sender_key_encrypt L nn en group_id plaintext e =
     (if \<not> nn \<or> buf_bad plaintext then (Err ZIA_ERR_INVALID_ARG, en, e) else
      let grp = cstr group_id in
      case trouver en grp [] of
        None \<Rightarrow> (Err ZIA_ERR_SESSION_NOT_FOUND, en, e)
      | Some j \<Rightarrow>
          let st = en_sender_keys en ! j in
          if length (snk_chain_key st) \<noteq> 32 then (Err ZIA_ERR_SESSION_NOT_FOUND, en, e) else
          (case kdf_chain L (snk_chain_key st) of
             None \<Rightarrow> (Crash, en, e)
           | Some (nxt, mk) \<Rightarrow>
               let iteration = snk_iteration st;
                   ct_len = buf_len plaintext + 16;
                   (ok, e1) = malloc L (8 + 4 + ct_len + 64) e
               in if \<not> ok then (Err ZIA_ERR_OUT_OF_MEMORY, en, e1)
               else (case buf_read plaintext of
                  None \<Rightarrow> (Crash, en, e1)
                | Some pt \<Rightarrow>
                    (case aead_encrypt L mk zero_nonce pt grp of
                       None \<Rightarrow> (Err ZIA_ERR_CRYPTO_FAILURE, en, e1)
                     | Some ct \<Rightarrow>
                         let signed = kMagicMessage @ put_u32 iteration @ ct;
                             signature = ed25519_sign L (snk_signing_private st) signed
                         in (Ok (signed @ signature),
                             put_sender j (st\<lparr>snk_chain_key := nxt, snk_iteration := iteration + 1\<rparr>) en, e1)))))"

function catch_up :: "lib \<Rightarrow> ZiaSenderKey \<Rightarrow> u32 \<Rightarrow> ZiaSenderKey option" where
  "catch_up L st iteration =
     (if snk_iteration st < iteration then
        (case kdf_chain L (snk_chain_key st) of
           None \<Rightarrow> None
         | Some (nxt, saute) \<Rightarrow>
             catch_up L ((ranger_clef_sautee st (snk_iteration st) saute)
               \<lparr>snk_chain_key := nxt, snk_iteration := snk_iteration st + 1\<rparr>) iteration)
      else Some st)"
  by pat_completeness auto
termination
  by (relation "measure (\<lambda>(L, st, iteration). unat iteration - unat (snk_iteration st))")
    (auto simp: ranger_clef_sautee_def word_less_Suc_unat word_less_nat_alt intro!: diff_less_mono2)

declare catch_up.simps [simp del]

text \<open>
  The message key for an iteration: set aside earlier, or reached by advancing the chain.  \<open>Inl\<close> is an
  error status and \<open>None\<close> a read outside the chain key.
\<close>

definition key_for_iteration :: "lib \<Rightarrow> ZiaSenderKey \<Rightarrow> u32 \<Rightarrow> (ZiaStatus + bytes \<times> ZiaSenderKey) option" where
  "key_for_iteration L st iteration =
     (if iteration < snk_iteration st then
        (case reprendre_clef_sautee st iteration of
           None \<Rightarrow> Some (Inl ZIA_ERR_REPLAY_DETECTED)
         | Some (mk, st') \<Rightarrow> Some (Inr (mk, st')))
      else if unat (iteration - snk_iteration st) > kMaxSkip then Some (Inl ZIA_ERR_SKIPPED_KEY_LIMIT)
      else (case catch_up L st iteration of
         None \<Rightarrow> None
       | Some st1 \<Rightarrow>
           (case kdf_chain L (snk_chain_key st1) of
              None \<Rightarrow> None
            | Some (nxt, mk) \<Rightarrow>
                Some (Inr (mk, st1\<lparr>snk_chain_key := nxt, snk_iteration := snk_iteration st1 + 1\<rparr>)))))"

definition zia_sender_key_decrypt ::
  "lib \<Rightarrow> bool \<Rightarrow> ZiaEngine \<Rightarrow> bytes \<Rightarrow> bytes \<Rightarrow> bytes \<Rightarrow> env \<Rightarrow> bytes res \<times> ZiaEngine \<times> env" where
  "zia_sender_key_decrypt L nn en group_id sender_id message e =
     (if \<not> nn then (Err ZIA_ERR_INVALID_ARG, en, e)
      else if length message < 8 + 4 + 16 + 64 then (Err ZIA_ERR_INVALID_ARG, en, e)
      else if take 8 message \<noteq> kMagicMessage then (Err ZIA_ERR_INVALID_ARG, en, e) else
      let grp = cstr group_id in
      case trouver en grp (cstr sender_id) of
        None \<Rightarrow> (Err ZIA_ERR_SESSION_NOT_FOUND, en, e)
      | Some j \<Rightarrow>
          let st = en_sender_keys en ! j in
          if length (snk_chain_key st) \<noteq> 32 then (Err ZIA_ERR_SESSION_NOT_FOUND, en, e) else
          let signe_len = length message - 64;
              signed = take signe_len message;
              signature = drop signe_len message in
          if \<not> ed25519_verify L (snk_signing_public st) signed signature then (Err ZIA_ERR_SIGNATURE_INVALID, en, e)
          else let iteration = get_u32 (drop 8 message) in
          (case key_for_iteration L st iteration of
             None \<Rightarrow> (Crash, en, e)
           | Some (Inl status) \<Rightarrow> (Err status, en, e)
           | Some (Inr (mk, st')) \<Rightarrow>
               let en' = put_sender j st' en;
                   ct = drop 12 signed;
                   pt_len = length ct - 16;
                   (ok, e1) = malloc L (if pt_len \<noteq> 0 then pt_len else 1) e
               in if \<not> ok then (Err ZIA_ERR_OUT_OF_MEMORY, en', e1)
               else (case aead_decrypt L mk zero_nonce ct grp of
                  None \<Rightarrow> (Err ZIA_ERR_CRYPTO_FAILURE, en', e1)
                | Some pt \<Rightarrow> (Ok pt, en', e1))))"

section \<open>The interfaces it provides\<close>

lemma kdf_chain_eq: "kdf_chain = kdf_ck"
  by (intro ext) (simp add: kdf_chain_def kdf_ck_def)

interpretation schain: kdf_iface "kdf_chain L" "chain_live L" "\<lambda>mk. length mk = 32" for L
  unfolding kdf_chain_eq by (rule rchain.kdf_iface_axioms)

interpretation scache: key_cache kMaxSkippedSender ssk_iteration "cache_store kMaxSkippedSender"
  "\<lambda>c k. cache_take (\<lambda>sk. ssk_iteration sk = k) c"
  by unfold_locales
    (auto simp: kMaxSkippedSender_def cache_store_def cache_take_None image_iff dest!: cache_take_Some)

section \<open>Invariant\<close>

definition wf_sender :: "ZiaSenderKey \<Rightarrow> bool" where
  "wf_sender st \<longleftrightarrow>
     length (snk_chain_key st) = 32 \<and> length (snk_signing_public st) = 32 \<and>
     (snk_sender_id st = [] \<longrightarrow> length (snk_signing_private st) = 64) \<and>
     length (snk_skipped st) \<le> kMaxSkippedSender \<and> list_all (\<lambda>sk. length (ssk_key sk) = 32) (snk_skipped st)"

definition wf_groups :: "ZiaEngine \<Rightarrow> bool" where
  "wf_groups en \<longleftrightarrow>
     list_all wf_sender (en_sender_keys en) \<and>
     distinct (map (\<lambda>k. (snk_group_id k, snk_sender_id k)) (en_sender_keys en))"

text \<open>The catch-up loop in closed form.\<close>

primrec sauts :: "lib \<Rightarrow> u32 \<Rightarrow> nat \<Rightarrow> bytes \<Rightarrow> ZiaSenderSkippedKey list" where
  "sauts L i 0 ck = []"
| "sauts L i (Suc k) ck =
     \<lparr>ssk_iteration = i, ssk_key = chain_key (kdf_chain L) ck\<rparr> # sauts L (i + 1) k (chain_next (kdf_chain L) ck)"

lemma length_sauts [simp]: "length (sauts L i k ck) = k"
  by (induction k arbitrary: i ck) auto

lemma nth_sauts:
  "j < k \<Longrightarrow> sauts L i k ck ! j =
     \<lparr>ssk_iteration = i + of_nat j, ssk_key = chain_key (kdf_chain L) ((chain_next (kdf_chain L) ^^ j) ck)\<rparr>"
proof (induction k arbitrary: i ck j)
  case 0
  then show ?case by simp
next
  case (Suc k)
  then show ?case by (cases j) (simp_all add: funpow_swap1 add.assoc add.commute)
qed

lemma catch_up_closed:
  assumes "chain_live L (snk_chain_key st)" "snk_iteration st \<le> iteration"
  shows "catch_up L st iteration =
    (let k = unat (iteration - snk_iteration st) in
     Some (st\<lparr>snk_chain_key := (chain_next (kdf_chain L) ^^ k) (snk_chain_key st), snk_iteration := iteration,
       snk_skipped := foldl (cache_store kMaxSkippedSender) (snk_skipped st)
         (sauts L (snk_iteration st) k (snk_chain_key st))\<rparr>))"
  using assms
proof (induction L st iteration rule: catch_up.induct)
  case (1 L st iteration)
  let ?ck = "snk_chain_key st" and ?x = "chain_next (kdf_chain L)"
  let ?s1 = "(ranger_clef_sautee st (snk_iteration st) (chain_key (kdf_chain L) ?ck))
    \<lparr>snk_chain_key := ?x ?ck, snk_iteration := snk_iteration st + 1\<rparr>"
  show ?case
  proof (cases "snk_iteration st < iteration")
    case False
    with "1.prems"(2) have "iteration = snk_iteration st" by simp
    then show ?thesis by (subst catch_up.simps) simp
  next
    case True
    have step: "kdf_chain L ?ck = Some (?x ?ck, chain_key (kdf_chain L) ?ck)"
      by (rule schain.step_eq [OF "1.prems"(1)])
    have le: "snk_iteration st + 1 \<le> iteration" using True by (rule word_less_inc_le)
    have k: "unat (iteration - snk_iteration st) = Suc (unat (iteration - (snk_iteration st + 1)))"
      using True by (rule unat_diff_Suc)
    have "catch_up L st iteration = catch_up L ?s1 iteration"
      using True step by (subst catch_up.simps) simp
    also have "\<dots> = Some (?s1\<lparr>snk_chain_key := (?x ^^ unat (iteration - (snk_iteration st + 1))) (?x ?ck),
        snk_iteration := iteration,
        snk_skipped := foldl (cache_store kMaxSkippedSender) (snk_skipped ?s1)
          (sauts L (snk_iteration st + 1) (unat (iteration - (snk_iteration st + 1))) (?x ?ck))\<rparr>)"
      using "1.IH" [OF True step] "1.prems"(1) le
      by (simp add: schain.next_ok ranger_clef_sautee_def Let_def)
    finally show ?thesis by (simp add: k Let_def ranger_clef_sautee_def funpow_swap1)
  qed
qed

lemma sauts_keys: "chain_live L ck \<Longrightarrow> list_all (\<lambda>sk. length (ssk_key sk) = 32) (sauts L i k ck)"
  by (induction k arbitrary: i ck) (auto simp: schain.key_ok schain.next_ok)

lemma key_ahead:
  assumes "chain_live L (snk_chain_key st)" "\<not> n < snk_iteration st" "\<not> unat (n - snk_iteration st) > kMaxSkip"
  shows "key_for_iteration L st n =
      (let d = unat (n - snk_iteration st); c = (chain_next (kdf_chain L) ^^ d) (snk_chain_key st) in
       Some (Inr (chain_key (kdf_chain L) c,
         st\<lparr>snk_chain_key := chain_next (kdf_chain L) c, snk_iteration := n + 1,
           snk_skipped := foldl (cache_store kMaxSkippedSender) (snk_skipped st)
             (sauts L (snk_iteration st) d (snk_chain_key st))\<rparr>)))"
proof -
  have "chain_live L ((chain_next (kdf_chain L) ^^ k) (snk_chain_key st))" for k
    by (rule schain.funpow_ok [OF assms(1)])
  note step = schain.step_eq [OF this]
  have le: "snk_iteration st \<le> n" using assms(2) by simp
  from assms(2,3) show ?thesis
    unfolding key_for_iteration_def if_not_P [OF assms(2)] if_not_P [OF assms(3)]
    by (simp add: catch_up_closed [OF assms(1) le] step Let_def)
qed

lemma key_for_iteration_wf:
  assumes "sizes_ok L" "wf_sender st"
  shows "key_for_iteration L st n \<noteq> None"
    and "key_for_iteration L st n = Some (Inr (mk, st')) \<Longrightarrow> wf_sender st' \<and> length mk = 32 \<and>
      snk_group_id st' = snk_group_id st \<and> snk_sender_id st' = snk_sender_id st \<and>
      snk_signing_public st' = snk_signing_public st"
proof -
  have live: "chain_live L (snk_chain_key st)" using assms by (simp add: chain_live_def wf_sender_def)
  have kl: "chain_live L ((chain_next (kdf_chain L) ^^ k) (snk_chain_key st))" for k
    by (rule schain.funpow_ok [OF live])
  note ahead = key_ahead [OF live]
  have bound: "length (foldl (cache_store kMaxSkippedSender) (snk_skipped st) xs) \<le> kMaxSkippedSender" for xs
    by (rule scache.foldl_store_bound) (use assms(2) in \<open>simp add: wf_sender_def\<close>)
  have keys: "list_all (\<lambda>sk. length (ssk_key sk) = 32) (foldl (cache_store kMaxSkippedSender) (snk_skipped st)
      (sauts L i k (snk_chain_key st)))" for i k
    using scache.set_foldl_store [of "snk_skipped st" "sauts L i k (snk_chain_key st)"] sauts_keys [OF live, of i k] assms(2)
    by (auto simp: list_all_iff wf_sender_def)
  show "key_for_iteration L st n \<noteq> None"
    using ahead by (cases "n < snk_iteration st \<or> unat (n - snk_iteration st) > kMaxSkip")
      (auto simp: key_for_iteration_def Let_def split: option.splits)
  assume r: "key_for_iteration L st n = Some (Inr (mk, st'))"
  show "wf_sender st' \<and> length mk = 32 \<and> snk_group_id st' = snk_group_id st \<and>
      snk_sender_id st' = snk_sender_id st \<and> snk_signing_public st' = snk_signing_public st"
  proof (cases "n < snk_iteration st")
    case True
    with r obtain sk c where t: "cache_take (\<lambda>sk. ssk_iteration sk = n) (snk_skipped st) = Some (sk, c)"
      "mk = ssk_key sk" "st' = st\<lparr>snk_skipped := c\<rparr>"
      by (auto simp: key_for_iteration_def reprendre_clef_sautee_def split: option.splits)
    from scache.take_subset [OF t(1)] scache.take_shrinks [OF t(1)] assms(2) t(2,3) show ?thesis
      by (auto simp: wf_sender_def list_all_iff)
  next
    case False
    then have "\<not> unat (n - snk_iteration st) > kMaxSkip"
      using r by (auto simp: key_for_iteration_def split: if_splits)
    from ahead [OF False this] r bound keys assms(2) schain.key_ok [OF kl] schain.next_ok [OF kl] show ?thesis
      by (auto simp: wf_sender_def Let_def chain_live_def)
  qed
qed

section \<open>Looking up and writing back\<close>

definition sender_of :: "ZiaEngine \<Rightarrow> bytes \<Rightarrow> bytes \<Rightarrow> ZiaSenderKey option" where
  "sender_of en g s = map_option (\<lambda>j. en_sender_keys en ! j) (trouver en g s)"

lemma trouver_Some:
  "trouver en g s = Some j \<Longrightarrow>
     j < length (en_sender_keys en) \<and> snk_group_id (en_sender_keys en ! j) = g \<and> snk_sender_id (en_sender_keys en ! j) = s"
  by (auto simp: trouver_def dest!: find_index_Some)

lemma find_index_update:
  assumes "i < length xs" "p x = p (xs ! i)"
  shows "find_index p (xs[i := x]) = find_index p xs"
  using assms
proof (induction xs arbitrary: i)
  case Nil
  then show ?case by simp
next
  case (Cons y ys)
  then show ?case by (cases i) auto
qed

lemma trouver_put:
  assumes "j < length (en_sender_keys en)" "snk_group_id st = snk_group_id (en_sender_keys en ! j)"
    "snk_sender_id st = snk_sender_id (en_sender_keys en ! j)"
  shows "trouver (put_sender j st en) = trouver en"
  using assms by (intro ext) (simp add: trouver_def put_sender_def find_index_update)

lemma sender_of_put:
  assumes "trouver en g s = Some j" "snk_group_id st = g" "snk_sender_id st = s"
  shows "sender_of (put_sender j st en) g' s' = (if (g', s') = (g, s) then Some st else sender_of en g' s')"
proof -
  note j = trouver_Some [OF assms(1)]
  have t: "trouver (put_sender j st en) = trouver en" using j assms(2,3) by (intro trouver_put) simp_all
  show ?thesis
  proof (cases "(g', s') = (g, s)")
    case True
    then show ?thesis using t assms(1) j by (simp add: sender_of_def put_sender_def)
  next
    case False
    then have "trouver en g' s' \<noteq> Some j" using trouver_Some [of en g' s' j] j by auto
    then show ?thesis
      using t False by (cases "trouver en g' s'") (auto simp: sender_of_def put_sender_def)
  qed
qed

lemma sender_of_append:
  assumes "trouver en (snk_group_id st) (snk_sender_id st) = None"
  shows "sender_of (en\<lparr>en_sender_keys := en_sender_keys en @ [st]\<rparr>) g' s' =
    (if (g', s') = (snk_group_id st, snk_sender_id st) then Some st else sender_of en g' s')"
proof (cases "trouver en g' s'")
  case None
  then show ?thesis by (auto simp: sender_of_def trouver_def find_index_append)
next
  case (Some j)
  then have "(g', s') \<noteq> (snk_group_id st, snk_sender_id st)" using assms by auto
  moreover have "j < length (en_sender_keys en)" using trouver_Some [OF Some] by simp
  ultimately show ?thesis using Some by (auto simp: sender_of_def trouver_def find_index_append nth_append)
qed

text \<open>Registering a state under its names, as both \<open>create\<close> and \<open>process\<close> do.\<close>

definition register :: "ZiaSenderKey \<Rightarrow> ZiaEngine \<Rightarrow> ZiaEngine" where
  "register st en = (case trouver en (snk_group_id st) (snk_sender_id st) of
     Some j \<Rightarrow> put_sender j st en | None \<Rightarrow> en\<lparr>en_sender_keys := en_sender_keys en @ [st]\<rparr>)"

lemma sender_of_register:
  "sender_of (register st en) g s =
     (if (g, s) = (snk_group_id st, snk_sender_id st) then Some st else sender_of en g s)"
  by (cases "trouver en (snk_group_id st) (snk_sender_id st)")
    (auto simp: register_def sender_of_append sender_of_put)

lemma register_wf:
  assumes "wf_groups en" "wf_sender st"
  shows "wf_groups (register st en)"
proof (cases "trouver en (snk_group_id st) (snk_sender_id st)")
  case None
  then have "(snk_group_id st, snk_sender_id st) \<notin> (\<lambda>k. (snk_group_id k, snk_sender_id k)) ` set (en_sender_keys en)"
    by (auto simp: trouver_def find_index_None)
  with None assms show ?thesis by (simp add: register_def wf_groups_def)
next
  case (Some j)
  note j = trouver_Some [OF Some]
  have "map (\<lambda>k. (snk_group_id k, snk_sender_id k)) ((en_sender_keys en)[j := st]) =
      map (\<lambda>k. (snk_group_id k, snk_sender_id k)) (en_sender_keys en)"
    using j by (simp add: map_update list_update_same_conv)
  moreover have "list_all wf_sender ((en_sender_keys en)[j := st])"
    using assms by (auto simp: wf_groups_def list_all_iff dest!: subsetD [OF set_update_subset_insert])
  ultimately show ?thesis using Some assms(1) by (simp add: register_def put_sender_def wf_groups_def)
qed

lemma put_sender_register:
  "trouver en g s = Some j \<Longrightarrow> snk_group_id st = g \<Longrightarrow> snk_sender_id st = s \<Longrightarrow> put_sender j st en = register st en"
  by (simp add: register_def)

lemma sender_wf: "wf_groups en \<Longrightarrow> sender_of en g s = Some st \<Longrightarrow> wf_sender st \<and> snk_group_id st = g \<and> snk_sender_id st = s"
  using trouver_Some [of en g s] by (auto simp: sender_of_def wf_groups_def list_all_length)

section \<open>The operations on the registered states\<close>

definition own_state :: "lib \<Rightarrow> bytes \<Rightarrow> env \<Rightarrow> ZiaSenderKey" where
  "own_state L g e =
     \<lparr>snk_group_id = g, snk_sender_id = [], snk_chain_key = randombytes_buf L (e_draw e) 32, snk_iteration = 0,
      snk_signing_public = fst (crypto_sign_keypair L (Suc (e_draw e))),
      snk_signing_private = snd (crypto_sign_keypair L (Suc (e_draw e))), snk_skipped = []\<rparr>"

definition distribution_of :: "ZiaSenderKey \<Rightarrow> bytes" where
  "distribution_of st = kMagicDistribution @ put_u32 (snk_iteration st) @ snk_chain_key st @ snk_signing_public st"

lemma create_eq:
  "zia_sender_key_create L nn en g e =
    (if \<not> nn \<or> cstr g = [] then (Err ZIA_ERR_INVALID_ARG, en, e)
     else ((if malloc_ok L (e_alloc e) kDistributionLen then Ok (distribution_of (own_state L (cstr g) e))
            else Err ZIA_ERR_OUT_OF_MEMORY),
           register (own_state L (cstr g) e) en,
           e\<lparr>e_draw := Suc (Suc (e_draw e)), e_alloc := Suc (e_alloc e)\<rparr>))"
  by (simp add: zia_sender_key_create_def own_state_def register_def distribution_of_def draw_def
      ed25519_keypair_def malloc_def case_prod_beta Let_def split: option.split)

definition peer_state :: "bytes \<Rightarrow> bytes \<Rightarrow> bytes \<Rightarrow> ZiaSenderKey" where
  "peer_state g s d =
     \<lparr>snk_group_id = g, snk_sender_id = s, snk_chain_key = take 32 (drop 12 d), snk_iteration = get_u32 (drop 8 d),
      snk_signing_public = take 32 (drop 44 d), snk_signing_private = [], snk_skipped = []\<rparr>"

lemma process_eq:
  "zia_sender_key_process nn en g s d =
    (if \<not> nn \<or> length d \<noteq> kDistributionLen \<or> take 8 d \<noteq> kMagicDistribution \<or> cstr g = [] \<or> cstr s = []
     then (Err ZIA_ERR_INVALID_ARG, en)
     else (Ok (), register (peer_state (cstr g) (cstr s) d) en))"
  by (auto simp: zia_sender_key_process_def register_def peer_state_def Let_def)

text \<open>The message at the current position of a chain.\<close>

definition group_ct :: "lib \<Rightarrow> ZiaSenderKey \<Rightarrow> bytes \<Rightarrow> bytes option" where
  "group_ct L st p = aead_encrypt L (chain_key (kdf_chain L) (snk_chain_key st)) zero_nonce p (snk_group_id st)"

definition seal_message :: "lib \<Rightarrow> ZiaSenderKey \<Rightarrow> bytes \<Rightarrow> bytes" where
  "seal_message L st ct =
     (let signed = kMagicMessage @ put_u32 (snk_iteration st) @ ct
      in signed @ ed25519_sign L (snk_signing_private st) signed)"

lemma encrypt_eq:
  assumes "sizes_ok L" "wf_groups en"
  shows "zia_sender_key_encrypt L nn en g pt e =
    (if \<not> nn \<or> buf_bad pt then (Err ZIA_ERR_INVALID_ARG, en, e)
     else case sender_of en (cstr g) [] of
       None \<Rightarrow> (Err ZIA_ERR_SESSION_NOT_FOUND, en, e)
     | Some st \<Rightarrow>
         let e1 = e\<lparr>e_alloc := Suc (e_alloc e)\<rparr> in
         if \<not> malloc_ok L (e_alloc e) (8 + 4 + (buf_len pt + 16) + 64) then (Err ZIA_ERR_OUT_OF_MEMORY, en, e1)
         else (case buf_read pt of None \<Rightarrow> (Crash, en, e1)
           | Some p \<Rightarrow> (case group_ct L st p of None \<Rightarrow> (Err ZIA_ERR_CRYPTO_FAILURE, en, e1)
             | Some ct \<Rightarrow> (Ok (seal_message L st ct),
                 register (st\<lparr>snk_chain_key := chain_next (kdf_chain L) (snk_chain_key st),
                   snk_iteration := snk_iteration st + 1\<rparr>) en, e1))))"
proof (cases "trouver en (cstr g) []")
  case None
  then show ?thesis by (simp add: zia_sender_key_encrypt_def sender_of_def)
next
  case (Some j)
  let ?st = "en_sender_keys en ! j"
  have so: "sender_of en (cstr g) [] = Some ?st" using Some by (simp add: sender_of_def)
  note w = sender_wf [OF assms(2) so]
  have live: "chain_live L (snk_chain_key ?st)" using w assms(1) by (simp add: chain_live_def wf_sender_def)
  have len: "length (snk_chain_key ?st) = 32" using w by (simp add: wf_sender_def)
  show ?thesis
    using so Some len w schain.step_eq [OF live]
    by (cases "buf_read pt")
      (auto simp: zia_sender_key_encrypt_def malloc_def Let_def group_ct_def seal_message_def
        put_sender_register split: option.split)
qed

text \<open>
  Decryption, once the message has the right shape and names a registered sender.
\<close>

definition well_shaped :: "bytes \<Rightarrow> bool" where
  "well_shaped m \<longleftrightarrow> 92 \<le> length m \<and> take 8 m = kMagicMessage"

definition signed_part :: "bytes \<Rightarrow> bytes" where "signed_part m = take (length m - 64) m"
definition signature_part :: "bytes \<Rightarrow> bytes" where "signature_part m = drop (length m - 64) m"

lemma decrypt_eq:
  assumes "sizes_ok L" "wf_groups en"
  shows "zia_sender_key_decrypt L nn en g s m e =
    (if \<not> nn \<or> \<not> well_shaped m then (Err ZIA_ERR_INVALID_ARG, en, e)
     else case sender_of en (cstr g) (cstr s) of
       None \<Rightarrow> (Err ZIA_ERR_SESSION_NOT_FOUND, en, e)
     | Some st \<Rightarrow>
         if \<not> ed25519_verify L (snk_signing_public st) (signed_part m) (signature_part m)
         then (Err ZIA_ERR_SIGNATURE_INVALID, en, e)
         else (case the (key_for_iteration L st (get_u32 (drop 8 m))) of
             Inl status \<Rightarrow> (Err status, en, e)
           | Inr (mk, st') \<Rightarrow>
               let e1 = e\<lparr>e_alloc := Suc (e_alloc e)\<rparr>; ct = drop 12 (signed_part m) in
               (if \<not> malloc_ok L (e_alloc e) (if length ct - 16 \<noteq> 0 then length ct - 16 else 1)
                then Err ZIA_ERR_OUT_OF_MEMORY
                else case aead_decrypt L mk zero_nonce ct (cstr g) of
                  None \<Rightarrow> Err ZIA_ERR_CRYPTO_FAILURE | Some pt \<Rightarrow> Ok pt, register st' en, e1)))"
proof (cases "trouver en (cstr g) (cstr s)")
  case None
  then show ?thesis
    by (auto simp: zia_sender_key_decrypt_def well_shaped_def sender_of_def)
next
  case (Some j)
  let ?st = "en_sender_keys en ! j"
  have so: "sender_of en (cstr g) (cstr s) = Some ?st" using Some by (simp add: sender_of_def)
  note w = sender_wf [OF assms(2) so]
  have len: "length (snk_chain_key ?st) = 32" using w by (simp add: wf_sender_def)
  show ?thesis
  proof (cases "\<not> nn \<or> \<not> well_shaped m \<or> \<not> ed25519_verify L (snk_signing_public ?st) (signed_part m) (signature_part m)")
    case True
    then show ?thesis
      using so Some len
      by (auto simp: zia_sender_key_decrypt_def well_shaped_def signed_part_def signature_part_def Let_def)
  next
    case False
    obtain r where r: "key_for_iteration L ?st (get_u32 (drop 8 m)) = Some r"
      using key_for_iteration_wf(1) [OF assms(1) conjunct1 [OF w]] by auto
    have fin: "put_sender j st' en = register st' en" if "r = Inr (mk, st')" for mk st'
      using key_for_iteration_wf(2) [OF assms(1) conjunct1 [OF w]] r that w Some by (auto simp: put_sender_register)
    show ?thesis
      using False so Some len r fin
      by (cases r) (auto simp: zia_sender_key_decrypt_def well_shaped_def signed_part_def signature_part_def
          malloc_def Let_def split: option.split)
  qed
qed

section \<open>The life of the group state\<close>

inductive groups_reachable :: "lib \<Rightarrow> ZiaEngine \<Rightarrow> bool" for L where
  start: "en_sender_keys en = [] \<Longrightarrow> groups_reachable L en"
| create: "groups_reachable L en \<Longrightarrow> zia_sender_key_create L nn en g e = (r, en', e') \<Longrightarrow> groups_reachable L en'"
| process: "groups_reachable L en \<Longrightarrow> zia_sender_key_process nn en g s d = (r', en') \<Longrightarrow> groups_reachable L en'"
| encrypt: "groups_reachable L en \<Longrightarrow> zia_sender_key_encrypt L nn en g pt e = (r, en', e') \<Longrightarrow> groups_reachable L en'"
| decrypt: "groups_reachable L en \<Longrightarrow> zia_sender_key_decrypt L nn en g s m e = (r, en', e') \<Longrightarrow> groups_reachable L en'"

lemma encrypt_groups_wf:
  assumes "sizes_ok L" "wf_groups en" "zia_sender_key_encrypt L nn en g pt e = (r, en', e')"
  shows "wf_groups en' \<and> r \<noteq> Crash"
proof (cases "sender_of en (cstr g) []")
  case None
  then show ?thesis using encrypt_eq [OF assms(1,2)] assms(2,3) by (auto split: if_splits)
next
  case (Some st)
  note w = sender_wf [OF assms(2) Some]
  have live: "chain_live L (snk_chain_key st)" using w assms(1) by (simp add: chain_live_def wf_sender_def)
  have "wf_groups (register (st\<lparr>snk_chain_key := chain_next (kdf_chain L) (snk_chain_key st), snk_iteration := i\<rparr>) en)" for i
    by (rule register_wf [OF assms(2)]) (use w schain.next_ok [OF live] in \<open>simp add: wf_sender_def chain_live_def\<close>)
  then show ?thesis
    using encrypt_eq [OF assms(1,2), of nn g pt e] Some assms(2,3)
    by (auto simp: Let_def buf_read_None split: if_splits option.splits)
qed

lemma decrypt_groups_wf:
  assumes "sizes_ok L" "wf_groups en" "zia_sender_key_decrypt L nn en g s m e = (r, en', e')"
  shows "wf_groups en' \<and> r \<noteq> Crash"
proof (cases "sender_of en (cstr g) (cstr s)")
  case None
  then show ?thesis using decrypt_eq [OF assms(1,2)] assms(2,3) by (auto split: if_splits)
next
  case (Some st)
  note w = sender_wf [OF assms(2) Some]
  obtain q where q: "key_for_iteration L st (get_u32 (drop 8 m)) = Some q"
    using key_for_iteration_wf(1) [OF assms(1) conjunct1 [OF w]] by auto
  have "wf_groups (register st' en)" if "q = Inr (mk, st')" for mk st'
    by (rule register_wf [OF assms(2)]) (use key_for_iteration_wf(2) [OF assms(1) conjunct1 [OF w]] q that in blast)
  then show ?thesis
    using decrypt_eq [OF assms(1,2), of nn g s m e] Some q assms(2,3)
    by (auto simp: Let_def split: if_splits option.splits sum.splits)
qed

lemma groups_reachable_wf:
  assumes "groups_reachable L en" "sizes_ok L"
  shows "wf_groups en"
  using assms(1)
proof induction
  case (start en)
  then show ?case by (simp add: wf_groups_def)
next
  case (create en nn g e r en' e')
  have "wf_sender (own_state L (cstr g) e)"
    by (simp add: wf_sender_def own_state_def sizes_lens assms(2))
  with create show ?case by (auto simp: create_eq register_wf split: if_splits)
next
  case (process en nn g s d r' en')
  have "wf_sender (peer_state (cstr g) (cstr s) d)" if "length d = kDistributionLen" "cstr s \<noteq> []"
    using that by (simp add: wf_sender_def peer_state_def kDistributionLen_def)
  with process show ?case by (auto simp: process_eq register_wf split: if_splits)
next
  case (encrypt en nn g pt e r en' e')
  then show ?case using encrypt_groups_wf [OF assms(2)] by blast
next
  case (decrypt en nn g s m e r en' e')
  then show ?case using decrypt_groups_wf [OF assms(2)] by blast
qed

section \<open>Properties\<close>

text \<open>
  Whatever sequence of distributions and messages an engine processes, genuine or not,
  every sender key keeps its sizes, holds at most 2000 skipped keys, there is one state per group and
  sender, and neither encryption nor decryption reads outside a key.
\<close>

lemma groups_safe:
  assumes "groups_reachable L en" "sizes_ok L"
  shows "wf_groups en \<and> (\<forall>st \<in> set (en_sender_keys en). length (snk_skipped st) \<le> 2000) \<and>
    fst (zia_sender_key_encrypt L nn en g pt e) \<noteq> Crash \<and> fst (zia_sender_key_decrypt L nn en g s m e) \<noteq> Crash"
proof -
  have wf: "wf_groups en" by (rule groups_reachable_wf [OF assms])
  then have "\<forall>st \<in> set (en_sender_keys en). length (snk_skipped st) \<le> 2000"
    by (auto simp: wf_groups_def list_all_iff wf_sender_def kMaxSkippedSender_def)
  moreover have "fst (zia_sender_key_encrypt L nn en g pt e) \<noteq> Crash"
    using encrypt_groups_wf [OF assms(2) wf] by (metis prod.collapse)
  moreover have "fst (zia_sender_key_decrypt L nn en g s m e) \<noteq> Crash"
    using decrypt_groups_wf [OF assms(2) wf] by (metis prod.collapse)
  ultimately show ?thesis using wf by blast
qed

text \<open>
  C16 (safety).  Nothing is done with the bytes of a source that is not authenticated: if decryption
  returns a plaintext, or changes the engine or the environment in any way, then the message carries a
  valid signature under the key registered for that sender in that group.
\<close>

theorem unauthenticated_bytes_have_no_effect:
  assumes "zia_sender_key_decrypt L nn en g s m e = (r, en', e')" "is_Ok r \<or> en' \<noteq> en \<or> e' \<noteq> e"
  shows "\<exists>st. sender_of en (cstr g) (cstr s) = Some st \<and>
    ed25519_verify L (snk_signing_public st) (take (length m - 64) m) (drop (length m - 64) m)"
  using assms by (auto simp: zia_sender_key_decrypt_def sender_of_def Let_def split: if_splits option.splits)

text \<open>
  A distribution only affects the member it is attributed to: processing any bytes at all
  leaves every other sender key of the engine alone, in particular the engine's own keys, which are
  registered under the empty name.
\<close>

lemma distribution_is_isolated:
  assumes "zia_sender_key_process nn en g s d = (r, en')" "s' = [] \<or> (g', s') \<noteq> (cstr g, cstr s)"
  shows "sender_of en' g' s' = sender_of en g' s'"
  using assms by (auto simp: process_eq sender_of_register peer_state_def split: if_splits)

text \<open>A member's distribution, processed by a peer.\<close>

definition sample_group :: bytes where "sample_group = ascii ''g''"
definition sample_member :: bytes where "sample_member = ascii ''m''"

lemma sample_names: "cstr sample_group = sample_group" "sample_group \<noteq> []" "cstr sample_member = sample_member" "sample_member \<noteq> []"
  by (simp_all add: sample_group_def sample_member_def ascii_def cstr_def)

definition sample_peer :: ZiaEngine where
  "sample_peer = snd (zia_sender_key_process True new_ZiaEngine sample_group sample_member
     (distribution_of (own_state sample_lib sample_group env0)))"

lemma length_distribution: "sizes_ok L \<Longrightarrow> length (distribution_of (own_state L g e)) = kDistributionLen"
  by (simp add: distribution_of_def own_state_def kMagicDistribution_def kDistributionLen_def sizes_lens)

lemma process_distribution:
  assumes "sizes_ok L" "cstr g \<noteq> []" "cstr s \<noteq> []"
  shows "zia_sender_key_process True en g s (distribution_of (own_state L (cstr g) e)) =
    (Ok (), register ((own_state L (cstr g) e)\<lparr>snk_sender_id := cstr s, snk_signing_private := []\<rparr>) en)"
proof -
  let ?st = "own_state L (cstr g) e"
  have l: "length (snk_chain_key ?st) = 32" "length (snk_signing_public ?st) = 32" "snk_skipped ?st = []"
    "snk_group_id ?st = cstr g"
    using assms(1) by (simp_all add: own_state_def sizes_lens)
  have d: "distribution_of ?st = kMagicDistribution @ put_u32 (snk_iteration ?st) @ snk_chain_key ?st @ snk_signing_public ?st"
    by (simp add: distribution_of_def)
  have m: "length kMagicDistribution = 8" by (simp add: kMagicDistribution_def)
  have "peer_state (cstr g) (cstr s) (distribution_of ?st) = ?st\<lparr>snk_sender_id := cstr s, snk_signing_private := []\<rparr>"
    using l m by (simp add: peer_state_def d be32.get_put)
  then show ?thesis
    using assms(2,3) length_distribution [OF assms(1), of "cstr g" e] m by (simp add: process_eq) (simp add: d)
qed

section \<open>Delivery in any order\<close>

primrec group_send :: "lib \<Rightarrow> ZiaEngine \<Rightarrow> bytes \<Rightarrow> bytes list \<Rightarrow> env \<Rightarrow> bytes res list" where
  "group_send L en g [] e = []"
| "group_send L en g (p # ps) e =
     (let (r, en', e') = zia_sender_key_encrypt L True en g (Buf p) e in r # group_send L en' g ps e')"

primrec group_receive :: "lib \<Rightarrow> ZiaEngine \<Rightarrow> bytes \<Rightarrow> bytes \<Rightarrow> bytes list \<Rightarrow> env \<Rightarrow> bytes res list" where
  "group_receive L en g s [] e = []"
| "group_receive L en g s (m # ms) e =
     (let (r, en', e') = zia_sender_key_decrypt L True en g s m e in r # group_receive L en' g s ms e')"

text \<open>The sender's state after \<open>j\<close> messages, and its message number \<open>j\<close>.\<close>

definition sender_at :: "lib \<Rightarrow> ZiaSenderKey \<Rightarrow> nat \<Rightarrow> ZiaSenderKey" where
  "sender_at L st j = st\<lparr>snk_chain_key := (chain_next (kdf_chain L) ^^ j) (snk_chain_key st),
     snk_iteration := snk_iteration st + of_nat j\<rparr>"

definition group_message :: "lib \<Rightarrow> ZiaSenderKey \<Rightarrow> nat \<Rightarrow> bytes \<Rightarrow> bytes" where
  "group_message L st j p = seal_message L (sender_at L st j) (the (group_ct L (sender_at L st j) p))"

lemma sender_at_Suc:
  "sender_at L (st\<lparr>snk_chain_key := chain_next (kdf_chain L) (snk_chain_key st), snk_iteration := snk_iteration st + 1\<rparr>) j =
     sender_at L st (Suc j)"
  by (simp add: sender_at_def funpow_swap1 add.assoc)

lemma group_ct_ok:
  assumes "sizes_ok L" "aead_ok L" "chain_live L (snk_chain_key st)"
  obtains ct where "group_ct L st p = Some ct" "length ct = length p + 16"
    "aead_decrypt L (chain_key (kdf_chain L) (snk_chain_key st)) zero_nonce ct (snk_group_id st) = Some p"
proof -
  have "length (chain_key (kdf_chain L) (snk_chain_key st)) = 32" by (rule schain.key_ok [OF assms(3)])
  then show thesis
    using aead_roundtrip [OF assms(2), of zero_nonce "chain_key (kdf_chain L) (snk_chain_key st)" p "snk_group_id st"] that
    by (auto simp: zero_nonce_def group_ct_def aead_encrypt_def aead_decrypt_def)
qed

lemma group_send_eq:
  assumes "sizes_ok L" "aead_ok L" "mem_ok L"
  shows "wf_groups en \<Longrightarrow> sender_of en (cstr g) [] = Some st \<Longrightarrow>
    group_send L en g ps e = map (\<lambda>j. Ok (group_message L st j (ps ! j))) [0..<length ps]"
proof (induction ps arbitrary: en st e)
  case Nil
  then show ?case by simp
next
  case (Cons p ps)
  let ?st = "st\<lparr>snk_chain_key := chain_next (kdf_chain L) (snk_chain_key st), snk_iteration := snk_iteration st + 1\<rparr>"
  note w = sender_wf [OF Cons.prems]
  have live: "chain_live L (snk_chain_key st)" using w assms(1) by (simp add: chain_live_def wf_sender_def)
  obtain ct where ct: "group_ct L st p = Some ct" by (rule group_ct_ok [OF assms(1,2) live])
  have m0: "seal_message L st ct = group_message L st 0 p" using ct by (simp add: group_message_def sender_at_def)
  obtain e' where enc: "zia_sender_key_encrypt L True en g (Buf p) e = (Ok (group_message L st 0 p), register ?st en, e')"
    using encrypt_eq [OF assms(1) Cons.prems(1), of True g "Buf p" e] Cons.prems(2) ct assms(3) m0
    by (simp add: mem_ok_def Let_def)
  have "wf_groups (register ?st en)" using encrypt_groups_wf [OF assms(1) Cons.prems(1) enc] by blast
  moreover have "sender_of (register ?st en) (cstr g) [] = Some ?st" using w by (simp add: sender_of_register)
  ultimately have "group_send L (register ?st en) g ps e' =
      map (\<lambda>j. Ok (group_message L ?st j (ps ! j))) [0..<length ps]"
    by (rule Cons.IH)
  also have "\<dots> = map (\<lambda>j. Ok (group_message L st (Suc j) (ps ! j))) [0..<length ps]"
    by (simp add: group_message_def sender_at_Suc)
  finally have "group_send L en g (p # ps) e =
      Ok (group_message L st 0 p) # map (\<lambda>j. Ok (group_message L st (Suc j) (ps ! j))) [0..<length ps]"
    using enc by simp
  then show ?case
    by (simp only: length_Cons upt_rec [of 0 "Suc (length ps)"])
      (simp add: map_Suc_upt [symmetric] comp_def del: upt_Suc)
qed

definition group_entry :: "lib \<Rightarrow> ZiaSenderKey \<Rightarrow> nat \<Rightarrow> ZiaSenderSkippedKey" where
  "group_entry L st j = \<lparr>ssk_iteration = of_nat j,
     ssk_key = chain_key (kdf_chain L) ((chain_next (kdf_chain L) ^^ j) (snk_chain_key st))\<rparr>"

text \<open>
  The receiver's state for a sender whose chain starts at \<open>st\<close> (iteration 0): the messages \<open>D\<close> have
  arrived, all positions below \<open>m\<close> have been derived.
\<close>

definition group_delivery :: "lib \<Rightarrow> ZiaSenderKey \<Rightarrow> nat set \<Rightarrow> nat \<Rightarrow> ZiaSenderKey \<Rightarrow> bool" where
  "group_delivery L st D m rt \<longleftrightarrow>
     D \<subseteq> {..<m} \<and> m \<le> 2000 \<and> snk_chain_key rt = (chain_next (kdf_chain L) ^^ m) (snk_chain_key st) \<and>
     snk_iteration rt = of_nat m \<and> snk_signing_public rt = snk_signing_public st \<and>
     snk_group_id rt = snk_group_id st \<and> distinct (map ssk_iteration (snk_skipped rt)) \<and>
     set (snk_skipped rt) = group_entry L st ` ({..<m} - D)"

lemma small_u32: "j \<le> 2000 \<Longrightarrow> unat (of_nat j :: u32) = j"
  by (simp add: unat_of_nat)

lemma small_u32_eq: "i \<le> 2000 \<Longrightarrow> j \<le> 2000 \<Longrightarrow> (of_nat i :: u32) = of_nat j \<longleftrightarrow> i = j"
  by (metis small_u32)

lemma small_u32_less: "i \<le> 2000 \<Longrightarrow> j \<le> 2000 \<Longrightarrow> (of_nat i :: u32) < of_nat j \<longleftrightarrow> i < j"
  by (simp add: word_less_nat_alt small_u32)

lemma group_delivery_size: "group_delivery L st D m rt \<Longrightarrow> length (snk_skipped rt) \<le> m"
proof -
  assume I: "group_delivery L st D m rt"
  then have "distinct (snk_skipped rt)" by (simp add: group_delivery_def distinct_map)
  then have "length (snk_skipped rt) = card (set (snk_skipped rt))" by (rule distinct_card [symmetric])
  also have "\<dots> \<le> card ({..<m} - D)" using I by (simp add: group_delivery_def card_image_le)
  also have "\<dots> \<le> m" using card_mono [of "{..<m}" "{..<m} - D"] by simp
  finally show ?thesis .
qed

lemma group_key_late:
  assumes I: "group_delivery L st D m rt" and j: "j < m" "j \<notin> D"
  shows "\<exists>rt'. key_for_iteration L rt (of_nat j) =
      Some (Inr (chain_key (kdf_chain L) ((chain_next (kdf_chain L) ^^ j) (snk_chain_key st)), rt')) \<and>
    group_delivery L st (insert j D) m rt' \<and> snk_sender_id rt' = snk_sender_id rt"
proof -
  have b: "m \<le> 2000" "D \<subseteq> {..<m}" "snk_iteration rt = of_nat m" "distinct (map ssk_iteration (snk_skipped rt))"
    "set (snk_skipped rt) = group_entry L st ` ({..<m} - D)"
    using I by (simp_all add: group_delivery_def)
  have "group_entry L st j \<in> set (snk_skipped rt)" using b(5) j by blast
  from scache.take_present [OF this b(4)] obtain c where
    t: "cache_take (\<lambda>sk. ssk_iteration sk = of_nat j) (snk_skipped rt) = Some (group_entry L st j, c)"
    by (auto simp: group_entry_def)
  have rm: "distinct (map ssk_iteration c)" "set c = set (snk_skipped rt) - {group_entry L st j}"
    using scache.take_removes [OF t b(4)] by simp_all
  have "group_entry L st i = group_entry L st j \<longleftrightarrow> i = j" if "i < m" for i
    using that j(1) b(1) small_u32_eq [of i j] by (auto simp: group_entry_def)
  then have "set c = group_entry L st ` ({..<m} - insert j D)"
    using rm(2) b(5) j(1) by auto
  moreover have "(of_nat j :: u32) < of_nat m" using j(1) b(1) by (simp add: small_u32_less)
  ultimately show ?thesis
    using t b rm(1) I j(1)
    by (simp add: key_for_iteration_def reprendre_clef_sautee_def group_delivery_def group_entry_def)
qed

lemma group_key_ahead:
  assumes live: "chain_live L (snk_chain_key st)" and I: "group_delivery L st D m rt" and j: "m \<le> j" "j < 2000"
  shows "\<exists>rt'. key_for_iteration L rt (of_nat j) =
      Some (Inr (chain_key (kdf_chain L) ((chain_next (kdf_chain L) ^^ j) (snk_chain_key st)), rt')) \<and>
    group_delivery L st (insert j D) (Suc j) rt' \<and> snk_sender_id rt' = snk_sender_id rt"
proof -
  let ?x = "chain_next (kdf_chain L)" and ?n = "of_nat j :: u32"
  have b: "D \<subseteq> {..<m}" "snk_chain_key rt = (?x ^^ m) (snk_chain_key st)" "snk_iteration rt = of_nat m"
    "distinct (map ssk_iteration (snk_skipped rt))" "set (snk_skipped rt) = group_entry L st ` ({..<m} - D)"
    using I by (simp_all add: group_delivery_def)
  have lt: "\<not> ?n < snk_iteration rt" using b(3) j small_u32_less [of j m] by simp
  have d: "unat (?n - snk_iteration rt) = j - m"
    using lt b(3) j small_u32 [of j] small_u32 [of m] by (simp add: unat_sub not_less)
  have c: "(?x ^^ (j - m)) ((?x ^^ m) (snk_chain_key st)) = (?x ^^ j) (snk_chain_key st)"
    using funpow_add [of "j - m" m ?x] j(1) by simp
  have sa: "sauts L (of_nat m) (j - m) ((?x ^^ m) (snk_chain_key st)) = map (group_entry L st) [m..<j]"
    by (rule nth_equalityI) (use j in \<open>simp_all add: nth_sauts group_entry_def funpow_add [symmetric] add.commute
      flip: funpow_add [THEN fun_cong, unfolded comp_apply] of_nat_add\<close>)
  have room: "foldl (cache_store kMaxSkippedSender) (snk_skipped rt) (map (group_entry L st) [m..<j]) =
      snk_skipped rt @ map (group_entry L st) [m..<j]"
    by (rule scache.foldl_store_room) (use group_delivery_size [OF I] j in \<open>simp add: kMaxSkippedSender_def\<close>)
  let ?rt = "rt\<lparr>snk_chain_key := ?x ((?x ^^ j) (snk_chain_key st)), snk_iteration := ?n + 1,
      snk_skipped := snk_skipped rt @ map (group_entry L st) [m..<j]\<rparr>"
  have "chain_live L (snk_chain_key rt)" using schain.funpow_ok [OF live] b(2) by simp
  from key_ahead [OF this lt] have key: "key_for_iteration L rt ?n =
      Some (Inr (chain_key (kdf_chain L) ((?x ^^ j) (snk_chain_key st)), ?rt))"
    using d j b(2,3) c sa room by (simp add: kMaxSkip_def Let_def)
  have "inj_on (\<lambda>i. of_nat i :: u32) {..<j}" using j by (intro inj_onI) (simp add: small_u32_eq)
  then have "distinct (map (\<lambda>i. of_nat i :: u32) [m..<j])"
    by (simp add: distinct_map inj_on_def)
  moreover have "ssk_iteration ` set (snk_skipped rt) \<inter> (\<lambda>i. of_nat i :: u32) ` {m..<j} = {}"
    using b(5) j small_u32_eq by (auto simp: group_entry_def)
  ultimately have "distinct (map ssk_iteration (snk_skipped ?rt))"
    using b(4) by (simp add: comp_def group_entry_def)
  moreover have "{..<Suc j} - insert j D = ({..<m} - D) \<union> {m..<j}" using b(1) j(1) by (auto simp: subset_iff)
  then have "set (snk_skipped ?rt) = group_entry L st ` ({..<Suc j} - insert j D)"
    using b(5) by (simp add: image_Un)
  ultimately have "group_delivery L st (insert j D) (Suc j) ?rt"
    using I b(1) j by (auto simp: group_delivery_def add.commute)
  with key show ?thesis by simp
qed

lemma group_message_shape:
  assumes "sizes_ok L" "aead_ok L" "sign_ok L" "chain_live L (snk_chain_key st)" "snk_iteration st = 0"
    and "crypto_sign_keypair L i = (snk_signing_public st, snk_signing_private st)"
  obtains ct where "group_message L st j p = (kMagicMessage @ put_u32 (of_nat j) @ ct) @
      ed25519_sign L (snk_signing_private st) (kMagicMessage @ put_u32 (of_nat j) @ ct)"
    "length ct = length p + 16"
    "aead_decrypt L (chain_key (kdf_chain L) ((chain_next (kdf_chain L) ^^ j) (snk_chain_key st))) zero_nonce ct (snk_group_id st) = Some p"
    "well_shaped (group_message L st j p)" "signed_part (group_message L st j p) = kMagicMessage @ put_u32 (of_nat j) @ ct"
    "ed25519_verify L (snk_signing_public st) (signed_part (group_message L st j p)) (signature_part (group_message L st j p))"
    "get_u32 (drop 8 (group_message L st j p)) = of_nat j"
proof -
  have live: "chain_live L (snk_chain_key (sender_at L st j))"
    using schain.funpow_ok [OF assms(4)] by (simp add: sender_at_def)
  obtain ct where ct: "group_ct L (sender_at L st j) p = Some ct" "length ct = length p + 16"
    "aead_decrypt L (chain_key (kdf_chain L) (snk_chain_key (sender_at L st j))) zero_nonce ct (snk_group_id (sender_at L st j)) = Some p"
    by (rule group_ct_ok [OF assms(1,2) live])
  let ?s = "kMagicMessage @ put_u32 (of_nat j) @ ct"
  have m: "group_message L st j p = ?s @ ed25519_sign L (snk_signing_private st) ?s"
    using ct(1) assms(5) by (simp add: group_message_def seal_message_def sender_at_def Let_def)
  have mag: "length kMagicMessage = 8" by (simp add: kMagicMessage_def)
  have sl: "length (ed25519_sign L k x) = 64" for k x using assms(1) by (simp add: ed25519_sign_def sizes_lens)
  have parts: "signed_part (group_message L st j p) = ?s"
    "signature_part (group_message L st j p) = ed25519_sign L (snk_signing_private st) ?s"
    using sl [of "snk_signing_private st" ?s] by (simp_all add: signed_part_def signature_part_def m)
  have "ed25519_verify L (snk_signing_public st) ?s (ed25519_sign L (snk_signing_private st) ?s)"
    using assms(3,6) unfolding sign_ok_def ed25519_verify_def ed25519_sign_def by (metis fst_conv snd_conv)
  moreover have "well_shaped (group_message L st j p)" using ct(2) mag sl by (simp add: m well_shaped_def)
  moreover have "get_u32 (drop 8 (group_message L st j p)) = of_nat j" using mag by (simp add: m be32.get_put)
  ultimately show thesis using that [of ct] m ct parts by (simp add: sender_at_def)
qed

lemma group_deliver_step:
  assumes L: "sizes_ok L" "aead_ok L" "sign_ok L" "mem_ok L"
    and st: "chain_live L (snk_chain_key st)" "snk_iteration st = 0"
      "crypto_sign_keypair L i = (snk_signing_public st, snk_signing_private st)"
    and en: "wf_groups en" "sender_of en (cstr g) (cstr s) = Some rt" "snk_group_id st = cstr g"
    and I: "group_delivery L st D m rt" and j: "j \<notin> D" "j < 2000"
  obtains rt' m' where
    "zia_sender_key_decrypt L True en g s (group_message L st j p) e =
      (Ok p, register rt' en, e\<lparr>e_alloc := Suc (e_alloc e)\<rparr>)"
    "group_delivery L st (insert j D) m' rt'" "wf_groups (register rt' en)"
    "sender_of (register rt' en) (cstr g) (cstr s) = Some rt'"
proof -
  obtain ct where ct: "length ct = length p + 16"
    "aead_decrypt L (chain_key (kdf_chain L) ((chain_next (kdf_chain L) ^^ j) (snk_chain_key st))) zero_nonce ct (snk_group_id st) = Some p"
    "well_shaped (group_message L st j p)" "signed_part (group_message L st j p) = kMagicMessage @ put_u32 (of_nat j) @ ct"
    "ed25519_verify L (snk_signing_public st) (signed_part (group_message L st j p)) (signature_part (group_message L st j p))"
    "get_u32 (drop 8 (group_message L st j p)) = of_nat j"
    by (rule group_message_shape [OF L(1-3) st, of j p])
  note w = sender_wf [OF en(1,2)]
  obtain rt' m' where k: "key_for_iteration L rt (of_nat j) =
      Some (Inr (chain_key (kdf_chain L) ((chain_next (kdf_chain L) ^^ j) (snk_chain_key st)), rt'))"
    "group_delivery L st (insert j D) m' rt'" "snk_sender_id rt' = snk_sender_id rt"
    using group_key_late [OF I _ j(1)] group_key_ahead [OF st(1) I _ j(2)] by (cases "j < m") (auto simp: not_less)
  have pub: "snk_signing_public rt = snk_signing_public st" using I by (simp add: group_delivery_def)
  have mag: "length kMagicMessage = 8" by (simp add: kMagicMessage_def)
  have dec: "zia_sender_key_decrypt L True en g s (group_message L st j p) e =
      (Ok p, register rt' en, e\<lparr>e_alloc := Suc (e_alloc e)\<rparr>)"
    using decrypt_eq [OF L(1) en(1), of True g s "group_message L st j p" e] en(2,3) ct k(1) pub L(4) mag
    by (simp add: mem_ok_def Let_def)
  have "wf_groups (register rt' en)" using decrypt_groups_wf [OF L(1) en(1) dec] by blast
  moreover have "sender_of (register rt' en) (cstr g) (cstr s) = Some rt'"
    using k(2,3) w en(3) by (simp add: sender_of_register group_delivery_def)
  ultimately show thesis using that dec k(2) by blast
qed

lemma group_deliver_any:
  assumes L: "sizes_ok L" "aead_ok L" "sign_ok L" "mem_ok L"
    and st: "chain_live L (snk_chain_key st)" "snk_iteration st = 0"
      "crypto_sign_keypair L i = (snk_signing_public st, snk_signing_private st)" "snk_group_id st = cstr g"
    and k: "k \<le> 2000"
  shows "wf_groups en \<Longrightarrow> sender_of en (cstr g) (cstr s) = Some rt \<Longrightarrow> group_delivery L st D m rt \<Longrightarrow>
    distinct js \<Longrightarrow> set js \<subseteq> {..<k} - D \<Longrightarrow>
    group_receive L en g s (map (\<lambda>j. group_message L st j (ps ! j)) js) e = map (\<lambda>j. Ok (ps ! j)) js"
proof (induction js arbitrary: en rt D m e)
  case Nil
  then show ?case by simp
next
  case (Cons j js)
  have j: "j \<notin> D" "j < 2000" using Cons.prems(5) k by auto
  obtain rt' m' where d: "zia_sender_key_decrypt L True en g s (group_message L st j (ps ! j)) e =
      (Ok (ps ! j), register rt' en, e\<lparr>e_alloc := Suc (e_alloc e)\<rparr>)"
    "group_delivery L st (insert j D) m' rt'" "wf_groups (register rt' en)"
    "sender_of (register rt' en) (cstr g) (cstr s) = Some rt'"
    by (rule group_deliver_step [OF L st(1-3) Cons.prems(1,2) st(4) Cons.prems(3) j])
  have "distinct js" "set js \<subseteq> {..<k} - insert j D" using Cons.prems(4,5) by auto
  from Cons.IH [OF d(3,4,2) this] d(1) show ?case by simp
qed

lemma group_delivers:
  assumes "sizes_ok L" "aead_ok L" "sign_ok L" "mem_ok L" "wf_groups A" "wf_groups B"
    and "cstr g \<noteq> []" "cstr s \<noteq> []" "length ps \<le> 2000" "distinct js" "set js \<subseteq> {..<length ps}"
  shows "\<exists>dist A1 e1 B1 msgs. zia_sender_key_create L True A g e = (Ok dist, A1, e1) \<and>
    zia_sender_key_process True B g s dist = (Ok (), B1) \<and>
    (\<forall>e'. group_send L A1 g ps e' = map Ok msgs) \<and> length msgs = length ps \<and>
    (\<forall>e2. group_receive L B1 g s (map (\<lambda>j. msgs ! j) js) e2 = map (\<lambda>j. Ok (ps ! j)) js)"
proof -
  let ?st = "own_state L (cstr g) e" and ?e1 = "e\<lparr>e_draw := Suc (Suc (e_draw e)), e_alloc := Suc (e_alloc e)\<rparr>"
  let ?A = "register ?st A" and ?rt = "?st\<lparr>snk_sender_id := cstr s, snk_signing_private := []\<rparr>"
  let ?B = "register ?rt B"
  let ?msgs = "map (\<lambda>j. group_message L ?st j (ps ! j)) [0..<length ps]"
  have c: "zia_sender_key_create L True A g e = (Ok (distribution_of ?st), ?A, ?e1)"
    using assms(4,7) by (simp add: create_eq mem_ok_def)
  have p: "zia_sender_key_process True B g s (distribution_of ?st) = (Ok (), ?B)"
    by (rule process_distribution [OF assms(1,7,8)])
  have wst: "wf_sender ?st" by (simp add: wf_sender_def own_state_def sizes_lens assms(1))
  then have wrt: "wf_sender ?rt" using assms(8) by (simp add: wf_sender_def)
  have "sender_of ?A (cstr g) [] = Some ?st" by (simp add: sender_of_register own_state_def)
  from group_send_eq [OF assms(1,2,4) register_wf [OF assms(5) wst] this]
  have sd: "group_send L ?A g ps e' = map Ok ?msgs" for e' by (simp add: comp_def)
  have st: "chain_live L (snk_chain_key ?st)" "snk_iteration ?st = 0"
    "crypto_sign_keypair L (Suc (e_draw e)) = (snk_signing_public ?st, snk_signing_private ?st)" "snk_group_id ?st = cstr g"
    using assms(1) by (simp_all add: own_state_def chain_live_def sizes_lens)
  have rt: "sender_of ?B (cstr g) (cstr s) = Some ?rt" by (simp add: sender_of_register own_state_def)
  have gd: "group_delivery L ?st {} 0 ?rt" by (simp add: group_delivery_def own_state_def)
  have idx: "map (\<lambda>j. ?msgs ! j) js = map (\<lambda>j. group_message L ?st j (ps ! j)) js" using assms(11) by auto
  have "set js \<subseteq> {..<length ps} - {}" using assms(11) by simp
  from group_deliver_any [OF assms(1-4) st assms(9) register_wf [OF assms(6) wrt] rt gd assms(10) this]
  have "group_receive L ?B g s (map (\<lambda>j. ?msgs ! j) js) e2 = map (\<lambda>j. Ok (ps ! j)) js" for e2
    unfolding idx .
  with c p sd show ?thesis
    by (intro exI [of _ "distribution_of ?st"], intro exI [of _ ?A], intro exI [of _ ?e1], intro exI [of _ ?B],
        intro exI [of _ ?msgs]) (simp del: map_map)
qed

text \<open>
  C6 (liveness).  A group conversation: a member creates its sender key, a peer processes the
  distribution, the member encrypts up to 2000 messages, and the peer receives any of them in any order
  (some may be lost, none is presented twice).  Creation, processing and encryption succeed and every
  message received decrypts to its own plaintext.
\<close>

theorem group_out_of_order_delivery:
  assumes "sizes_ok L" "aead_ok L" "sign_ok L" "mem_ok L" "wf_groups A" "wf_groups B"
    and "cstr g \<noteq> []" "cstr s \<noteq> []" "length ps \<le> 2000" "distinct js" "set js \<subseteq> {..<length ps}"
  shows "\<exists>dist A1 e1 B1 msgs. zia_sender_key_create L True A g e = (Ok dist, A1, e1) \<and>
    zia_sender_key_process True B g s dist = (Ok (), B1) \<and>
    group_send L A1 g ps e1 = map Ok msgs \<and> length msgs = length ps \<and>
    group_receive L B1 g s (map (\<lambda>j. msgs ! j) js) e2 = map (\<lambda>j. Ok (ps ! j)) js"
  using group_delivers [OF assms] by metis

theorem group_out_of_order_delivery_witness:
  "\<exists>dist A1 e1 B1 msgs. zia_sender_key_create sample_lib True new_ZiaEngine sample_group env0 = (Ok dist, A1, e1) \<and>
    zia_sender_key_process True new_ZiaEngine sample_group sample_member dist = (Ok (), B1) \<and>
    group_send sample_lib A1 sample_group [[10], [11], [12]] e1 = map Ok msgs \<and>
    group_receive sample_lib B1 sample_group sample_member (map (\<lambda>j. msgs ! j) [2, 0, 1]) env0 = [Ok [12], Ok [10], Ok [11]]"
proof -
  have "wf_groups new_ZiaEngine" by (simp add: wf_groups_def new_ZiaEngine_def)
  from group_out_of_order_delivery [OF sample_sizes_ok sample_aead_ok sample_sign_ok sample_mem_ok this this,
      of sample_group sample_member "[[10], [11], [12]]" "[2, 0, 1]" env0 env0]
  show ?thesis by (simp add: sample_names) blast
qed

text \<open>A genuine message, for the authentication property.\<close>

theorem unauthenticated_bytes_have_no_effect_witness:
  "\<exists>m en' e' st. zia_sender_key_decrypt sample_lib True sample_peer sample_group sample_member m env0 = (Ok [9], en', e') \<and>
     sender_of sample_peer sample_group sample_member = Some st \<and>
     ed25519_verify sample_lib (snk_signing_public st) (take (length m - 64) m) (drop (length m - 64) m)"
proof -
  let ?st = "own_state sample_lib sample_group env0"
  let ?rt = "?st\<lparr>snk_sender_id := sample_member, snk_signing_private := []\<rparr>"
  have p: "sample_peer = register ?rt new_ZiaEngine"
    using process_distribution [OF sample_sizes_ok, of sample_group sample_member new_ZiaEngine env0]
    by (simp add: sample_peer_def sample_names)
  have st: "chain_live sample_lib (snk_chain_key ?st)" "snk_iteration ?st = 0"
    "crypto_sign_keypair sample_lib (Suc (e_draw env0)) = (snk_signing_public ?st, snk_signing_private ?st)"
    "snk_group_id ?st = cstr sample_group"
    by (simp_all add: own_state_def chain_live_def sizes_lens sample_sizes_ok sample_names)
  have "wf_sender ?rt" by (simp add: wf_sender_def own_state_def sizes_lens sample_sizes_ok sample_names)
  then have wf: "wf_groups sample_peer"
    unfolding p by (intro register_wf) (simp_all add: wf_groups_def new_ZiaEngine_def)
  have so: "sender_of sample_peer (cstr sample_group) (cstr sample_member) = Some ?rt"
    unfolding p by (simp add: sender_of_register own_state_def sample_names)
  have gd: "group_delivery sample_lib ?st {} 0 ?rt" by (simp add: group_delivery_def own_state_def)
  obtain en' where d: "zia_sender_key_decrypt sample_lib True sample_peer sample_group sample_member
      (group_message sample_lib ?st 0 [9]) env0 = (Ok [9], en', env0\<lparr>e_alloc := Suc (e_alloc env0)\<rparr>)"
    using group_deliver_step [OF sample_sizes_ok sample_aead_ok sample_sign_ok sample_mem_ok st(1-3) wf so st(4) gd,
        of 0 "[9]" env0] by auto
  from unauthenticated_bytes_have_no_effect [OF d] d show ?thesis by (simp add: sample_names) blast
qed

end
