(* ===== verification/Envelopes.thy ===== *)
theory Envelopes
  imports Identity
begin

text \<open>
  The one-shot envelopes: \<open>src/channel.cpp\<close> (the reading key of a channel under the secret of its
  invitation link), \<open>src/sealed_sender.cpp\<close> (a message to an identity, without revealing the sender) and
  \<open>src/attachment.cpp\<close> (a file under a fresh key).
\<close>

section \<open>channel.cpp\<close>

definition ZIA_CHANNEL_LINK_SECRET_LEN :: nat where "ZIA_CHANNEL_LINK_SECRET_LEN = 32"
definition kNonceLen :: nat where "kNonceLen = 24"
definition kTagLen :: nat where "kTagLen = 16"
definition kWrapKeyLen :: nat where "kWrapKeyLen = 32"

definition derive_wrap_key :: "lib \<Rightarrow> bytes \<Rightarrow> bytes" where
  "derive_wrap_key L link_secret =
     hkdf_sha256 L (replicate 32 0) (take ZIA_CHANNEL_LINK_SECRET_LEN link_secret)
       (ascii ''ZiaCrypteChannelKeyWrap'') kWrapKeyLen"

definition zia_channel_seal_key :: "lib \<Rightarrow> bool \<Rightarrow> bytes \<Rightarrow> bytes \<Rightarrow> env \<Rightarrow> bytes res \<times> env" where
  "zia_channel_seal_key L nn link_secret distribution e =
     (if \<not> nn then (Err ZIA_ERR_INVALID_ARG, e)
      else if length distribution = 0 then (Err ZIA_ERR_INVALID_ARG, e) else
      let wrap_key = derive_wrap_key L link_secret;
          (ok, e1) = malloc L (kNonceLen + length distribution + kTagLen) e
      in if \<not> ok then (Err ZIA_ERR_OUT_OF_MEMORY, e1) else
      let (i, e2) = draw e1; nonce = randombytes_buf L i kNonceLen in
      (case xchacha20poly1305_encrypt L distribution nonce wrap_key of
         None \<Rightarrow> (Err ZIA_ERR_CRYPTO_FAILURE, e2)
       | Some c \<Rightarrow> (Ok (nonce @ c), e2)))"

definition zia_channel_open_key :: "lib \<Rightarrow> bool \<Rightarrow> bytes \<Rightarrow> bytes \<Rightarrow> env \<Rightarrow> bytes res \<times> env" where
  "zia_channel_open_key L nn link_secret sealed e =
     (if \<not> nn then (Err ZIA_ERR_INVALID_ARG, e)
      else if length sealed < kNonceLen + kTagLen then (Err ZIA_ERR_CRYPTO_FAILURE, e) else
      let wrap_key = derive_wrap_key L link_secret;
          cipher_len = length sealed - kNonceLen;
          plain_max = cipher_len - kTagLen;
          (ok, e1) = malloc L (if plain_max > 0 then plain_max else 1) e
      in if \<not> ok then (Err ZIA_ERR_OUT_OF_MEMORY, e1)
      else (case xchacha20poly1305_decrypt L (drop kNonceLen sealed) (take kNonceLen sealed) wrap_key of
         None \<Rightarrow> (Err ZIA_ERR_CRYPTO_FAILURE, e1)
       | Some m \<Rightarrow> (Ok m, e1)))"

section \<open>sealed_sender.cpp\<close>

definition SEALBYTES :: nat where "SEALBYTES = 48"

definition zia_sealed_seal :: "lib \<Rightarrow> bool \<Rightarrow> bytes \<Rightarrow> cbuf \<Rightarrow> env \<Rightarrow> bytes res \<times> env" where
  "zia_sealed_seal L nn recipient_identity plaintext e =
     (if \<not> nn \<or> buf_bad plaintext then (Err ZIA_ERR_INVALID_ARG, e)
      else case pk_to_curve25519 L recipient_identity of
        None \<Rightarrow> (Err ZIA_ERR_INVALID_ARG, e)
      | Some curve_pk \<Rightarrow>
          let (ok, e1) = malloc L (buf_len plaintext + SEALBYTES) e in
          if \<not> ok then (Err ZIA_ERR_OUT_OF_MEMORY, e1)
          else (case buf_read plaintext of
             None \<Rightarrow> (Crash, e1)
           | Some p \<Rightarrow>
               let (i, e2) = draw e1 in
               (case crypto_box_seal L i p curve_pk of
                  None \<Rightarrow> (Err ZIA_ERR_CRYPTO_FAILURE, e2)
                | Some c \<Rightarrow> (Ok c, e2))))"

definition zia_sealed_open :: "lib \<Rightarrow> bool \<Rightarrow> ZiaEngine \<Rightarrow> bytes \<Rightarrow> env \<Rightarrow> bytes res \<times> ZiaEngine \<times> env" where
  "zia_sealed_open L nn en sealed e =
     (if \<not> nn then (Err ZIA_ERR_INVALID_ARG, en, e)
      else if \<not> en_has_identity en
      then (Err ZIA_ERR_NOT_INITIALIZED, en\<lparr>en_last_error := ascii ''aucune identite sur cet appareil''\<rparr>, e)
      else if length sealed < SEALBYTES
      then (Err ZIA_ERR_INVALID_ARG, en\<lparr>en_last_error := ascii ''enveloppe scellee tronquee''\<rparr>, e)
      else if pk_to_curve25519 L (en_identity_public en) \<noteq> None \<and> length (en_identity_private en) < 64 then (Crash, en, e)
      else case (pk_to_curve25519 L (en_identity_public en), sk_to_curve25519 L (en_identity_private en)) of
        (Some curve_pk, Some curve_sk) \<Rightarrow>
          let plain_len = length sealed - SEALBYTES;
              (ok, e1) = malloc L (if plain_len = 0 then 1 else plain_len) e
          in if \<not> ok then (Err ZIA_ERR_OUT_OF_MEMORY, en, e1)
          else (case crypto_box_seal_open L sealed curve_pk curve_sk of
             None \<Rightarrow> (Err ZIA_ERR_CRYPTO_FAILURE,
               en\<lparr>en_last_error := ascii ''enveloppe scellee non destinee a cet appareil, ou alteree''\<rparr>, e1)
           | Some p \<Rightarrow> (Ok p, en, e1))
      | _ \<Rightarrow> (Err ZIA_ERR_CRYPTO_FAILURE, en, e))"

section \<open>attachment.cpp\<close>

text \<open>The second component is what the function left in \<open>out_key\<close>; \<open>None\<close> when it did not write there.\<close>

definition zia_attachment_encrypt :: "lib \<Rightarrow> bool \<Rightarrow> cbuf \<Rightarrow> env \<Rightarrow> bytes res \<times> bytes option \<times> env" where
  "zia_attachment_encrypt L nn plaintext e =
     (if \<not> nn \<or> buf_bad plaintext then (Err ZIA_ERR_INVALID_ARG, None, e) else
      let (i, e1) = draw e; key = secretstream_keygen L i; wiped = Some (replicate 32 0); (j, e2) = draw e1 in
      case secretstream_init_push L j key of
        None \<Rightarrow> (Err ZIA_ERR_CRYPTO_FAILURE, wiped, e2)
      | Some (header, st) \<Rightarrow>
          let (ok, e3) = malloc L (HEADERBYTES + buf_len plaintext + ABYTES) e2 in
          if \<not> ok then (Err ZIA_ERR_OUT_OF_MEMORY, wiped, e3)
          else (case buf_read plaintext of
             None \<Rightarrow> (Crash, Some key, e3)
           | Some p \<Rightarrow>
               (case secretstream_push L st p TAG_FINAL of
                  None \<Rightarrow> (Err ZIA_ERR_CRYPTO_FAILURE, wiped, e3)
                | Some c \<Rightarrow> (Ok (header @ c), Some key, e3))))"

definition zia_attachment_decrypt :: "lib \<Rightarrow> bool \<Rightarrow> bytes \<Rightarrow> bytes \<Rightarrow> env \<Rightarrow> bytes res \<times> env" where
  "zia_attachment_decrypt L nn key ciphertext e =
     (if \<not> nn then (Err ZIA_ERR_INVALID_ARG, e)
      else if length ciphertext < kMin then (Err ZIA_ERR_INVALID_ARG, e)
      else case secretstream_init_pull L (take HEADERBYTES ciphertext) key of
        None \<Rightarrow> (Err ZIA_ERR_CRYPTO_FAILURE, e)
      | Some st \<Rightarrow>
          let plain_capacity = length ciphertext - HEADERBYTES - ABYTES;
              (ok, e1) = malloc L (if plain_capacity \<noteq> 0 then plain_capacity else 1) e
          in if \<not> ok then (Err ZIA_ERR_OUT_OF_MEMORY, e1)
          else (case secretstream_pull L st (drop HEADERBYTES ciphertext) of
             None \<Rightarrow> (Err ZIA_ERR_CRYPTO_FAILURE, e1)
           | Some (p, tag) \<Rightarrow> (Ok p, e1)))"

section \<open>What was sealed opens\<close>

lemma channel_seal_opens:
  assumes L: "sizes_ok L" "xaead_ok L" "mem_ok L" and "p \<noteq> []"
  shows "\<exists>c e'. zia_channel_seal_key L True k p e = (Ok c, e') \<and> length c = length p + 40 \<and>
    (\<forall>e2. fst (zia_channel_open_key L True k c e2) = Ok p)"
proof -
  let ?n = "randombytes_buf L (e_draw e) 24" and ?k = "derive_wrap_key L k"
  have l: "length ?n = 24" "length ?k = 32"
    using L(1) by (simp_all add: sizes_lens derive_wrap_key_def length_hkdf_sha256 kWrapKeyLen_def)
  then obtain c where "xchacha20poly1305_encrypt L p ?n ?k = Some c" "length c = length p + 16"
    "xchacha20poly1305_decrypt L c ?n ?k = Some p"
    using L(2) unfolding xaead_ok_def by metis
  with l L(3) assms(4) show ?thesis
    by (simp add: zia_channel_seal_key_def zia_channel_open_key_def malloc_mem_ok draw_def kNonceLen_def kTagLen_def Let_def)
qed

text \<open>A message sealed to the public half of a signing key pair opens on every engine that holds the pair.\<close>

lemma sealed_opens:
  assumes L: "sizes_ok L" "dh_ok L" "seal_ok L" "mem_ok L"
  shows "\<exists>c f'. zia_sealed_seal L True (fst (crypto_sign_keypair L i)) (Buf p) f = (Ok c, f') \<and> length c = length p + 48 \<and>
    (\<forall>en g. en_has_identity en \<longrightarrow> (en_identity_public en, en_identity_private en) = crypto_sign_keypair L i \<longrightarrow>
       (\<exists>g'. zia_sealed_open L True en c g = (Ok p, en, g')))"
proof -
  let ?k = "crypto_sign_keypair L i"
  obtain x y where xy: "pk_to_curve25519 L (fst ?k) = Some x" "sk_to_curve25519 L (snd ?k) = Some y"
    using L(2) unfolding dh_ok_def by (metis option.exhaust)
  then have "x25519_pair L x y" unfolding x25519_pair_def by blast
  then obtain c where c: "crypto_box_seal L (e_draw f) p x = Some c" "length c = length p + 48"
    "crypto_box_seal_open L c x y = Some p"
    using L(3) unfolding seal_ok_def by metis
  have "\<exists>g'. zia_sealed_open L True en c g = (Ok p, en, g')"
    if "en_has_identity en" "(en_identity_public en, en_identity_private en) = ?k" for en g
  proof -
    have "en_identity_public en = fst ?k" "en_identity_private en = snd ?k" using that(2) by (metis fst_conv snd_conv)+
    with that(1) xy c L(1,4) show ?thesis
      by (simp add: zia_sealed_open_def SEALBYTES_def malloc_mem_ok sizes_lens Let_def)
  qed
  with xy c L(4) show ?thesis
    by (simp add: zia_sealed_seal_def malloc_mem_ok draw_def Let_def)
qed

text \<open>Opening never changes more of the engine than its last message, and reports every other case as an error.\<close>

lemma sealed_open_cases:
  assumes "zia_sealed_open L True en d g = (r, en', g')"
  shows "(\<exists>m. en' = en\<lparr>en_last_error := m\<rparr>) \<and>
    (\<not> en_has_identity en \<longrightarrow> r = Err ZIA_ERR_NOT_INITIALIZED) \<and>
    (en_has_identity en \<and> length d < 48 \<longrightarrow> r = Err ZIA_ERR_INVALID_ARG)"
proof -
  have same: "\<exists>m. x = x\<lparr>en_last_error := m\<rparr>" for x :: ZiaEngine
    by (rule exI [of _ "en_last_error x"]) simp
  from assms show ?thesis
    by (auto simp: zia_sealed_open_def SEALBYTES_def case_prod_beta Let_def intro: same split: if_splits option.splits)
qed

section \<open>Properties\<close>

text \<open>
  C34 (roundtrip).  Sealed sender on an installation.  A device without identity refuses whatever it is asked to open.
  Once it has generated its identity, anybody can seal a message to the public key it announced, 48 bytes longer
  than the content, and the engine opens it, also after a restart that reads the identity back from the disk, without
  changing.  Bytes shorter than the overhead are refused, and no attempt to open any bytes at all changes the engine
  in more than its last error message.
\<close>

theorem sealed_sender_roundtrip:
  assumes "sizes_ok L" "dh_ok L" "seal_ok L" "mem_ok L" "disk_ok L" "stream_ok L" "vault_ready L e" "sodium_init_ok L"
    and "cstr path \<noteq> []" "get_file e (identity_path (cstr path)) = None"
  shows "\<exists>en e1 pub en1 e2 en2 e3. zia_engine_init L (Some path) e = (Some en, ZIA_OK, e1) \<and>
    (\<forall>d g. fst (zia_sealed_open L True en d g) = Err ZIA_ERR_NOT_INITIALIZED) \<and>
    zia_identity_generate L True en e1 = (Ok pub, en1, e2) \<and>
    zia_engine_init L (Some path) e2 = (Some en2, ZIA_OK, e3) \<and>
    (\<forall>p f. \<exists>c f'. zia_sealed_seal L True pub (Buf p) f = (Ok c, f') \<and> length c = length p + 48 \<and>
       (\<forall>x \<in> {en1, en2}. \<forall>g. \<exists>g'. zia_sealed_open L True x c g = (Ok p, x, g'))) \<and>
    (\<forall>x \<in> {en1, en2}. \<forall>d g. length d < 48 \<longrightarrow> fst (zia_sealed_open L True x d g) = Err ZIA_ERR_INVALID_ARG) \<and>
    (\<forall>x d g. \<exists>m. fst (snd (zia_sealed_open L True x d g)) = x\<lparr>en_last_error := m\<rparr>)"
proof -
  obtain en e1 i en1 e2 en2 e3 where run: "zia_engine_init L (Some path) e = (Some en, ZIA_OK, e1)" "\<not> en_has_identity en"
    "zia_identity_generate L True en e1 = (Ok (fst (crypto_sign_keypair L i)), en1, e2)"
    "zia_engine_init L (Some path) e2 = (Some en2, ZIA_OK, e3)"
    and key: "\<forall>x \<in> {en1, en2}. en_has_identity x \<and> (en_identity_public x, en_identity_private x) = crypto_sign_keypair L i"
    by (rule install_and_restart [OF assms(1,5-10)])
  have cases: "(\<exists>m. fst (snd (zia_sealed_open L True x d g)) = x\<lparr>en_last_error := m\<rparr>) \<and>
      (\<not> en_has_identity x \<longrightarrow> fst (zia_sealed_open L True x d g) = Err ZIA_ERR_NOT_INITIALIZED) \<and>
      (en_has_identity x \<and> length d < 48 \<longrightarrow> fst (zia_sealed_open L True x d g) = Err ZIA_ERR_INVALID_ARG)" for x d g
    using sealed_open_cases [of L x d g] by (metis prod.collapse)
  have "\<exists>c f'. zia_sealed_seal L True (fst (crypto_sign_keypair L i)) (Buf p) f = (Ok c, f') \<and> length c = length p + 48 \<and>
      (\<forall>x \<in> {en1, en2}. \<forall>g. \<exists>g'. zia_sealed_open L True x c g = (Ok p, x, g'))" for p f
    using sealed_opens [OF assms(1-4), of i p f] key by meson
  with run key cases show ?thesis by meson
qed

theorem sealed_sender_roundtrip_witness:
  "\<exists>en e1 pub en1 e2 en2 e3 c f'. zia_engine_init sample_lib (Some (ascii ''/z'')) env0 = (Some en, ZIA_OK, e1) \<and>
     zia_identity_generate sample_lib True en e1 = (Ok pub, en1, e2) \<and>
     zia_engine_init sample_lib (Some (ascii ''/z'')) e2 = (Some en2, ZIA_OK, e3) \<and>
     zia_sealed_seal sample_lib True pub (Buf [5, 6]) env0 = (Ok c, f') \<and>
     fst (zia_sealed_open sample_lib True en2 c env0) = Ok [5, 6]"
proof -
  have "sodium_init_ok sample_lib" "cstr (ascii ''/z'') \<noteq> []" "get_file env0 (identity_path (cstr (ascii ''/z''))) = None"
    by (simp_all add: sample_lib_def ascii_def cstr_def get_file_def env0_def)
  from sealed_sender_roundtrip [OF sample_sizes_ok sample_dh_ok sample_seal_ok sample_mem_ok sample_disk_ok sample_stream_ok
      sample_vault_ready this]
  obtain en e1 pub en1 e2 en2 e3 where r: "zia_engine_init sample_lib (Some (ascii ''/z'')) env0 = (Some en, ZIA_OK, e1)"
    "zia_identity_generate sample_lib True en e1 = (Ok pub, en1, e2)"
    "zia_engine_init sample_lib (Some (ascii ''/z'')) e2 = (Some en2, ZIA_OK, e3)"
    and o: "\<forall>p f. \<exists>c f'. zia_sealed_seal sample_lib True pub (Buf p) f = (Ok c, f') \<and> length c = length p + 48 \<and>
       (\<forall>x \<in> {en1, en2}. \<forall>g. \<exists>g'. zia_sealed_open sample_lib True x c g = (Ok p, x, g'))" by blast
  from o [rule_format, of "[5, 6]" env0] obtain c f' where c: "zia_sealed_seal sample_lib True pub (Buf [5, 6]) env0 = (Ok c, f')"
    "\<forall>x \<in> {en1, en2}. \<forall>g. \<exists>g'. zia_sealed_open sample_lib True x c g = (Ok [5, 6], x, g')" by blast
  from c(2) obtain g' where "zia_sealed_open sample_lib True en2 c env0 = (Ok [5, 6], en2, g')" by blast
  then have "fst (zia_sealed_open sample_lib True en2 c env0) = Ok [5, 6]" by simp
  with r c(1) show ?thesis by blast
qed

text \<open>
  Attachments: encryption yields a fresh 32-byte key and a ciphertext 41 bytes longer than
  the file that this key decrypts; and whenever encryption fails after drawing the key, the caller's key
  buffer has been wiped.
\<close>

lemma attachment_roundtrip:
  assumes "sizes_ok L" "stream_ok L"
    and "zia_attachment_encrypt L True (Buf p) e = (r, k, e')"
  shows "(mem_ok L \<longrightarrow> (\<exists>c key. r = Ok c \<and> k = Some key \<and> length key = 32 \<and> length c = length p + 41 \<and>
      (\<forall>e2. fst (zia_attachment_decrypt L True key c e2) = Ok p))) \<and>
    (\<not> is_Ok r \<longrightarrow> k = Some (replicate 32 0))"
proof -
  let ?k = "secretstream_keygen L (e_draw e)"
  have lk: "length ?k = 32" using assms(1) by (simp add: sizes_lens)
  obtain header st cipher where s: "secretstream_init_push L (Suc (e_draw e)) ?k = Some (header, st)"
    "secretstream_push L st p TAG_FINAL = Some cipher" "length header = 24"
    "length cipher = length p + 17" "stream_open L ?k (header @ cipher) = Some p"
    by (rule stream_pieces [OF assms(2) lk])
  then have dec: "fst (zia_attachment_decrypt L True ?k (header @ cipher) e2) = Ok p" if "mem_ok L" for e2
    using that
    by (auto simp: zia_attachment_decrypt_def malloc_mem_ok stream_open_def kMin_def HEADERBYTES_def ABYTES_def
        split: option.splits)
  from assms(3) s have run: "if malloc_ok L (e_alloc e) (HEADERBYTES + length p + ABYTES)
      then r = Ok (header @ cipher) \<and> k = Some ?k else r = Err ZIA_ERR_OUT_OF_MEMORY \<and> k = Some (replicate 32 0)"
    by (auto simp: zia_attachment_encrypt_def draw_def malloc_def Let_def split: if_splits)
  then show ?thesis using dec s lk by (auto simp: mem_ok_def split: if_splits)
qed

end
