(* ===== verification/App_Lock.thy ===== *)
theory App_Lock
  imports Vault
begin

text \<open>
  \<open>src/applock.cpp\<close>: the lock code of the application, a password hash kept as one entry of the vault.
  The proofs only use the contract \<open>blob_store\<close> of the vault.
\<close>

section \<open>Model\<close>

definition kEntree :: bytes where "kEntree = ascii ''app_lock''"

definition msg_code_len :: bytes where "msg_code_len = ascii ''code trop court ou trop long''"
definition msg_code_mem :: bytes where "msg_code_mem = ascii ''memoire insuffisante pour deriver le code''"

definition zia_app_lock_set :: "lib \<Rightarrow> bool \<Rightarrow> ZiaEngine \<Rightarrow> bytes \<Rightarrow> env \<Rightarrow> unit res \<times> ZiaEngine \<times> env" where
  "zia_app_lock_set L nn en code e =
     (if \<not> nn then (Err ZIA_ERR_INVALID_ARG, en, e) else
      let len = length (cstr code) in
      if len < 4 \<or> len > 128 then (Err ZIA_ERR_INVALID_ARG, en\<lparr>en_last_error := msg_code_len\<rparr>, e) else
      let (d, e1) = draw e in
      case crypto_pwhash_str L d (cstr code) of
        None \<Rightarrow> (Err ZIA_ERR_OUT_OF_MEMORY, en\<lparr>en_last_error := msg_code_mem\<rparr>, e1)
      | Some hash \<Rightarrow>
          let (ok, e2) = secure_write L en kEntree (Buf (cstr hash @ [0])) e1 in
          (if ok then Ok () else Err ZIA_ERR_STORAGE_IO, en, e2))"

definition zia_app_lock_verify :: "lib \<Rightarrow> bool \<Rightarrow> ZiaEngine \<Rightarrow> bytes \<Rightarrow> env \<Rightarrow> unit res \<times> env" where
  "zia_app_lock_verify L nn en code e =
     (if \<not> nn then (Err ZIA_ERR_INVALID_ARG, e) else
      let (r, e1) = secure_read L en kEntree e in
      case r of
        None \<Rightarrow> (Err ZIA_ERR_SESSION_NOT_FOUND, e1)
      | Some stocke \<Rightarrow>
          if stocke = [] then (Err ZIA_ERR_SESSION_NOT_FOUND, e1) else
          let stocke = (if last stocke \<noteq> 0 then stocke @ [0] else stocke) in
          (if crypto_pwhash_str_verify L (cstr stocke) (cstr code) then Ok () else Err ZIA_ERR_CRYPTO_FAILURE, e1))"

definition zia_app_lock_status :: "lib \<Rightarrow> bool \<Rightarrow> ZiaEngine \<Rightarrow> env \<Rightarrow> bool res \<times> env" where
  "zia_app_lock_status L nn en e =
     (if \<not> nn then (Err ZIA_ERR_INVALID_ARG, e) else
      let (r, e1) = secure_read L en kEntree e in
      (Ok (case r of None \<Rightarrow> False | Some stocke \<Rightarrow> stocke \<noteq> []), e1))"

definition zia_app_lock_clear :: "lib \<Rightarrow> bool \<Rightarrow> ZiaEngine \<Rightarrow> env \<Rightarrow> unit res \<times> env" where
  "zia_app_lock_clear L nn en e =
     (if \<not> nn then (Err ZIA_ERR_INVALID_ARG, e) else
      let (ok, e1) = secure_erase L en kEntree e in
      (if ok then Ok () else Err ZIA_ERR_STORAGE_IO, e1))"

section \<open>The lock as a function of the vault\<close>

lemma kEntree_valid [simp]: "valid_name kEntree"
  by (simp add: kEntree_def valid_name_def isalnum_def ascii_def)

lemma cstr_snoc: "0 \<notin> set h \<Longrightarrow> cstr (h @ [0]) = h"
  by (induction h) (simp_all add: cstr_def)

lemma verify_view:
  assumes "vault_inv L en k e"
  shows "fst (zia_app_lock_verify L True en code e) =
    (case vault_view L en k e kEntree of
       None \<Rightarrow> Err ZIA_ERR_SESSION_NOT_FOUND
     | Some s \<Rightarrow> if s = [] then Err ZIA_ERR_SESSION_NOT_FOUND
         else if crypto_pwhash_str_verify L (cstr (if last s \<noteq> 0 then s @ [0] else s)) (cstr code)
         then Ok () else Err ZIA_ERR_CRYPTO_FAILURE)"
  using blob.rd_law [OF assms kEntree_valid]
  by (auto simp: zia_app_lock_verify_def Let_def split: option.split)

lemma status_view:
  assumes "vault_inv L en k e"
  shows "fst (zia_app_lock_status L True en e) =
    Ok (case vault_view L en k e kEntree of None \<Rightarrow> False | Some s \<Rightarrow> s \<noteq> [])"
  using blob.rd_law [OF assms kEntree_valid] by (auto simp: zia_app_lock_status_def)

text \<open>
  C33 (functional).  The life of the lock code.  On a working vault a code of 4 to 128 characters is accepted;
  afterwards the lock reports itself as set, the code opens it, any other candidate is accepted exactly
  when the password hash verifies it, and no other vault entry has changed.  Clearing the lock brings back
  the state without a code, which is reported as such and not as a wrong code.
\<close>

theorem app_lock_lifecycle:
  assumes "vault_inv L en k e" "pwhash_ok L" "4 \<le> length (cstr code)" "length (cstr code) \<le> 128"
  shows "\<exists>hash e1 e2. crypto_pwhash_str L (e_draw e) (cstr code) = Some hash \<and>
    zia_app_lock_set L True en code e = (Ok (), en, e1) \<and>
    fst (zia_app_lock_status L True en e1) = Ok True \<and>
    fst (zia_app_lock_verify L True en code e1) = Ok () \<and>
    (\<forall>c. fst (zia_app_lock_verify L True en c e1) =
       (if crypto_pwhash_str_verify L hash (cstr c) then Ok () else Err ZIA_ERR_CRYPTO_FAILURE)) \<and>
    (\<forall>n. valid_name n \<and> n \<noteq> kEntree \<longrightarrow> vault_view L en k e1 n = vault_view L en k e n) \<and>
    zia_app_lock_clear L True en e1 = (Ok (), e2) \<and>
    fst (zia_app_lock_status L True en e2) = Ok False \<and>
    fst (zia_app_lock_verify L True en code e2) = Err ZIA_ERR_SESSION_NOT_FOUND"
proof -
  let ?e0 = "e\<lparr>e_draw := Suc (e_draw e)\<rparr>"
  have inv0: "vault_inv L en k ?e0" using assms(1) by (simp add: vault_inv_def vault_holds_def)
  obtain hash where h: "crypto_pwhash_str L (e_draw e) (cstr code) = Some hash" "0 \<notin> set hash"
    "crypto_pwhash_str_verify L hash (cstr code)" using assms(2) unfolding pwhash_ok_def by blast
  obtain e1 where w: "secure_write L en kEntree (Buf (hash @ [0])) ?e0 = (True, e1)" "vault_inv L en k e1"
    "\<forall>m. valid_name m \<longrightarrow> vault_view L en k e1 m = (if m = kEntree then Some (hash @ [0]) else vault_view L en k ?e0 m)"
    using blob.wr_law [OF inv0 kEntree_valid, of "hash @ [0]"] by blast
  obtain e2 where c: "secure_erase L en kEntree e1 = (True, e2)" "vault_inv L en k e2"
    "\<forall>m. valid_name m \<longrightarrow> vault_view L en k e2 m = (if m = kEntree then None else vault_view L en k e1 m)"
    using blob.er_law [OF w(2) kEntree_valid] by blast
  have hz: "cstr (hash @ [0]) = hash" by (rule cstr_snoc [OF h(2)])
  have "zia_app_lock_set L True en code e = (Ok (), en, e1)"
    using h(1,2) w(1) assms(3,4) by (simp add: zia_app_lock_set_def draw_def)
  moreover have "zia_app_lock_clear L True en e1 = (Ok (), e2)" using c(1) by (simp add: zia_app_lock_clear_def)
  moreover have "\<forall>n. valid_name n \<and> n \<noteq> kEntree \<longrightarrow> vault_view L en k e1 n = vault_view L en k e n"
    using w(3) by (simp add: vault_view_def)
  ultimately show ?thesis
    using h w(3) c(3) hz by (simp add: verify_view [OF w(2)] verify_view [OF c(2)] status_view [OF w(2)] status_view [OF c(2)])
qed

theorem app_lock_lifecycle_witness:
  "\<exists>e1. zia_app_lock_set sample_lib True sample_engine (ascii ''1234'') vault_env = (Ok (), sample_engine, e1) \<and>
     fst (zia_app_lock_verify sample_lib True sample_engine (ascii ''1234'') e1) = Ok () \<and>
     fst (zia_app_lock_verify sample_lib True sample_engine (ascii ''1235'') e1) = Err ZIA_ERR_CRYPTO_FAILURE"
proof -
  have c: "cstr (ascii ''1234'') = [49, 50, 51, 52]" "cstr (ascii ''1235'') = [49, 50, 51, 53]"
    by (simp_all add: ascii_def cstr_def)
  have "\<not> crypto_pwhash_str_verify sample_lib hash [49, 50, 51, 53]"
    if "crypto_pwhash_str sample_lib (e_draw vault_env) [49, 50, 51, 52] = Some hash" for hash
    using that by (auto simp: sample_lib_def sample_hex_def)
  with app_lock_lifecycle [OF sample_vault_inv sample_pwhash_ok, of "ascii ''1234''"] show ?thesis
    by (auto simp: c)
qed

end
