(* ===== verification/Engine_Api.thy ===== *)
theory Engine_Api
  imports X3dh Backup Sender_Keys Envelopes App_Lock
begin

text \<open>
  The engine as a whole: every exported function that works on a \<open>ZiaEngine\<close> as one call of an interface (all of
  \<open>zia_crypto.h\<close> that take an engine, except \<open>zia_last_error\<close>, which returns a string, and \<open>zia_engine_shutdown\<close>,
  which ends its life and belongs to \<open>Lifetime\<close>), and what holds of the engine whatever calls are made, with whatever
  arguments and outcomes and in whatever state of disk and key store.
\<close>

section \<open>Calls\<close>

datatype api_call =
    CallGenerate bool
  | CallGetPublicKey bool
  | CallSign bool cbuf
  | CallRotate bool
  | CallBundle bool
  | CallRequirePq bool int
  | CallFromBundle bool ZiaPrekeyBundle ZiaHandshakeMaterial
  | CallAccept bool ZiaHandshakeMaterial
  | CallCreate bool bytes
  | CallProcess bool bytes bytes bytes
  | CallEncrypt bool bytes cbuf
  | CallDecrypt bool bytes bytes bytes
  | CallSealedOpen bool bytes
  | CallWrite bool bytes cbuf
  | CallRead bool bytes
  | CallErase bool bytes
  | CallLock bool bytes
  | CallLockVerify bool bytes
  | CallLockStatus bool
  | CallLockClear bool
  | CallExport bool bytes
  | CallImport bool bytes bytes
  | CallSessionDeserialize bool bytes

primrec outcome :: "'a res \<Rightarrow> unit res" where
  "outcome (Ok x) = Ok ()"
| "outcome (Err s) = Err s"
| "outcome Crash = Crash"

lemma outcome_Crash [simp]: "outcome r = Crash \<longleftrightarrow> r = Crash"
  by (cases r) auto

fun api :: "lib \<Rightarrow> api_call \<Rightarrow> ZiaEngine \<Rightarrow> env \<Rightarrow> unit res \<times> ZiaEngine \<times> env" where
  "api L (CallGenerate nn) en e = apfst outcome (zia_identity_generate L nn en e)"
| "api L (CallGetPublicKey nn) en e = (outcome (zia_identity_get_public_key nn en), en, e)"
| "api L (CallSign nn msg) en e = (outcome (zia_identity_sign L nn en msg), en, e)"
| "api L (CallRotate nn) en e = zia_prekey_bundle_rotate L nn en e"
| "api L (CallBundle nn) en e = apfst outcome (zia_prekey_bundle_generate L nn en e)"
| "api L (CallRequirePq nn q) en e = (let (r, en') = zia_session_require_pq nn en q in (r, en', e))"
| "api L (CallFromBundle nn b hs) en e = (let (r, e') = zia_session_from_bundle L nn en b hs e in (outcome r, en, e'))"
| "api L (CallAccept nn hs) en e = apfst outcome (zia_session_accept_handshake L nn en hs e)"
| "api L (CallCreate nn g) en e = apfst outcome (zia_sender_key_create L nn en g e)"
| "api L (CallProcess nn g s d) en e = (let (r, en') = zia_sender_key_process nn en g s d in (r, en', e))"
| "api L (CallEncrypt nn g pt) en e = apfst outcome (zia_sender_key_encrypt L nn en g pt e)"
| "api L (CallDecrypt nn g s m) en e = apfst outcome (zia_sender_key_decrypt L nn en g s m e)"
| "api L (CallSealedOpen nn c) en e = apfst outcome (zia_sealed_open L nn en c e)"
| "api L (CallWrite nn n d) en e = zia_secure_write L nn en n d e"
| "api L (CallRead nn n) en e = (let (r, e') = zia_secure_read L nn en n e in (outcome r, en, e'))"
| "api L (CallErase nn n) en e = (let (r, e') = zia_secure_erase L nn en n e in (r, en, e'))"
| "api L (CallLock nn c) en e = zia_app_lock_set L nn en c e"
| "api L (CallLockVerify nn c) en e = (let (r, e') = zia_app_lock_verify L nn en c e in (r, en, e'))"
| "api L (CallLockStatus nn) en e = (let (r, e') = zia_app_lock_status L nn en e in (outcome r, en, e'))"
| "api L (CallLockClear nn) en e = (let (r, e') = zia_app_lock_clear L nn en e in (r, en, e'))"
| "api L (CallExport nn p) en e = apfst outcome (zia_backup_export L nn en p e)"
| "api L (CallImport nn p d) en e = zia_backup_import L nn en p d e"
| "api L (CallSessionDeserialize nn d) en e = (let (r, e') = zia_session_deserialize L nn d e in (outcome r, en, e'))"

section \<open>Sizes\<close>

definition kem_sizes :: "lib \<Rightarrow> bool" where
  "kem_sizes L \<longleftrightarrow> (\<forall>i pk sk. OQS_keypair L i = Some (pk, sk) \<longrightarrow> length pk = 1184)"

text \<open>Every key of the engine has its size; the private identity key may not have been allocated.\<close>

definition sized_engine :: "ZiaEngine \<Rightarrow> bool" where
  "sized_engine en \<longleftrightarrow>
     length (en_identity_public en) = 32 \<and> (en_identity_private en = [] \<or> length (en_identity_private en) = 64) \<and>
     pred_option wf_spk (en_signed_prekey en) \<and> pred_option wf_pq (en_pq_prekey en) \<and>
     list_all wf_otpk (en_one_time_prekeys en) \<and> wf_groups en"

text \<open>An engine that says it has an identity has its private key.\<close>

definition keyed :: "ZiaEngine \<Rightarrow> bool" where
  "keyed en \<longleftrightarrow> (en_has_identity en \<longrightarrow> length (en_identity_private en) = 64)"

lemma sized_last_error [simp]:
  "sized_engine (en\<lparr>en_last_error := m\<rparr>) = sized_engine en" "keyed (en\<lparr>en_last_error := m\<rparr>) = keyed en"
  by (simp_all add: sized_engine_def keyed_def wf_groups_def)

section \<open>Reading an identity\<close>

lemma identity_part_sized:
  assumes "sized_engine en" "identity_part en r = (en', rest)"
  shows "sized_engine en' \<and> (rest \<noteq> None \<longrightarrow> keyed en')"
  using assms
  by (auto simp: identity_part_def sized_engine_def keyed_def wf_groups_def reader_read_Some Let_def
      split: option.splits if_splits)

lemma spk_part_sized:
  assumes "sized_engine en" "spk_part en r = (en', rest)"
  shows "sized_engine en' \<and> keyed en' = keyed en"
  using assms
  by (auto simp: spk_part_def sized_engine_def keyed_def wf_groups_def wf_spk_def reader_read_Some bind_eq_Some_conv
      split: option.splits if_splits)

lemma pq_part_sized:
  assumes "sized_engine en" "pq_part v en r = (en', rest)"
  shows "sized_engine en' \<and> keyed en' = keyed en"
  using assms
  by (auto simp: pq_part_def sized_engine_def keyed_def wf_groups_def wf_pq_def reader_read_Some bind_eq_Some_conv Let_def
      split: option.splits if_splits)

lemma otpk_loop_sized:
  assumes "sized_engine en" "otpk_loop n en r = (en', rest)"
  shows "sized_engine en' \<and> keyed en' = keyed en"
  using assms
proof (induction n arbitrary: en r)
  case (Suc n)
  show ?case
  proof (cases "dec_otpk r")
    case None
    with Suc.prems show ?thesis by simp
  next
    case (Some kr)
    obtain k r1 where kr: "kr = (k, r1)" by (cases kr)
    with Some have "wf_otpk k" using opc.dec_wf by blast
    then have "sized_engine (en\<lparr>en_one_time_prekeys := en_one_time_prekeys en @ [k]\<rparr>)"
      using Suc.prems(1) by (simp add: sized_engine_def wf_groups_def)
    from Suc.IH [OF this] Suc.prems(2) Some kr show ?thesis by (simp add: keyed_def)
  qed
qed auto

lemma otpk_part_sized:
  assumes "sized_engine en" "otpk_part en r = (en', rest)"
  shows "sized_engine en' \<and> keyed en' = keyed en"
proof (cases "reader_u32 r")
  case None
  with assms show ?thesis by (simp add: otpk_part_def)
next
  case (Some cr)
  obtain cnt r1 where cr: "cr = (cnt, r1)" by (cases cr)
  have "sized_engine (en\<lparr>en_one_time_prekeys := []\<rparr>)" using assms(1) by (simp add: sized_engine_def wf_groups_def)
  from otpk_loop_sized [OF this, of "unat cnt" r1] assms(2) Some cr show ?thesis
    by (simp add: otpk_part_def keyed_def)
qed

lemma deserialize_sized:
  assumes "sized_engine en" "deserialize_identity data en = (ok, en')"
  shows "sized_engine en' \<and> (ok \<longrightarrow> keyed en')"
proof (cases "reader_read 1 data")
  case None
  with assms show ?thesis by (simp add: deserialize_identity_def)
next
  case (Some vr)
  obtain v r where vr: "vr = (v, r)" by (cases vr)
  obtain e1 r1 where 1: "identity_part en r = (e1, r1)" by fastforce
  obtain e2 r2 where 2: "then_part (e1, r1) spk_part = (e2, r2)" by fastforce
  obtain e3 r3 where 3: "then_part (e2, r2) (pq_part (hd v)) = (e3, r3)" by fastforce
  obtain e4 r4 where 4: "then_part (e3, r3) otpk_part = (e4, r4)" by fastforce
  have s1: "sized_engine e1 \<and> (r1 \<noteq> None \<longrightarrow> keyed e1)" by (rule identity_part_sized [OF assms(1) 1])
  have s2: "sized_engine e2 \<and> (r2 \<noteq> None \<longrightarrow> keyed e2)"
    using s1 2 spk_part_sized [of e1 _ e2 r2] by (cases r1) (auto simp: then_part_def)
  have s3: "sized_engine e3 \<and> (r3 \<noteq> None \<longrightarrow> keyed e3)"
    using s2 3 pq_part_sized [of e2 "hd v" _ e3 r3] by (cases r2) (auto simp: then_part_def)
  have s4: "sized_engine e4 \<and> (r4 \<noteq> None \<longrightarrow> keyed e4)"
    using s3 4 otpk_part_sized [of e3 _ e4 r4] by (cases r3) (auto simp: then_part_def)
  then show ?thesis
    using assms Some vr 1 2 3 4
    by (auto simp: deserialize_identity_def Let_def split: if_splits option.splits)
qed

text \<open>A private key that is there stays there, whatever is read and however the reading ends.\<close>

lemma deserialize_keeps_key:
  assumes "deserialize_identity data en = (ok, en')" "en_identity_private en \<noteq> []"
  shows "en_identity_private en' \<noteq> []"
proof -
  have id: "en_identity_private a \<noteq> []" if "identity_part en r = (a, x)" for a x r
    using that assms(2) by (auto simp: identity_part_def reader_read_Some SecureBuffer_def Let_def split: option.splits if_splits)
  have spk: "en_identity_private (fst (spk_part a r)) = en_identity_private a" for a r
    by (auto simp: spk_part_def split: option.splits)
  have pq: "en_identity_private (fst (pq_part v a r)) = en_identity_private a" for v a r
    by (auto simp: pq_part_def Let_def split: option.splits)
  have loop: "en_identity_private (fst (otpk_loop n a r)) = en_identity_private a" for n a r
    by (induction n arbitrary: a r) (auto split: option.split)
  have otpk: "en_identity_private (fst (otpk_part a r)) = en_identity_private a" for a r
    by (auto simp: otpk_part_def loop split: option.splits)
  have thn: "en_identity_private (fst (then_part x f)) = en_identity_private (fst x)"
    if "\<And>a r. en_identity_private (fst (f a r)) = en_identity_private a" for x f
    using that by (auto simp: then_part_def split: prod.splits option.splits)
  have "en_identity_private (fst (then_part (then_part (then_part (identity_part en r) spk_part) (pq_part v)) otpk_part)) \<noteq> []" for r v
    using id [of r "fst (identity_part en r)" "snd (identity_part en r)"]
    by (simp add: thn [of otpk_part, OF otpk] thn [of "pq_part v", OF pq] thn [of spk_part, OF spk])
  with assms show ?thesis
    by (auto simp: deserialize_identity_def Let_def split: option.splits if_splits prod.splits) (metis fst_conv)+
qed

section \<open>Every call keeps the sizes\<close>

text \<open>What each call leaves: sizes, the private key, and no crash as long as the private key is there.\<close>

definition call_ok :: "ZiaEngine \<Rightarrow> ZiaEngine \<Rightarrow> 'a res \<Rightarrow> bool" where
  "call_ok en en' r \<longleftrightarrow> sized_engine en' \<and> (keyed en \<longrightarrow> keyed en' \<and> r \<noteq> Crash)"

lemma call_same: "sized_engine en \<Longrightarrow> r \<noteq> Crash \<Longrightarrow> call_ok en en r"
  by (simp add: call_ok_def)

lemma generate_call:
  assumes "sizes_ok L" "sized_engine en" "zia_identity_generate L nn en e = (r, en', e')"
  shows "call_ok en en' r"
  using assms
  by (auto simp: zia_identity_generate_def call_ok_def sized_engine_def keyed_def wf_groups_def ed25519_keypair_def
      draw_def case_prod_beta sizes_lens Let_def split: if_splits)

lemma sign_call: "keyed en \<Longrightarrow> zia_identity_sign L nn en msg \<noteq> Crash"
  by (auto simp: zia_identity_sign_def keyed_def buf_read_None split: option.split)

lemma rotate_call:
  assumes "sizes_ok L" "kem_sizes L" "sized_engine en" "zia_prekey_bundle_rotate L nn en e = (r, en', e')"
  shows "call_ok en en' r \<and> (r = Ok () \<longrightarrow> en_signed_prekey en' \<noteq> None \<and> en_pq_prekey en' \<noteq> None) \<and>
    en_identity_private en' = en_identity_private en \<and> en_has_identity en' = en_has_identity en"
proof -
  have pk: "length pk = 1184" if "OQS_keypair L i = Some (pk, sk)" for i pk sk
    using assms(2) that unfolding kem_sizes_def by blast
  show ?thesis
    using assms(1,3,4)
    by (auto simp: zia_prekey_bundle_rotate_def call_ok_def sized_engine_def keyed_def wf_groups_def x25519_keypair_def
        mlkem768_keypair_def draw_def kPqSecretKeyLen_def ed25519_sign_def wf_spk_def wf_pq_def sizes_lens
        case_prod_beta Let_def pk split: if_splits option.splits)
qed

lemma bundle_call:
  assumes "sizes_ok L" "kem_sizes L" "sized_engine en" "zia_prekey_bundle_generate L nn en e = (r, en', e')"
  shows "call_ok en en' r"
proof (cases "nn \<and> en_has_identity en")
  case False
  with assms show ?thesis by (auto simp: zia_prekey_bundle_generate_def call_same split: if_splits)
next
  case True
  obtain rc en1 e1 where rot: "(if en_signed_prekey en = None \<or> en_pq_prekey en = None
      then zia_prekey_bundle_rotate L True en e else (Ok (), en, e)) = (rc, en1, e1)" by (metis prod.exhaust)
  have r1: "call_ok en en1 rc \<and> (rc = Ok () \<longrightarrow> en_signed_prekey en1 \<noteq> None \<and> en_pq_prekey en1 \<noteq> None)"
    using rot rotate_call [OF assms(1-3), of True e] assms(3) by (auto simp: call_same split: if_splits)
  let ?k = "\<lparr>otpk_public_key = fst (crypto_box_keypair L (e_draw e1)), otpk_private_key = snd (crypto_box_keypair L (e_draw e1)),
      otpk_consumed = False\<rparr>"
  let ?en2 = "en1\<lparr>en_one_time_prekeys := en_one_time_prekeys en1 @ [?k]\<rparr>"
  have s2: "sized_engine ?en2 \<and> keyed ?en2 = keyed en1"
    using r1 by (auto simp: call_ok_def sized_engine_def keyed_def wf_groups_def wf_otpk_def sizes_lens [OF assms(1)])
  have run: "case rc of Err st \<Rightarrow> r = Err st \<and> en' = en1 | Crash \<Rightarrow> r = Crash \<and> en' = en1
      | Ok _ \<Rightarrow> en' = ?en2 \<and> (r = Crash \<longrightarrow> save_crashes L ?en2 (snd (draw e1)) \<or>
          en_signed_prekey en1 = None \<or> en_pq_prekey en1 = None)"
    using assms(4) True rot
    by (auto simp: zia_prekey_bundle_generate_def x25519_keypair_def draw_def case_prod_beta Let_def
        split: res.splits option.splits if_splits)
  have nocrash: "\<not> save_crashes L ?en2 f" if "keyed en1" for f
    using that by (auto simp: save_crashes_def keyed_def)
  from run r1 s2 nocrash show ?thesis by (cases rc) (auto simp: call_ok_def)
qed

lemma from_bundle_call: "keyed en \<Longrightarrow> fst (zia_session_from_bundle L nn en b hs e) \<noteq> Crash"
  by (auto simp: zia_session_from_bundle_def keyed_def case_prod_beta Let_def split: option.split)

lemma accept_call:
  assumes "sized_engine en" "zia_session_accept_handshake L nn en hs e = (r, en', e')"
  shows "call_ok en en' r"
proof -
  have "en' = en \<or> (\<exists>i. en' = consume_otpk i en)"
    using assms(2)
    by (auto simp: zia_session_accept_handshake_def case_prod_beta Let_def split: if_splits option.splits bool.splits)
  moreover have "keyed en \<Longrightarrow> r \<noteq> Crash"
    using assms(2)
    by (auto simp: zia_session_accept_handshake_def keyed_def case_prod_beta Let_def
        split: if_splits option.splits bool.splits)
  moreover have "sized_engine (consume_otpk i en) \<and> keyed (consume_otpk i en) = keyed en" for i
    using assms(1) consume_list [of "en_one_time_prekeys en" i]
    by (auto simp: sized_engine_def keyed_def wf_groups_def consume_otpk_def)
  ultimately show ?thesis using assms(1) by (auto simp: call_ok_def)
qed

text \<open>The group operations touch the sender keys only.\<close>

lemma groups_call:
  assumes "sized_engine en" "wf_groups en'" "r \<noteq> Crash"
    "en_identity_public en' = en_identity_public en" "en_identity_private en' = en_identity_private en"
    "en_has_identity en' = en_has_identity en" "en_signed_prekey en' = en_signed_prekey en"
    "en_pq_prekey en' = en_pq_prekey en" "en_one_time_prekeys en' = en_one_time_prekeys en"
  shows "call_ok en en' r"
  using assms by (simp add: call_ok_def sized_engine_def keyed_def)

lemma register_frames [simp]:
  "en_identity_public (register st en) = en_identity_public en" "en_identity_private (register st en) = en_identity_private en"
  "en_has_identity (register st en) = en_has_identity en" "en_signed_prekey (register st en) = en_signed_prekey en"
  "en_pq_prekey (register st en) = en_pq_prekey en" "en_one_time_prekeys (register st en) = en_one_time_prekeys en"
  by (simp_all add: register_def put_sender_def split: option.split)

lemma create_call:
  assumes "sizes_ok L" "sized_engine en" "zia_sender_key_create L nn en g e = (r, en', e')"
  shows "call_ok en en' r"
proof -
  have "wf_groups en" using assms(2) by (simp add: sized_engine_def)
  moreover have "wf_sender (own_state L (cstr g) e)" by (simp add: wf_sender_def own_state_def sizes_lens [OF assms(1)])
  ultimately show ?thesis
    using assms(2,3) by (intro groups_call) (auto simp: create_eq register_wf split: if_splits)
qed

lemma process_call:
  assumes "sized_engine en" "zia_sender_key_process nn en g s d = (r, en')"
  shows "call_ok en en' r"
proof -
  have "wf_groups en" using assms(1) by (simp add: sized_engine_def)
  moreover have "wf_sender (peer_state (cstr g) (cstr s) d)" if "length d = kDistributionLen" "cstr s \<noteq> []"
    using that by (simp add: wf_sender_def peer_state_def kDistributionLen_def)
  ultimately show ?thesis
    using assms by (intro groups_call) (auto simp: process_eq register_wf split: if_splits)
qed

lemma encrypt_call:
  assumes "sizes_ok L" "sized_engine en" "zia_sender_key_encrypt L nn en g pt e = (r, en', e')"
  shows "call_ok en en' r"
proof -
  have wf: "wf_groups en" using assms(2) by (simp add: sized_engine_def)
  have "en' = en \<or> (\<exists>i st. en' = put_sender i st en)"
    using assms(3) by (auto simp: zia_sender_key_encrypt_def case_prod_beta Let_def split: if_splits option.splits)
  with encrypt_groups_wf [OF assms(1) wf assms(3)] assms(2) show ?thesis
    by (intro groups_call) (auto simp: put_sender_def)
qed

lemma decrypt_call:
  assumes "sizes_ok L" "sized_engine en" "zia_sender_key_decrypt L nn en g s m e = (r, en', e')"
  shows "call_ok en en' r"
proof -
  have wf: "wf_groups en" using assms(2) by (simp add: sized_engine_def)
  have "en' = en \<or> (\<exists>i st. en' = put_sender i st en)"
    using assms(3)
    by (auto simp: zia_sender_key_decrypt_def case_prod_beta Let_def split: if_splits option.splits sum.splits)
  with decrypt_groups_wf [OF assms(1) wf assms(3)] assms(2) show ?thesis
    by (intro groups_call) (auto simp: put_sender_def)
qed

lemma sealed_open_call:
  assumes "sized_engine en" "zia_sealed_open L nn en c e = (r, en', e')"
  shows "call_ok en en' r"
  using assms
  by (auto simp: zia_sealed_open_def call_ok_def case_prod_beta Let_def split: if_splits option.splits)
    (auto simp: keyed_def)

lemma write_call:
  "sized_engine en \<Longrightarrow> zia_secure_write L nn en n d e = (r, en', e') \<Longrightarrow> call_ok en en' r"
  by (auto simp: zia_secure_write_def call_ok_def case_prod_beta split: if_splits)

lemma lock_call:
  "sized_engine en \<Longrightarrow> zia_app_lock_set L nn en c e = (r, en', e') \<Longrightarrow> call_ok en en' r"
  by (auto simp: zia_app_lock_set_def call_ok_def case_prod_beta Let_def split: if_splits option.splits)

text \<open>The calls that leave the engine as it is.\<close>

lemma reader_calls:
  "fst (zia_secure_read L nn en n e) \<noteq> Crash" "fst (zia_secure_erase L nn en n e) \<noteq> Crash"
  "fst (zia_app_lock_verify L nn en n e) \<noteq> Crash" "fst (zia_app_lock_status L nn en e) \<noteq> Crash"
  "fst (zia_app_lock_clear L nn en e) \<noteq> Crash" "fst (zia_session_deserialize L nn d e) \<noteq> Crash"
  by (simp_all add: zia_secure_read_def zia_secure_erase_def zia_app_lock_verify_def zia_app_lock_status_def
      zia_app_lock_clear_def zia_session_deserialize_def case_prod_beta Let_def split: option.split)

lemma export_call:
  assumes "sized_engine en" "zia_backup_export L nn en p e = (r, en', e')"
  shows "call_ok en en' r"
  using assms
  by (auto simp: zia_backup_export_def call_ok_def case_prod_beta Let_def split: if_splits option.splits)
    (auto simp: keyed_def)

lemma import_loop_sized:
  assumes "sized_engine en" "import_loop L n p vue en e = (ok, vue', en', e')"
  shows "sized_engine en' \<and> (ok \<and> keyed en \<longrightarrow> keyed en')"
  using assms
proof (induction n arbitrary: p vue en e)
  case (Suc n)
  show ?case
  proof (cases "read_entry p")
    case None
    with Suc.prems show ?thesis by simp
  next
    case (Some x)
    obtain kind nom payload p' where x: "x = ((kind, nom, payload), p')" by (metis prod.exhaust)
    obtain okd en1 where d: "deserialize_identity payload en = (okd, en1)" by fastforce
    obtain okw e1 where w: "secure_write L en nom (Buf payload) e = (okw, e1)" by fastforce
    have s1: "sized_engine en1 \<and> (okd \<longrightarrow> keyed en1)" by (rule deserialize_sized [OF Suc.prems(1) d])
    show ?thesis
      using Suc.prems Some x d w s1 Suc.IH [of en1 p' True e] Suc.IH [of en p' vue e1] Suc.IH [of en p' vue e]
      by (auto split: if_splits)
  qed
qed auto

lemma import_loop_keeps_key:
  "import_loop L n p vue en e = (ok, vue', en', e') \<Longrightarrow> en_identity_private en \<noteq> [] \<Longrightarrow> en_identity_private en' \<noteq> []"
proof (induction n arbitrary: p vue en e)
  case (Suc n)
  show ?case
  proof (cases "read_entry p")
    case None
    with Suc.prems show ?thesis by simp
  next
    case (Some x)
    obtain kind nom payload p' where x: "x = ((kind, nom, payload), p')" by (metis prod.exhaust)
    obtain okd en1 where d: "deserialize_identity payload en = (okd, en1)" by fastforce
    obtain okw e1 where w: "secure_write L en nom (Buf payload) e = (okw, e1)" by fastforce
    have "en_identity_private en1 \<noteq> []" by (rule deserialize_keeps_key [OF d Suc.prems(2)])
    then show ?thesis
      using Suc.prems Some x d w Suc.IH [of p' True en1 e] Suc.IH [of p' vue en e1] Suc.IH [of p' vue en e]
      by (auto split: if_splits)
  qed
qed auto

lemma import_keeps_key:
  assumes "zia_backup_import L nn en p d e = (r, en', e')" "en_identity_private en \<noteq> []"
  shows "en_identity_private en' \<noteq> []"
proof (cases "backup_open L (cstr p) d")
  case (Inl f)
  with assms show ?thesis by (auto simp: zia_backup_import_def split: prod.splits if_splits)
next
  case (Inr plain)
  obtain ok vue en1 e1 where l: "(case reader_u32 plain of None \<Rightarrow> (False, False, en, e)
      | Some (cnt, q) \<Rightarrow> import_loop L (unat cnt) q False en e) = (ok, vue, en1, e1)" by (metis prod.exhaust)
  then have "en_identity_private en1 \<noteq> []"
    using assms(2) import_loop_keeps_key [of L _ _ False en e ok vue en1 e1] by (auto split: option.splits)
  with assms Inr l show ?thesis
    by (cases nn) (auto simp: zia_backup_import_def case_prod_beta simp del: import_loop.simps split: if_splits)
qed

text \<open>An import keeps the sizes, and the private key too when it succeeds.\<close>

lemma import_call:
  assumes "sized_engine en" "zia_backup_import L nn en p d e = (r, en', e')"
  shows "sized_engine en' \<and> (keyed en \<and> r = Ok () \<longrightarrow> keyed en') \<and> r \<noteq> Crash"
proof (cases "backup_open L (cstr p) d")
  case (Inl f)
  with assms show ?thesis by (auto simp: zia_backup_import_def split: prod.splits if_splits)
next
  case (Inr plain)
  obtain ok vue en1 e1 where l: "(case reader_u32 plain of None \<Rightarrow> (False, False, en, e)
      | Some (cnt, q) \<Rightarrow> import_loop L (unat cnt) q False en e) = (ok, vue, en1, e1)" by (metis prod.exhaust)
  have s1: "sized_engine en1 \<and> (ok \<and> keyed en \<longrightarrow> keyed en1)"
    using l import_loop_sized [OF assms(1)] assms(1) by (auto split: option.splits)
  show ?thesis
  proof (cases nn)
    case True
    have "if \<not> ok \<or> \<not> vue then r = Err ZIA_ERR_CRYPTO_FAILURE \<and> en' = en1\<lparr>en_last_error := msg_unreadable_incomplete\<rparr>
        else r = Ok () \<and> en' = en1 \<or> r = Err ZIA_ERR_STORAGE_IO \<and> en' = en1\<lparr>en_last_error := msg_save\<rparr>"
      using assms(2) Inr True
      by (simp add: zia_backup_import_def l case_prod_beta del: import_loop.simps split: if_splits) auto
    with s1 show ?thesis by (auto split: if_splits)
  qed (use assms in \<open>auto simp: zia_backup_import_def\<close>)
qed

lemma apfst_outcome: "apfst outcome x = (r, en', e') \<Longrightarrow> \<exists>q. x = (q, en', e') \<and> r = outcome q"
  by (cases x) auto

lemma call_outcome [simp]: "call_ok en en' (outcome q) = call_ok en en' q"
  by (simp add: call_ok_def)

lemma api_call_ok:
  assumes "sizes_ok L" "kem_sizes L" "sized_engine en" "api L c en e = (r, en', e')"
    and "\<And>nn p d. c \<noteq> CallImport nn p d"
  shows "call_ok en en' r"
proof (cases c)
  case (CallSign nn msg)
  with assms(3,4) show ?thesis using sign_call by (auto simp: call_ok_def)
next
  case (CallRequirePq nn q)
  have "sized_engine (en\<lparr>en_require_pq := b\<rparr>) \<and> keyed (en\<lparr>en_require_pq := b\<rparr>) = keyed en" for b
    using assms(3) by (simp add: sized_engine_def keyed_def wf_groups_def)
  with CallRequirePq assms(3,4) show ?thesis
    by (auto simp: zia_session_require_pq_def call_ok_def split: if_splits)
next
  case (CallFromBundle nn b hs)
  with assms(3,4) show ?thesis
    using from_bundle_call [of en L nn b hs e] by (auto simp: call_ok_def case_prod_beta)
next
  case (CallProcess nn g s d)
  with assms(4) show ?thesis using process_call [OF assms(3)] by (auto split: prod.splits)
next
  case (CallGetPublicKey nn)
  with assms(3,4) show ?thesis by (auto simp: zia_identity_get_public_key_def call_ok_def split: if_splits)
next
  case (CallRead nn n)
  with assms(3,4) reader_calls(1) [of L nn en n e] show ?thesis by (auto simp: call_ok_def case_prod_beta)
next
  case (CallErase nn n)
  with assms(3,4) reader_calls(2) [of L nn en n e] show ?thesis by (auto simp: call_ok_def case_prod_beta)
next
  case (CallLockVerify nn n)
  with assms(3,4) reader_calls(3) [of L nn en n e] show ?thesis by (auto simp: call_ok_def case_prod_beta)
next
  case (CallLockStatus nn)
  with assms(3,4) reader_calls(4) [of L nn en e] show ?thesis by (auto simp: call_ok_def case_prod_beta)
next
  case (CallLockClear nn)
  with assms(3,4) reader_calls(5) [of L nn en e] show ?thesis by (auto simp: call_ok_def case_prod_beta)
next
  case (CallSessionDeserialize nn d)
  with assms(3,4) reader_calls(6) [of L nn d e] show ?thesis by (auto simp: call_ok_def case_prod_beta)
qed (use assms(4,5) in \<open>auto dest!: apfst_outcome intro: generate_call [OF assms(1,3)] bundle_call [OF assms(1-3)]
    accept_call [OF assms(3)] create_call [OF assms(1,3)] encrypt_call [OF assms(1,3)] decrypt_call [OF assms(1,3)]
    sealed_open_call [OF assms(3)] write_call [OF assms(3)] lock_call [OF assms(3)] export_call [OF assms(3)]
    rotate_call [OF assms(1-3), THEN conjunct1]\<close>)

section \<open>The life of an engine\<close>

text \<open>
  An engine starts as \<open>zia_engine_init\<close> leaves it, which ignores whether the identity file could be read, and then
  serves calls with arbitrary arguments, successful or not, in an environment (files, stored secret, randomness,
  failures) that is arbitrary at each call.
\<close>

inductive engine_reachable :: "lib \<Rightarrow> ZiaEngine \<Rightarrow> bool" for L where
  init: "zia_engine_init L path e = (Some en, st, e') \<Longrightarrow> engine_reachable L en"
| call: "engine_reachable L en \<Longrightarrow> api L c en e = (r, en', e') \<Longrightarrow> engine_reachable L en'"

lemma new_engine_sized: "sized_engine (new_ZiaEngine\<lparr>en_storage_path := path\<rparr>) \<and> keyed (new_ZiaEngine\<lparr>en_storage_path := path\<rparr>)"
  by (simp add: sized_engine_def keyed_def new_ZiaEngine_def wf_groups_def)

lemma load_sized:
  assumes "sized_engine en" "load_identity L en e = (ok, en', e')"
  shows "sized_engine en' \<and> (ok \<longrightarrow> keyed en')"
proof -
  have "en' = en \<and> \<not> ok \<or> (\<exists>plain. deserialize_identity plain en = (ok, en'))"
    using assms(2) by (auto simp: load_identity_def Let_def split: if_splits option.splits prod.splits)
  with deserialize_sized [OF assms(1)] assms(1) show ?thesis by blast
qed

lemma api_sized:
  assumes "sizes_ok L" "kem_sizes L" "sized_engine en" "api L c en e = (r, en', e')"
  shows "sized_engine en' \<and> (keyed en \<longrightarrow> r \<noteq> Crash)"
proof (cases "\<exists>nn p d. c = CallImport nn p d")
  case True
  then obtain nn p d where "c = CallImport nn p d" by blast
  with assms(4) show ?thesis using import_call [OF assms(3), of L nn p d e r en' e'] by simp
next
  case False
  with api_call_ok [OF assms] show ?thesis by (auto simp: call_ok_def)
qed

lemma engine_reachable_sized:
  assumes "engine_reachable L en" "sizes_ok L" "kem_sizes L"
  shows "sized_engine en"
  using assms(1)
proof induction
  case (init path e en st e')
  then obtain q ok where "load_identity L (new_ZiaEngine\<lparr>en_storage_path := q\<rparr>) e = (ok, en, e')"
    by (auto simp: zia_engine_init_def Let_def split: if_splits prod.splits)
  with load_sized new_engine_sized show ?case by blast
next
  case (call en c e r en' e')
  with api_sized [OF assms(2,3)] show ?case by blast
qed

section \<open>Properties\<close>

text \<open>
  C25 (type).  Reading an identity types the engine.  From any bytes whatever, accepted or not and stopping at any
  field, \<open>deserialize_identity\<close> leaves an engine all of whose keys have their sizes (32-byte public keys and prekeys,
  64-byte signatures, 1184 and 2400 bytes for ML-KEM, a private identity key of 64 bytes or none); and when it
  accepts the bytes, an engine that claims an identity has its private key.
\<close>

theorem deserialize_identity_typed:
  assumes "sized_engine en"
  shows "sized_engine (snd (deserialize_identity data en)) \<and>
    (fst (deserialize_identity data en) \<longrightarrow> keyed (snd (deserialize_identity data en)))"
  using deserialize_sized [OF assms, of data] by (cases "deserialize_identity data en") auto

theorem deserialize_identity_typed_witness:
  "sized_engine (snd (deserialize_identity [2, 1, 9] new_ZiaEngine)) \<and> \<not> fst (deserialize_identity [2, 1, 9] new_ZiaEngine)"
proof -
  have "sized_engine new_ZiaEngine" using new_engine_sized [of "[]"] by (simp add: new_ZiaEngine_def)
  from deserialize_identity_typed [OF this, of "[2, 1, 9]"] show ?thesis
    by (simp add: deserialize_identity_def then_part_def identity_part_def reader_read_def kFormatVersion_def Let_def)
qed

text \<open>
  C3 (invariant).  The whole interface.  In every state an engine can reach from
  \<open>zia_engine_init\<close> through its exported functions, called with any arguments, succeeding or failing, whatever the disk,
  the key store and the memory allocator do in between: all keys have their sizes and there is one sender key per group
  and member; an exported function reads outside a buffer only if the engine claims an identity whose private key was
  never allocated; and the only call after which an engine newly is in that state is a \<open>zia_backup_import\<close> that was
  refused, on an engine that had no identity (an engine may also start in it, from an identity file that decrypts but
  is cut short, since \<open>zia_engine_init\<close> ignores the failure).
\<close>

theorem engine_calls_safe:
  assumes "engine_reachable L en" "sizes_ok L" "kem_sizes L" "api L c en e = (r, en', e')"
  shows "sized_engine en \<and> sized_engine en' \<and>
    (r = Crash \<longrightarrow> en_has_identity en \<and> en_identity_private en = []) \<and>
    (en_has_identity en' \<and> en_identity_private en' = [] \<longrightarrow>
       en_has_identity en \<and> en_identity_private en = [] \<or>
       (\<exists>nn p d. c = CallImport nn p d) \<and> \<not> is_Ok r \<and> \<not> en_has_identity en)"
proof -
  have en: "sized_engine en" by (rule engine_reachable_sized [OF assms(1-3)])
  note a = api_sized [OF assms(2,3) en assms(4)]
  have k: "keyed x \<longleftrightarrow> \<not> (en_has_identity x \<and> en_identity_private x = [])" if "sized_engine x" for x
    using that by (auto simp: keyed_def sized_engine_def)
  have "(\<exists>nn p d. c = CallImport nn p d) \<and> \<not> is_Ok r \<and> \<not> en_has_identity en" if "keyed en" "\<not> keyed en'"
  proof (cases "\<exists>nn p d. c = CallImport nn p d")
    case True
    then obtain nn p d where c: "c = CallImport nn p d" by blast
    with assms(4) have i: "zia_backup_import L nn en p d e = (r, en', e')" by simp
    have "\<not> is_Ok r" using import_call [OF en i] that by (cases r) auto
    moreover have "en_identity_private en = []"
      using import_keeps_key [OF i] that(2) a k by blast
    ultimately show ?thesis using c that(1) k [OF en] by blast
  next
    case False
    with api_call_ok [OF assms(2,3) en assms(4)] that show ?thesis by (auto simp: call_ok_def)
  qed
  with a en k show ?thesis by blast
qed

lemma sample_kem_sizes: "kem_sizes sample_lib"
  by (simp add: kem_sizes_def sample_lib_def)

theorem engine_calls_safe_witness:
  "\<exists>en e1 r en' e2. zia_engine_init sample_lib None env0 = (Some en, ZIA_OK, e1) \<and>
     api sample_lib (CallGenerate True) en e1 = (r, en', e2) \<and> sized_engine en' \<and>
     \<not> (en_has_identity en' \<and> en_identity_private en' = [])"
proof -
  let ?en = "new_ZiaEngine\<lparr>en_storage_path := []\<rparr>"
  have init: "zia_engine_init sample_lib None env0 = (Some ?en, ZIA_OK, env0)"
    by (simp add: zia_engine_init_def load_identity_def) (simp add: sample_lib_def)
  obtain r en' e2 where a: "api sample_lib (CallGenerate True) ?en env0 = (r, en', e2)" by (metis prod.exhaust)
  from engine_calls_safe [OF engine_reachable.init [OF init] sample_sizes_ok sample_kem_sizes a]
  have "sized_engine en'" "\<not> (en_has_identity en' \<and> en_identity_private en' = [])"
    by (auto simp: new_ZiaEngine_def)
  with init a show ?thesis by blast
qed

text \<open>
  C39 (error).  A failed import can leave an engine that crashes.  \<open>deserialize_identity\<close> sets \<open>has_identity\<close> before
  it has read the keys; a backup whose identity record is cut after its second byte is refused, but an engine that
  had no identity now claims one whose private key is a null pointer, and signing with it, or exporting it, reads
  through that pointer.
\<close>

theorem failed_import_leaves_null_key:
  assumes "backup_open L (cstr pass) data = Inr (write_u32_le 1 @ backup_entry kKindIdentity [] [v, f])"
    and "v = 1 \<or> v = 2" "f \<noteq> 0" "en_identity_private en = []"
  shows "\<exists>en'. zia_backup_import L True en pass data e = (Err ZIA_ERR_CRYPTO_FAILURE, en', e) \<and>
    zia_identity_sign L True en' (Buf m) = Crash \<and>
    (12 \<le> length (cstr pass) \<longrightarrow> fst (zia_backup_export L True en' pass e) = Crash)"
proof -
  let ?en = "en\<lparr>en_has_identity := True\<rparr>"
  have d: "deserialize_identity [v, f] en = (False, ?en)"
    using assms(2,3)
    by (auto simp: deserialize_identity_def then_part_def identity_part_def reader_read_def kFormatVersion_def Let_def)
  have r: "reader_u32 (write_u32_le 1 @ backup_entry kKindIdentity [] [v, f]) =
      Some (1, backup_entry kKindIdentity [] [v, f])" by simp
  have "read_entry (backup_entry kKindIdentity [] [v, f]) = Some ((kKindIdentity, [], [v, f]), [])"
    using read_entry_entry [of "[]" "[v, f]" kKindIdentity "[]"] by simp
  then have "import_loop L (Suc 0) (backup_entry kKindIdentity [] [v, f]) False en e = (False, False, ?en, e)"
    using d by simp
  then have "zia_backup_import L True en pass data e =
      (Err ZIA_ERR_CRYPTO_FAILURE, ?en\<lparr>en_last_error := msg_unreadable_incomplete\<rparr>, e)"
    using assms(1) r by (simp add: zia_backup_import_def)
  then show ?thesis using assms(4) by (simp add: zia_identity_sign_def zia_backup_export_def)
qed

theorem failed_import_leaves_null_key_witness:
  "\<exists>data en'. zia_backup_import sample_lib True new_ZiaEngine [65] data env0 = (Err ZIA_ERR_CRYPTO_FAILURE, en', env0) \<and>
     zia_identity_sign sample_lib True en' (Buf [1]) = Crash"
proof -
  let ?plain = "write_u32_le 1 @ backup_entry kKindIdentity [] [2, 1]"
  obtain key where key: "crypto_pwhash sample_lib [65] (replicate 16 0) kOpsLimit kMemLimit = Some key" "length key = 32"
    using sample_pwhash_ok unfolding pwhash_ok_def by (metis length_replicate)
  obtain header cipher where "backup_open sample_lib [65]
      (kMagic @ replicate 16 0 @ put_u64 kOpsLimit @ put_u64 kMemLimit @ header @ cipher) = Inr ?plain"
    by (rule backup_open_seal [OF sample_stream_ok key(2) _ key(1)]) simp_all
  then have "backup_open sample_lib (cstr [65])
      (kMagic @ replicate 16 0 @ put_u64 kOpsLimit @ put_u64 kMemLimit @ header @ cipher) = Inr ?plain"
    by (simp add: cstr_def)
  from failed_import_leaves_null_key [OF this, of new_ZiaEngine env0 "[1]"] show ?thesis
    by (auto simp: new_ZiaEngine_def)
qed

end
