(* ===== verification/Secure_Memory.thy ===== *)
theory Secure_Memory
  imports Primitives
begin

text \<open>
  \<open>src/memory/secure_buffer.hpp\<close>: the class that owns every secret.  The rest of the development treats a
  \<open>SecureBuffer\<close> as the bytes it holds; this theory models the objects, their pointers and the guarded heap, and
  proves that treatment right: whatever a program does with such objects, it never touches freed memory, never
  frees twice, leaks nothing, wipes what it frees, and behaves like a map from objects to byte strings.
\<close>

section \<open>Objects and heap\<close>

record sbuf =
  sb_data :: "nat option"
  sb_size :: nat

text \<open>
  Addresses are not handed out twice, so that a stale pointer is visible.  \<open>m_freed\<close> collects what was in the
  blocks when they were freed.
\<close>

record memory =
  m_blocks :: "nat \<rightharpoonup> bytes"
  m_next :: nat
  m_objects :: "nat \<rightharpoonup> sbuf"
  m_freed :: "bytes list"

definition empty_memory :: memory where
  "empty_memory = \<lparr>m_blocks = Map.empty, m_next = 0, m_objects = Map.empty, m_freed = []\<rparr>"

text \<open>Using a block that is not live, or more of it than there is, is undefined behaviour: \<open>None\<close>.\<close>

definition sodium_munlock :: "nat \<Rightarrow> nat \<Rightarrow> memory \<Rightarrow> memory option" where
  "sodium_munlock a n m =
     (case m_blocks m a of
        None \<Rightarrow> None
      | Some b \<Rightarrow> if length b < n then None else Some (m\<lparr>m_blocks := (m_blocks m)(a \<mapsto> replicate n 0 @ drop n b)\<rparr>))"

definition sodium_free :: "nat \<Rightarrow> memory \<Rightarrow> memory option" where
  "sodium_free a m =
     (case m_blocks m a of
        None \<Rightarrow> None
      | Some b \<Rightarrow> Some (m\<lparr>m_blocks := (m_blocks m)(a := None), m_freed := b # m_freed m\<rparr>))"

section \<open>The member functions\<close>

definition set_object :: "nat \<Rightarrow> sbuf \<Rightarrow> memory \<Rightarrow> memory" where
  "set_object obj b m = m\<lparr>m_objects := (m_objects m)(obj \<mapsto> b)\<rparr>"

definition null_buffer :: sbuf where
  "null_buffer = \<lparr>sb_data = None, sb_size = 0\<rparr>"

text \<open>
  \<open>SecureBuffer(size)\<close>.  \<open>ok\<close> says whether \<open>sodium_malloc\<close> succeeds; when it does not, the constructor throws and there
  is no object.
\<close>

definition sb_new :: "nat \<Rightarrow> nat \<Rightarrow> bool \<Rightarrow> memory \<Rightarrow> memory" where
  "sb_new obj n ok m =
     (if n = 0 then set_object obj null_buffer m
      else if \<not> ok then m
      else set_object obj \<lparr>sb_data = Some (m_next m), sb_size = n\<rparr>
        (m\<lparr>m_blocks := (m_blocks m)(m_next m \<mapsto> SecureBuffer n), m_next := Suc (m_next m)\<rparr>))"

definition sb_reset :: "nat \<Rightarrow> memory \<Rightarrow> memory option" where
  "sb_reset obj m =
     (case m_objects m obj of
        None \<Rightarrow> None
      | Some b \<Rightarrow>
          (case sb_data b of
             None \<Rightarrow> Some m
           | Some a \<Rightarrow>
               (case sodium_munlock a (sb_size b) m of
                  None \<Rightarrow> None
                | Some m1 \<Rightarrow> map_option (set_object obj null_buffer) (sodium_free a m1))))"

text \<open>The move constructor.\<close>

definition sb_move_new :: "nat \<Rightarrow> nat \<Rightarrow> memory \<Rightarrow> memory option" where
  "sb_move_new obj other m =
     map_option (\<lambda>b. set_object other null_buffer (set_object obj b m)) (m_objects m other)"

text \<open>The move assignment, with its test for self-assignment.\<close>

definition sb_move :: "nat \<Rightarrow> nat \<Rightarrow> memory \<Rightarrow> memory option" where
  "sb_move obj other m =
     (if obj = other then Some m
      else case sb_reset obj m of None \<Rightarrow> None | Some m1 \<Rightarrow> sb_move_new obj other m1)"

definition sb_clone :: "nat \<Rightarrow> nat \<Rightarrow> bool \<Rightarrow> memory \<Rightarrow> memory option" where
  "sb_clone obj other ok m =
     (case m_objects m other of
        None \<Rightarrow> None
      | Some b \<Rightarrow>
          let m1 = sb_new obj (sb_size b) ok m in
          (case (sb_data b, Option.bind (m_objects m1 obj) sb_data) of
             (Some a, Some c) \<Rightarrow>
               (case m_blocks m1 a of
                  None \<Rightarrow> None
                | Some bs \<Rightarrow> if length bs < sb_size b then None
                    else Some (m1\<lparr>m_blocks := (m_blocks m1)(c \<mapsto> take (sb_size b) bs)\<rparr>))
           | _ \<Rightarrow> Some m1))"

definition sb_destroy :: "nat \<Rightarrow> memory \<Rightarrow> memory option" where
  "sb_destroy obj m = map_option (\<lambda>m1. m1\<lparr>m_objects := (m_objects m1)(obj := None)\<rparr>) (sb_reset obj m)"

text \<open>A client writing through \<open>data()\<close>.\<close>

definition sb_write :: "nat \<Rightarrow> bytes \<Rightarrow> memory \<Rightarrow> memory option" where
  "sb_write obj bs m =
     (case Option.bind (m_objects m obj) sb_data of
        None \<Rightarrow> if bs = [] then Some m else None
      | Some a \<Rightarrow>
          (case m_blocks m a of
             None \<Rightarrow> None
           | Some old \<Rightarrow> if length old < length bs then None
               else Some (m\<lparr>m_blocks := (m_blocks m)(a \<mapsto> bs @ drop (length bs) old)\<rparr>)))"

section \<open>Programs\<close>

datatype sb_op =
    New nat nat bool
  | MoveNew nat nat
  | Move nat nat
  | Clone nat nat bool
  | Reset nat
  | Destroy nat
  | Write nat bytes

fun exec :: "sb_op \<Rightarrow> memory \<Rightarrow> memory option" where
  "exec (New obj n ok) m = Some (sb_new obj n ok m)"
| "exec (MoveNew obj other) m = sb_move_new obj other m"
| "exec (Move obj other) m = sb_move obj other m"
| "exec (Clone obj other ok) m = sb_clone obj other ok m"
| "exec (Reset obj) m = sb_reset obj m"
| "exec (Destroy obj) m = sb_destroy obj m"
| "exec (Write obj bs) m = sb_write obj bs m"

primrec exec_all :: "sb_op list \<Rightarrow> memory \<Rightarrow> memory option" where
  "exec_all [] m = Some m"
| "exec_all (c # cs) m = Option.bind (exec c m) (exec_all cs)"

section \<open>The specification: a map from objects to bytes\<close>

text \<open>
  A moved-from buffer is empty.  \<open>scoped\<close> is what the language guarantees (an object is constructed before it is
  used) and what a writer owes (not to write beyond \<open>size()\<close>).
\<close>

fun spec_exec :: "sb_op \<Rightarrow> (nat \<rightharpoonup> bytes) \<Rightarrow> (nat \<rightharpoonup> bytes)" where
  "spec_exec (New obj n ok) A = (if n = 0 \<or> ok then A(obj \<mapsto> SecureBuffer n) else A)"
| "spec_exec (MoveNew obj other) A = A(obj := A other, other \<mapsto> [])"
| "spec_exec (Move obj other) A = (if obj = other then A else A(obj := A other, other \<mapsto> []))"
| "spec_exec (Clone obj other ok) A = (if A other = Some [] \<or> ok then A(obj := A other) else A)"
| "spec_exec (Reset obj) A = A(obj \<mapsto> [])"
| "spec_exec (Destroy obj) A = A(obj := None)"
| "spec_exec (Write obj bs) A = A(obj := map_option (\<lambda>old. bs @ drop (length bs) old) (A obj))"

fun scoped :: "sb_op \<Rightarrow> (nat \<rightharpoonup> bytes) \<Rightarrow> bool" where
  "scoped (New obj n ok) A \<longleftrightarrow> A obj = None"
| "scoped (MoveNew obj other) A \<longleftrightarrow> A obj = None \<and> A other \<noteq> None"
| "scoped (Move obj other) A \<longleftrightarrow> A obj \<noteq> None \<and> A other \<noteq> None"
| "scoped (Clone obj other ok) A \<longleftrightarrow> A obj = None \<and> A other \<noteq> None"
| "scoped (Reset obj) A \<longleftrightarrow> A obj \<noteq> None"
| "scoped (Destroy obj) A \<longleftrightarrow> A obj \<noteq> None"
| "scoped (Write obj bs) A \<longleftrightarrow> (\<exists>old. A obj = Some old \<and> length bs \<le> length old)"

primrec scoped_all :: "sb_op list \<Rightarrow> (nat \<rightharpoonup> bytes) \<Rightarrow> bool" where
  "scoped_all [] A \<longleftrightarrow> True"
| "scoped_all (c # cs) A \<longleftrightarrow> scoped c A \<and> scoped_all cs (spec_exec c A)"

section \<open>The invariant\<close>

text \<open>Every object is null or owns a live block of its size; no block has two owners, and none has no owner.\<close>

definition owns :: "memory \<Rightarrow> nat \<Rightarrow> nat \<Rightarrow> bool" where
  "owns m obj a \<longleftrightarrow> (\<exists>n. m_objects m obj = Some \<lparr>sb_data = Some a, sb_size = n\<rparr>)"

definition mem_inv :: "memory \<Rightarrow> bool" where
  "mem_inv m \<longleftrightarrow>
     (\<forall>obj b. m_objects m obj = Some b \<longrightarrow>
        (case sb_data b of None \<Rightarrow> sb_size b = 0
         | Some a \<Rightarrow> 0 < sb_size b \<and> (\<exists>bs. m_blocks m a = Some bs \<and> length bs = sb_size b))) \<and>
     (\<forall>o1 o2 a. owns m o1 a \<and> owns m o2 a \<longrightarrow> o1 = o2) \<and>
     (\<forall>a. m_blocks m a \<noteq> None \<longrightarrow> a < m_next m \<and> (\<exists>obj. owns m obj a)) \<and>
     (\<forall>b \<in> set (m_freed m). set b \<subseteq> {0})"

text \<open>The bytes an object holds.\<close>

definition sb_view :: "memory \<Rightarrow> nat \<Rightarrow> bytes option" where
  "sb_view m obj =
     (case m_objects m obj of
        None \<Rightarrow> None
      | Some b \<Rightarrow> (case sb_data b of None \<Rightarrow> Some [] | Some a \<Rightarrow> m_blocks m a))"

section \<open>Every operation keeps it and does what the specification says\<close>

lemma object_cases:
  assumes "mem_inv m" "m_objects m obj = Some b"
  obtains "b = null_buffer"
  | a bs where "b = \<lparr>sb_data = Some a, sb_size = length bs\<rparr>" "m_blocks m a = Some bs" "bs \<noteq> []" "owns m obj a"
proof -
  from assms have c: "case sb_data b of None \<Rightarrow> sb_size b = 0
      | Some a \<Rightarrow> 0 < sb_size b \<and> (\<exists>bs. m_blocks m a = Some bs \<and> length bs = sb_size b)"
    unfolding mem_inv_def by blast
  show thesis
  proof (cases "sb_data b")
    case None
    with c that(1) show thesis by (cases b) (simp add: null_buffer_def)
  next
    case (Some a)
    with c obtain bs where "m_blocks m a = Some bs" "length bs = sb_size b" "0 < sb_size b" by auto
    with Some assms(2) that(2) [of a bs] show thesis by (cases b) (auto simp: owns_def)
  qed
qed

lemma mem_invI:
  assumes "\<And>obj b. m_objects m obj = Some b \<Longrightarrow> b = null_buffer \<or>
      (\<exists>a bs. b = \<lparr>sb_data = Some a, sb_size = length bs\<rparr> \<and> m_blocks m a = Some bs \<and> bs \<noteq> [])"
    and "\<And>o1 o2 a. owns m o1 a \<Longrightarrow> owns m o2 a \<Longrightarrow> o1 = o2"
    and "\<And>a bs. m_blocks m a = Some bs \<Longrightarrow> a < m_next m \<and> (\<exists>obj. owns m obj a)"
    and "\<And>b x. b \<in> set (m_freed m) \<Longrightarrow> x \<in> set b \<Longrightarrow> x = 0"
  shows "mem_inv m"
  unfolding mem_inv_def
proof (intro conjI allI impI ballI)
  show "case sb_data b of None \<Rightarrow> sb_size b = 0
      | Some a \<Rightarrow> 0 < sb_size b \<and> (\<exists>bs. m_blocks m a = Some bs \<and> length bs = sb_size b)"
    if "m_objects m obj = Some b" for obj b
    using assms(1) [OF that] by (auto simp: null_buffer_def)
qed (use assms(2-4) in auto)

lemma mem_invD:
  assumes "mem_inv m"
  shows "owns m o1 a \<Longrightarrow> owns m o2 a \<Longrightarrow> o1 = o2"
    and "m_blocks m a = Some bs \<Longrightarrow> a < m_next m \<and> (\<exists>obj. owns m obj a)"
    and "b \<in> set (m_freed m) \<Longrightarrow> x \<in> set b \<Longrightarrow> x = 0"
    and "m_blocks m (m_next m) = None"
  using assms unfolding mem_inv_def by (blast, blast, blast, meson less_irrefl not_None_eq)

lemma owns_set_object:
  "owns (set_object obj b m) o1 a \<longleftrightarrow> (if o1 = obj then sb_data b = Some a else owns m o1 a)"
  by (cases b) (auto simp: owns_def set_object_def)

lemma owns_iff: "m_objects m obj = Some b \<Longrightarrow> owns m obj a \<longleftrightarrow> sb_data b = Some a"
  by (cases b) (simp add: owns_def)

lemma owns_frames [simp]:
  "owns (m\<lparr>m_blocks := x\<rparr>) obj a = owns m obj a" "owns (m\<lparr>m_next := n\<rparr>) obj a = owns m obj a"
  "owns (m\<lparr>m_freed := f\<rparr>) obj a = owns m obj a"
  by (simp_all add: owns_def)

lemma set_object_frames [simp]:
  "m_blocks (set_object obj b m) = m_blocks m" "m_next (set_object obj b m) = m_next m"
  "m_freed (set_object obj b m) = m_freed m" "m_objects (set_object obj b m) = (m_objects m)(obj \<mapsto> b)"
  by (simp_all add: set_object_def)

text \<open>Writing into an owned block changes what its owner holds, and nothing else.\<close>

lemma write_block:
  assumes "mem_inv m" "owns m obj a" "m_blocks m a = Some old" "length new = length old"
  shows "mem_inv (m\<lparr>m_blocks := (m_blocks m)(a \<mapsto> new)\<rparr>) \<and>
    sb_view (m\<lparr>m_blocks := (m_blocks m)(a \<mapsto> new)\<rparr>) = (sb_view m)(obj \<mapsto> new)"
proof
  let ?m = "m\<lparr>m_blocks := (m_blocks m)(a \<mapsto> new)\<rparr>"
  show "mem_inv ?m"
  proof (rule mem_invI)
    fix o2 b
    assume "m_objects ?m o2 = Some b"
    then have "m_objects m o2 = Some b" by simp
    with assms(1) show "b = null_buffer \<or>
        (\<exists>c bs. b = \<lparr>sb_data = Some c, sb_size = length bs\<rparr> \<and> m_blocks ?m c = Some bs \<and> bs \<noteq> [])"
    proof (cases rule: object_cases)
      case (2 c bs)
      then show ?thesis
        using assms(3,4) by (cases "c = a") (auto intro!: exI [of _ new] exI [of _ a])
    qed simp
  qed (use mem_invD [OF assms(1)] assms(3) in \<open>auto split: if_splits\<close>)
  show "sb_view ?m = (sb_view m)(obj \<mapsto> new)"
  proof
    fix o2
    show "sb_view ?m o2 = ((sb_view m)(obj \<mapsto> new)) o2"
    proof (cases "o2 = obj")
      case True
      then show ?thesis using assms(2) by (auto simp: sb_view_def owns_def)
    next
      case False
      then have "\<not> owns m o2 a" using mem_invD(1) [OF assms(1,2)] by blast
      then have "b \<noteq> \<lparr>sb_data = Some a, sb_size = sb_size b\<rparr>" if "m_objects m o2 = Some b" for b
        using that by (metis owns_def)
      with False show ?thesis by (auto simp: sb_view_def split: option.split)
    qed
  qed
qed

text \<open>The same, as a rule about what the invariant says of one object.\<close>

lemma mem_inv_object:
  assumes "mem_inv m" "m_objects m obj = Some b"
  shows "b = null_buffer \<or> (\<exists>a bs. b = \<lparr>sb_data = Some a, sb_size = length bs\<rparr> \<and> m_blocks m a = Some bs \<and> bs \<noteq> [])"
  using assms by (cases rule: object_cases) auto

lemma view_exists: "sb_view m obj \<noteq> None \<Longrightarrow> \<exists>b. m_objects m obj = Some b"
  by (auto simp: sb_view_def split: option.splits)

lemma view_absent: "mem_inv m \<Longrightarrow> sb_view m obj = None \<Longrightarrow> m_objects m obj = None"
  by (auto simp: sb_view_def null_buffer_def dest!: mem_inv_object split: option.splits)

lemma new_ok:
  assumes "mem_inv m" "m_objects m obj = None"
  shows "mem_inv (sb_new obj n ok m) \<and>
    sb_view (sb_new obj n ok m) = (if n = 0 \<or> ok then (sb_view m)(obj \<mapsto> SecureBuffer n) else sb_view m)"
proof (cases "n = 0 \<or> \<not> ok")
  case True
  have nobody: "\<not> owns m obj a" for a using assms(2) by (simp add: owns_def)
  have "mem_inv (set_object obj null_buffer m)"
    by (rule mem_invI)
      (use mem_inv_object [OF assms(1)] mem_invD [OF assms(1)] nobody in
        \<open>auto simp: owns_set_object null_buffer_def split: if_splits\<close>, metis)
  with True assms(1) show ?thesis
    by (auto simp: sb_new_def sb_view_def fun_eq_iff null_buffer_def SecureBuffer_def split: option.split)
next
  case False
  let ?a = "m_next m"
  let ?m = "set_object obj \<lparr>sb_data = Some ?a, sb_size = n\<rparr> (m\<lparr>m_blocks := (m_blocks m)(?a \<mapsto> SecureBuffer n), m_next := Suc ?a\<rparr>)"
  have fresh: "\<not> owns m o1 ?a" for o1
  proof
    assume "owns m o1 ?a"
    then obtain k where "m_objects m o1 = Some \<lparr>sb_data = Some ?a, sb_size = k\<rparr>" by (auto simp: owns_def)
    from mem_inv_object [OF assms(1) this] mem_invD(4) [OF assms(1)] show False by (simp add: null_buffer_def)
  qed
  have "mem_inv ?m"
  proof (rule mem_invI)
    fix o1 b
    assume "m_objects ?m o1 = Some b"
    then consider "o1 = obj" "b = \<lparr>sb_data = Some ?a, sb_size = n\<rparr>" | "m_objects m o1 = Some b"
      by (cases "o1 = obj") simp_all
    then show "b = null_buffer \<or> (\<exists>a bs. b = \<lparr>sb_data = Some a, sb_size = length bs\<rparr> \<and> m_blocks ?m a = Some bs \<and> bs \<noteq> [])"
    proof cases
      case 1
      then show ?thesis using False by (auto simp: SecureBuffer_def)
    next
      case 2
      from mem_inv_object [OF assms(1) this] mem_invD(4) [OF assms(1)] show ?thesis by auto
    qed
  next
    fix a bs
    assume "m_blocks ?m a = Some bs"
    then show "a < m_next ?m \<and> (\<exists>o1. owns ?m o1 a)"
      using mem_invD(2) [OF assms(1), of a bs] assms(2)
      by (cases "a = ?a") (auto simp: owns_set_object less_SucI, metis option.distinct(1) owns_def)
  qed (use mem_invD [OF assms(1)] fresh in \<open>auto simp: owns_set_object split: if_splits\<close>)
  moreover have "sb_view ?m o1 = ((sb_view m)(obj \<mapsto> SecureBuffer n)) o1" for o1
  proof (cases "o1 = obj")
    case o1: False
    have "sb_data c \<noteq> Some ?a" if "m_objects m o1 = Some c" for c
      using assms(1) that by (cases rule: object_cases) (use mem_invD(4) [OF assms(1)] in \<open>auto simp: null_buffer_def\<close>)
    with o1 show ?thesis by (auto simp: sb_view_def split: option.split)
  qed (simp add: sb_view_def)
  ultimately show ?thesis using False by (simp add: sb_new_def fun_eq_iff)
qed

lemma reset_ok:
  assumes "mem_inv m" "m_objects m obj = Some b"
  shows "\<exists>m'. sb_reset obj m = Some m' \<and> mem_inv m' \<and> sb_view m' = (sb_view m)(obj \<mapsto> []) \<and>
    m_objects m' = (m_objects m)(obj \<mapsto> null_buffer)"
  using assms
proof (cases rule: object_cases)
  case 1
  with assms show ?thesis by (auto simp: sb_reset_def sb_view_def null_buffer_def fun_eq_iff)
next
  case (2 a bs)
  let ?m = "set_object obj null_buffer (m\<lparr>m_blocks := (m_blocks m)(a := None), m_freed := replicate (length bs) 0 # m_freed m\<rparr>)"
  have other: "c \<noteq> a" if "owns m o1 c" "o1 \<noteq> obj" for o1 c using mem_invD(1) [OF assms(1)] 2(4) that by blast
  have "mem_inv ?m"
  proof (rule mem_invI)
    fix o1 c
    assume "m_objects ?m o1 = Some c"
    then consider "c = null_buffer" | "o1 \<noteq> obj" "m_objects m o1 = Some c" by (auto split: if_splits)
    then show "c = null_buffer \<or> (\<exists>a bs. c = \<lparr>sb_data = Some a, sb_size = length bs\<rparr> \<and> m_blocks ?m a = Some bs \<and> bs \<noteq> [])"
    proof cases
      case o1: 2
      from assms(1) o1(2) show ?thesis by (cases rule: object_cases) (use other o1(1) in auto)
    qed simp
  next
    fix c x
    assume "m_blocks ?m c = Some x"
    then have "m_blocks m c = Some x" "c \<noteq> a" by (auto split: if_splits)
    with mem_invD(1,2) [OF assms(1)] 2(1) assms(2) show "c < m_next ?m \<and> (\<exists>o1. owns ?m o1 c)"
      by (auto simp: owns_set_object null_buffer_def) (metis option.inject owns_def sbuf.ext_inject)
  qed (use mem_invD [OF assms(1)] in \<open>auto simp: owns_set_object null_buffer_def split: if_splits\<close>)
  moreover have "sb_view ?m o1 = ((sb_view m)(obj \<mapsto> [])) o1" for o1
  proof (cases "o1 = obj")
    case False
    have "sb_data c \<noteq> Some a" if "m_objects m o1 = Some c" for c
      using assms(1) that by (cases rule: object_cases) (use other False in \<open>auto simp: null_buffer_def\<close>)
    with False show ?thesis by (auto simp: sb_view_def split: option.split)
  qed (simp add: sb_view_def null_buffer_def)
  moreover have "sb_reset obj m = Some ?m"
    using 2 assms(2) by (simp add: sb_reset_def sodium_munlock_def sodium_free_def)
  ultimately show ?thesis by (intro exI [of _ ?m]) auto
qed

lemma move_new_ok:
  assumes "mem_inv m" "m_objects m other = Some b" "obj \<noteq> other"
    and "m_objects m obj = None \<or> m_objects m obj = Some null_buffer"
  shows "\<exists>m'. sb_move_new obj other m = Some m' \<and> mem_inv m' \<and>
    sb_view m' = (sb_view m)(obj := sb_view m other, other \<mapsto> [])"
proof -
  let ?m = "set_object other null_buffer (set_object obj b m)"
  have own: "owns ?m o1 a \<longleftrightarrow> (if o1 = obj then owns m other a else o1 \<noteq> other \<and> owns m o1 a)" for o1 a
    using assms(3) owns_iff [OF assms(2)] by (auto simp: owns_set_object null_buffer_def)
  have none: "\<not> owns m obj a" for a using assms(4) by (auto simp: owns_def null_buffer_def)
  have "mem_inv ?m"
  proof (rule mem_invI)
    fix o1 c
    assume "m_objects ?m o1 = Some c"
    then consider "c = null_buffer" | "m_objects m other = Some c" | "m_objects m o1 = Some c"
      using assms(2) by (cases "o1 = other"; cases "o1 = obj") simp_all
    then show "c = null_buffer \<or> (\<exists>a bs. c = \<lparr>sb_data = Some a, sb_size = length bs\<rparr> \<and> m_blocks ?m a = Some bs \<and> bs \<noteq> [])"
      by cases (use mem_inv_object [OF assms(1)] in simp_all)
  next
    fix o1 o2 a
    assume "owns ?m o1 a" "owns ?m o2 a"
    then show "o1 = o2" unfolding own using mem_invD(1) [OF assms(1)] by (auto split: if_splits)
  next
    fix a bs
    assume "m_blocks ?m a = Some bs"
    then obtain o1 where "a < m_next m" "owns m o1 a" using mem_invD(2) [OF assms(1), of a bs] by auto
    with none show "a < m_next ?m \<and> (\<exists>o1. owns ?m o1 a)"
      unfolding own by (cases "o1 = other") (auto intro: exI [of _ obj] exI [of _ o1])
  qed (use mem_invD(3) [OF assms(1)] in simp)
  moreover have "sb_view ?m = (sb_view m)(obj := sb_view m other, other \<mapsto> [])"
    using assms(2,3) by (auto simp: sb_view_def fun_eq_iff null_buffer_def split: option.split)
  ultimately show ?thesis using assms(2) by (simp add: sb_move_new_def)
qed

lemma clone_ok:
  assumes "mem_inv m" "m_objects m other = Some b" "m_objects m obj = None"
  shows "\<exists>m'. sb_clone obj other ok m = Some m' \<and> mem_inv m' \<and>
    sb_view m' = (if sb_view m other = Some [] \<or> ok then (sb_view m)(obj := sb_view m other) else sb_view m)"
  using assms(1,2)
proof (cases rule: object_cases)
  case 1
  then show ?thesis
    using new_ok [OF assms(1,3), of 0 ok] assms(2)
    by (simp add: sb_clone_def sb_view_def null_buffer_def SecureBuffer_def)
next
  case (2 a bs)
  have view: "sb_view m other = Some bs" using 2(1,2) assms(2) by (simp add: sb_view_def)
  show ?thesis
  proof (cases ok)
    case False
    then have "sb_new obj (length bs) ok m = m" using 2(3) by (simp add: sb_new_def)
    with False view 2 assms show ?thesis by (simp add: sb_clone_def)
  next
    case True
    let ?m1 = "sb_new obj (length bs) ok m"
    let ?m = "?m1\<lparr>m_blocks := (m_blocks ?m1)(m_next m \<mapsto> bs)\<rparr>"
    have n: "mem_inv ?m1" "sb_view ?m1 = (sb_view m)(obj \<mapsto> SecureBuffer (length bs))"
      using new_ok [OF assms(1,3), of "length bs" ok] True by simp_all
    have o: "owns ?m1 obj (m_next m)" "m_blocks ?m1 (m_next m) = Some (SecureBuffer (length bs))"
      "m_blocks ?m1 a = Some bs" "Option.bind (m_objects ?m1 obj) sb_data = Some (m_next m)"
      using True 2(2,3) mem_invD(4) [OF assms(1)] by (auto simp: sb_new_def owns_set_object)
    have "sb_clone obj other ok m = Some ?m" using 2(1) assms(2) o by (simp add: sb_clone_def Let_def)
    with write_block [OF n(1) o(1,2), of bs] n(2) view True show ?thesis by auto
  qed
qed

lemma exec_ok:
  assumes "mem_inv m" "scoped c (sb_view m)"
  shows "\<exists>m'. exec c m = Some m' \<and> mem_inv m' \<and> sb_view m' = spec_exec c (sb_view m)"
proof (cases c)
  case (New obj n ok)
  then show ?thesis using new_ok [OF assms(1), of obj n ok] view_absent [OF assms(1)] assms(2) by simp
next
  case (MoveNew obj other)
  then show ?thesis
    using move_new_ok [OF assms(1), of other _ obj] view_absent [OF assms(1), of obj] view_exists [of m other] assms(2)
    by (cases "obj = other") auto
next
  case (Move obj other)
  then obtain b b' where b: "m_objects m obj = Some b" "m_objects m other = Some b'"
    using assms(2) view_exists by (metis scoped.simps(3))
  obtain m1 where m1: "sb_reset obj m = Some m1" "mem_inv m1" "sb_view m1 = (sb_view m)(obj \<mapsto> [])"
    "m_objects m1 = (m_objects m)(obj \<mapsto> null_buffer)" using reset_ok [OF assms(1) b(1)] by blast
  show ?thesis
  proof (cases "obj = other")
    case False
    with move_new_ok [OF m1(2), of other b' obj] b(2) m1 Move show ?thesis by (auto simp: sb_move_def)
  qed (use Move assms(1) in \<open>simp add: sb_move_def\<close>)
next
  case (Clone obj other ok)
  then show ?thesis
    using clone_ok [OF assms(1), of other _ obj ok] view_absent [OF assms(1), of obj] view_exists [of m other] assms(2) by auto
next
  case (Reset obj)
  then show ?thesis using reset_ok [OF assms(1), of obj] view_exists [of m obj] assms(2) by auto
next
  case (Destroy obj)
  then obtain b where "m_objects m obj = Some b" using view_exists [of m obj] assms(2) by auto
  then obtain m1 where m1: "sb_reset obj m = Some m1" "mem_inv m1" "sb_view m1 = (sb_view m)(obj \<mapsto> [])"
    "m_objects m1 = (m_objects m)(obj \<mapsto> null_buffer)" using reset_ok [OF assms(1)] by blast
  let ?m = "m1\<lparr>m_objects := (m_objects m1)(obj := None)\<rparr>"
  have own: "owns ?m o1 a \<longleftrightarrow> owns m1 o1 a" for o1 a using m1(4) by (auto simp: owns_def null_buffer_def)
  have "mem_inv ?m"
    by (rule mem_invI) (use mem_inv_object [OF m1(2)] mem_invD [OF m1(2)] own in \<open>auto split: if_splits\<close>)
  moreover have "sb_view ?m = (sb_view m1)(obj := None)" by (auto simp: sb_view_def fun_eq_iff split: option.split)
  then have "sb_view ?m = (sb_view m)(obj := None)" using m1(3) by simp
  ultimately show ?thesis using m1(1) Destroy by (simp add: sb_destroy_def)
next
  case (Write obj bs)
  with assms(2) obtain old where old: "sb_view m obj = Some old" "length bs \<le> length old" by auto
  then obtain b where b: "m_objects m obj = Some b" using view_exists [of m obj] by auto
  from assms(1) b show ?thesis
  proof (cases rule: object_cases)
    case 1
    then have "old = []" using old(1) b by (simp add: sb_view_def null_buffer_def)
    with old 1 b assms(1) Write show ?thesis by (simp add: sb_write_def null_buffer_def) (auto simp: fun_eq_iff)
  next
    case (2 a bs')
    then have "bs' = old" using old(1) b by (simp add: sb_view_def)
    with write_block [OF assms(1) 2(4,2), of "bs @ drop (length bs) old"] old 2 b Write show ?thesis
      by (auto simp: sb_write_def)
  qed
qed

lemma exec_all_ok:
  "mem_inv m \<Longrightarrow> scoped_all cs (sb_view m) \<Longrightarrow>
     \<exists>m'. exec_all cs m = Some m' \<and> mem_inv m' \<and> sb_view m' = fold spec_exec cs (sb_view m)"
proof (induction cs arbitrary: m)
  case (Cons c cs)
  then obtain m1 where "exec c m = Some m1" "mem_inv m1" "sb_view m1 = spec_exec c (sb_view m)"
    using exec_ok [of m c] by auto
  with Cons.IH [of m1] Cons.prems(2) show ?case by auto
qed simp

lemma empty_memory_inv: "mem_inv empty_memory" "sb_view empty_memory = Map.empty"
  by (simp_all add: mem_inv_def empty_memory_def owns_def sb_view_def fun_eq_iff)

section \<open>Properties\<close>

text \<open>
  C11 (refinement).  A \<open>SecureBuffer\<close> can be reasoned about as the bytes it holds.  Every program that uses its objects
  within their scope runs without undefined behaviour (no use after free, no double free, no access outside a block),
  including self-assignment, moves from moved-from objects and clones of empty ones; each object then holds what the
  map from objects to byte strings says; every block freed on the way held only zeros; and when the last object is
  gone no block is left allocated.
\<close>

theorem secure_buffer_refines:
  assumes "scoped_all cs Map.empty"
  shows "\<exists>m. exec_all cs empty_memory = Some m \<and> sb_view m = fold spec_exec cs Map.empty \<and>
    (\<forall>b \<in> set (m_freed m). set b \<subseteq> {0}) \<and>
    (fold spec_exec cs Map.empty = Map.empty \<longrightarrow> m_blocks m = Map.empty)"
proof -
  obtain m where m: "exec_all cs empty_memory = Some m" "mem_inv m" "sb_view m = fold spec_exec cs Map.empty"
    using exec_all_ok [OF empty_memory_inv(1), of cs] assms by (auto simp: empty_memory_inv(2))
  have "m_blocks m a = None" if "fold spec_exec cs Map.empty = Map.empty" for a
  proof (rule ccontr)
    assume "m_blocks m a \<noteq> None"
    then obtain obj where "owns m obj a" using mem_invD(2) [OF m(2)] by blast
    moreover have "m_objects m obj = None" using view_absent [OF m(2)] m(3) that by simp
    ultimately show False by (simp add: owns_def)
  qed
  with m mem_invD(3) [OF m(2)] show ?thesis by (intro exI [of _ m]) auto
qed

theorem secure_buffer_refines_witness:
  "\<exists>m. exec_all [New 0 2 True, Write 0 [7, 8], Clone 1 0 True, Move 1 1, Move 0 1, Destroy 1, Destroy 0] empty_memory = Some m \<and>
     m_blocks m = Map.empty \<and> (\<forall>b \<in> set (m_freed m). set b \<subseteq> {0})"
proof -
  let ?cs = "[New 0 2 True, Write 0 [7, 8], Clone 1 0 True, Move 1 1, Move 0 1, Destroy 1, Destroy 0]"
  have "scoped_all ?cs Map.empty" by (simp add: SecureBuffer_def)
  from secure_buffer_refines [OF this] show ?thesis by (auto simp: SecureBuffer_def fun_eq_iff)
qed

end
