(* ===== verification/Lifetime.thy ===== *)
theory Lifetime
  imports Secure_Memory Engine_State Ratchet
begin

text \<open>
  The release functions of the C interface: \<open>zia_session_close\<close>, \<open>zia_engine_shutdown\<close> and \<open>zia_free_buffer\<close>.  Handles
  are pointers to objects whose secret members are the \<open>SecureBuffer\<close> objects of the guarded heap; deleting a handle
  runs their destructors.  The theory shows that releasing handles in any order is safe, wipes what they held and
  touches nothing else.
\<close>

section \<open>Objects behind the handles\<close>

text \<open>The \<open>SecureBuffer\<close> members of \<open>ZiaSession\<close> and \<open>ZiaEngine\<close>, as objects of the guarded heap.\<close>

record session_object =
  so_dhs_private :: nat
  so_root_key :: nat
  so_send_chain_key :: nat
  so_recv_chain_key :: nat
  so_skipped :: "nat list"

record sender_key_object =
  ko_chain_key :: nat
  ko_signing_private :: nat
  ko_skipped :: "nat list"

record engine_object =
  eo_identity_private :: nat
  eo_signed_prekey :: "nat option"
  eo_pq_prekey :: "nat option"
  eo_one_time_prekeys :: "nat list"
  eo_sender_keys :: "sender_key_object list"

text \<open>
  The process: the guarded heap, the live handles, the blocks obtained from \<open>malloc\<close> and handed to the caller, and
  the blocks given back, each with the length the caller named and what it held when it was freed.
\<close>

record process =
  h_memory :: memory
  h_sessions :: "nat \<rightharpoonup> session_object"
  h_engines :: "nat \<rightharpoonup> engine_object"
  h_buffers :: "nat \<rightharpoonup> bytes"
  h_released :: "(nat \<times> bytes) list"

text \<open>The order in which the implicit destructors run: members from the last declared to the first.\<close>

definition session_destructor :: "session_object \<Rightarrow> nat list" where
  "session_destructor s = so_skipped s @ [so_recv_chain_key s, so_send_chain_key s, so_root_key s, so_dhs_private s]"

definition sender_key_destructor :: "sender_key_object \<Rightarrow> nat list" where
  "sender_key_destructor k = ko_skipped k @ [ko_signing_private k, ko_chain_key k]"

definition engine_destructor :: "engine_object \<Rightarrow> nat list" where
  "engine_destructor x =
     concat (map sender_key_destructor (eo_sender_keys x)) @ eo_one_time_prekeys x @
     (case eo_pq_prekey x of None \<Rightarrow> [] | Some k \<Rightarrow> [k]) @ (case eo_signed_prekey x of None \<Rightarrow> [] | Some k \<Rightarrow> [k]) @
     [eo_identity_private x]"

primrec destroy_all :: "nat list \<Rightarrow> memory \<Rightarrow> memory option" where
  "destroy_all [] m = Some m"
| "destroy_all (obj # objs) m = Option.bind (sb_destroy obj m) (destroy_all objs)"

section \<open>The exported functions\<close>

text \<open>
  \<open>None\<close> as an argument is the null pointer, which \<open>delete\<close> ignores; \<open>None\<close> as a result is undefined behaviour: a
  handle that is not live, or a length beyond the block.
\<close>

definition zia_session_close :: "nat option \<Rightarrow> process \<Rightarrow> process option" where
  "zia_session_close session h =
     (case session of
        None \<Rightarrow> Some h
      | Some p \<Rightarrow>
          (case h_sessions h p of
             None \<Rightarrow> None
           | Some s \<Rightarrow>
               map_option (\<lambda>m. h\<lparr>h_memory := m, h_sessions := (h_sessions h)(p := None)\<rparr>)
                 (destroy_all (session_destructor s) (h_memory h))))"

definition zia_engine_shutdown :: "nat option \<Rightarrow> process \<Rightarrow> process option" where
  "zia_engine_shutdown engine h =
     (case engine of
        None \<Rightarrow> Some h
      | Some p \<Rightarrow>
          (case h_engines h p of
             None \<Rightarrow> None
           | Some x \<Rightarrow>
               map_option (\<lambda>m. h\<lparr>h_memory := m, h_engines := (h_engines h)(p := None)\<rparr>)
                 (destroy_all (engine_destructor x) (h_memory h))))"

definition zia_free_buffer :: "nat option \<Rightarrow> nat \<Rightarrow> process \<Rightarrow> process option" where
  "zia_free_buffer buf len h =
     (case buf of
        None \<Rightarrow> Some h
      | Some p \<Rightarrow>
          (case h_buffers h p of
             None \<Rightarrow> None
           | Some b \<Rightarrow>
               if length b < len then None
               else Some (h\<lparr>h_buffers := (h_buffers h)(p := None),
                            h_released := (len, replicate len 0 @ drop len b) # h_released h\<rparr>)))"

section \<open>Sequences of releases\<close>

datatype release =
    CloseSession "nat option"
  | Shutdown "nat option"
  | FreeBuffer "nat option" nat

datatype handle = SessionHandle nat | EngineHandle nat | BufferHandle nat

primrec release1 :: "release \<Rightarrow> process \<Rightarrow> process option" where
  "release1 (CloseSession p) = zia_session_close p"
| "release1 (Shutdown p) = zia_engine_shutdown p"
| "release1 (FreeBuffer p n) = zia_free_buffer p n"

primrec release_all :: "release list \<Rightarrow> process \<Rightarrow> process option" where
  "release_all [] h = Some h"
| "release_all (c # cs) h = Option.bind (release1 c h) (release_all cs)"

primrec target :: "release \<Rightarrow> handle option" where
  "target (CloseSession p) = map_option SessionHandle p"
| "target (Shutdown p) = map_option EngineHandle p"
| "target (FreeBuffer p n) = map_option BufferHandle p"

definition targets :: "release list \<Rightarrow> handle list" where
  "targets cs = List.map_filter target cs"

text \<open>
  What a caller owes: handles it holds, and for a buffer the length it was given with; the engine allocates one byte
  for an empty result.
\<close>

fun held :: "process \<Rightarrow> release \<Rightarrow> bool" where
  "held h (CloseSession (Some p)) \<longleftrightarrow> h_sessions h p \<noteq> None"
| "held h (Shutdown (Some p)) \<longleftrightarrow> h_engines h p \<noteq> None"
| "held h (FreeBuffer (Some p) n) \<longleftrightarrow> map_option length (h_buffers h p) = Some (max 1 n)"
| "held h c \<longleftrightarrow> True"

section \<open>What handles stand for\<close>

primrec members :: "process \<Rightarrow> handle \<Rightarrow> nat list" where
  "members h (SessionHandle p) = (case h_sessions h p of None \<Rightarrow> [] | Some s \<Rightarrow> session_destructor s)"
| "members h (EngineHandle p) = (case h_engines h p of None \<Rightarrow> [] | Some x \<Rightarrow> engine_destructor x)"
| "members h (BufferHandle p) = []"

primrec live :: "process \<Rightarrow> handle \<Rightarrow> bool" where
  "live h (SessionHandle p) \<longleftrightarrow> h_sessions h p \<noteq> None"
| "live h (EngineHandle p) \<longleftrightarrow> h_engines h p \<noteq> None"
| "live h (BufferHandle p) \<longleftrightarrow> h_buffers h p \<noteq> None"

text \<open>A session in memory that holds the secrets of a \<open>ZiaSession\<close> of the rest of the development; the same for an engine.\<close>

definition session_at :: "process \<Rightarrow> nat \<Rightarrow> ZiaSession \<Rightarrow> bool" where
  "session_at h p S \<longleftrightarrow>
     (case h_sessions h p of
        None \<Rightarrow> False
      | Some s \<Rightarrow>
          map (sb_view (h_memory h)) [so_dhs_private s, so_root_key s, so_send_chain_key s, so_recv_chain_key s] =
            map Some [s_dhs_private S, s_root_key S, s_send_chain_key S, s_recv_chain_key S] \<and>
          map (sb_view (h_memory h)) (so_skipped s) = map (Some \<circ> sk_key) (s_skipped S))"

definition sender_key_at :: "memory \<Rightarrow> sender_key_object \<Rightarrow> ZiaSenderKey \<Rightarrow> bool" where
  "sender_key_at m k K \<longleftrightarrow>
     sb_view m (ko_chain_key k) = Some (snk_chain_key K) \<and> sb_view m (ko_signing_private k) = Some (snk_signing_private K) \<and>
     map (sb_view m) (ko_skipped k) = map (Some \<circ> ssk_key) (snk_skipped K)"

definition engine_at :: "process \<Rightarrow> nat \<Rightarrow> ZiaEngine \<Rightarrow> bool" where
  "engine_at h p E \<longleftrightarrow>
     (case h_engines h p of
        None \<Rightarrow> False
      | Some x \<Rightarrow>
          sb_view (h_memory h) (eo_identity_private x) = Some (en_identity_private E) \<and>
          map_option (sb_view (h_memory h)) (eo_signed_prekey x) = map_option (Some \<circ> spk_private_key) (en_signed_prekey E) \<and>
          map_option (sb_view (h_memory h)) (eo_pq_prekey x) = map_option (Some \<circ> pq_private_key) (en_pq_prekey E) \<and>
          map (sb_view (h_memory h)) (eo_one_time_prekeys x) = map (Some \<circ> otpk_private_key) (en_one_time_prekeys E) \<and>
          list_all2 (sender_key_at (h_memory h)) (eo_sender_keys x) (en_sender_keys E))"

text \<open>
  Between two calls of the interface every \<open>SecureBuffer\<close> is a member of exactly one live handle, and of one place in
  it; every block given back has been wiped.
\<close>

definition process_inv :: "process \<Rightarrow> bool" where
  "process_inv h \<longleftrightarrow>
     mem_inv (h_memory h) \<and> (\<forall>k. distinct (members h k)) \<and>
     (\<forall>k k'. k \<noteq> k' \<longrightarrow> set (members h k) \<inter> set (members h k') = {}) \<and>
     (\<forall>obj. m_objects (h_memory h) obj \<noteq> None \<longleftrightarrow> (\<exists>k. obj \<in> set (members h k))) \<and>
     (\<forall>(n, b) \<in> set (h_released h). set (take n b) \<subseteq> {0} \<and> length b = max 1 n)"

section \<open>Destruction\<close>

lemma destroy_all_exec: "destroy_all objs m = exec_all (map Destroy objs) m"
  by (induction objs arbitrary: m) (auto split: bind_split)

lemma scoped_destroy: "distinct objs \<Longrightarrow> set objs \<subseteq> dom A \<Longrightarrow> scoped_all (map Destroy objs) A"
proof (induction objs arbitrary: A)
  case (Cons obj objs)
  then have "set objs \<subseteq> dom (A(obj := None))" by auto
  with Cons show ?case by auto
qed simp

lemma fold_destroy: "fold spec_exec (map Destroy objs) A = A |` (- set objs)"
  by (induction objs arbitrary: A) (auto simp: fun_eq_iff restrict_map_def)

lemma destroy_all_ok:
  assumes "mem_inv m" "distinct objs" "\<And>obj. obj \<in> set objs \<Longrightarrow> m_objects m obj \<noteq> None"
  obtains m' where "destroy_all objs m = Some m'" "mem_inv m'" "sb_view m' = sb_view m |` (- set objs)"
proof -
  have "set objs \<subseteq> dom (sb_view m)" using view_absent [OF assms(1)] assms(3) by blast
  from exec_all_ok [OF assms(1) scoped_destroy [OF assms(2) this]] that show thesis
    by (auto simp: destroy_all_exec fold_destroy)
qed

lemma view_none: "mem_inv m \<Longrightarrow> sb_view m obj = None \<longleftrightarrow> m_objects m obj = None"
  using view_absent [of m obj] by (auto simp: sb_view_def)

section \<open>One release\<close>

text \<open>Handles other than \<open>k\<close> keep their members and what these hold; \<open>k\<close> is gone.\<close>

definition released :: "handle option \<Rightarrow> process \<Rightarrow> process \<Rightarrow> bool" where
  "released t h h' \<longleftrightarrow>
     (\<forall>p. h_sessions h' p = (if t = Some (SessionHandle p) then None else h_sessions h p)) \<and>
     (\<forall>p. h_engines h' p = (if t = Some (EngineHandle p) then None else h_engines h p)) \<and>
     (\<forall>p. h_buffers h' p = (if t = Some (BufferHandle p) then None else h_buffers h p)) \<and>
     sb_view (h_memory h') = sb_view (h_memory h) |` (- (case t of None \<Rightarrow> {} | Some k \<Rightarrow> set (members h k)))"

lemma process_invD:
  assumes "process_inv h"
  shows "mem_inv (h_memory h)" "distinct (members h k)"
    and "obj \<in> set (members h k) \<Longrightarrow> obj \<in> set (members h k') \<Longrightarrow> k = k'"
    and "m_objects (h_memory h) obj \<noteq> None \<longleftrightarrow> (\<exists>k. obj \<in> set (members h k))"
    and "(n, b) \<in> set (h_released h) \<Longrightarrow> x \<in> set (take n b) \<Longrightarrow> x = 0"
    and "(n, b) \<in> set (h_released h) \<Longrightarrow> length b = max 1 n"
  using assms unfolding process_inv_def by (blast, blast, blast, blast, blast, blast)

lemma released_members:
  "released t h h' \<Longrightarrow> members h' k = (if t = Some k then [] else members h k)"
  by (cases k) (auto simp: released_def)

lemma released_inv:
  assumes "process_inv h" "released t h h'" "mem_inv (h_memory h')"
    and "\<forall>(n, b) \<in> set (h_released h'). set (take n b) \<subseteq> {0} \<and> length b = max 1 n"
  shows "process_inv h'"
proof -
  note inv = process_invD [OF assms(1)]
  have obj: "m_objects (h_memory h') obj \<noteq> None \<longleftrightarrow>
      m_objects (h_memory h) obj \<noteq> None \<and> obj \<notin> (case t of None \<Rightarrow> {} | Some k \<Rightarrow> set (members h k))" for obj
    using assms(2) view_none [OF inv(1), of obj] view_none [OF assms(3), of obj]
    by (auto simp: released_def restrict_map_def split: if_splits)
  have "m_objects (h_memory h') obj \<noteq> None \<longleftrightarrow> (\<exists>k. obj \<in> set (members h' k))" for obj
  proof (cases t)
    case (Some a)
    then show ?thesis unfolding obj inv(4) released_members [OF assms(2)]
      using inv(3) [of obj a] by (auto split: if_splits intro: exI)
  qed (simp add: obj inv(4) released_members [OF assms(2)] del: not_None_eq)
  moreover have "set (members h' k) \<inter> set (members h' k') = {}" if "k \<noteq> k'" for k k'
    using inv(3) [of _ k k'] that unfolding released_members [OF assms(2)] by auto
  ultimately show ?thesis
    using assms(3,4) inv(2) unfolding process_inv_def released_members [OF assms(2)] by auto
qed

lemma destroy_members:
  assumes "process_inv h"
  obtains m where "destroy_all (members h k) (h_memory h) = Some m" "mem_inv m"
    "sb_view m = sb_view (h_memory h) |` (- set (members h k))"
  using destroy_all_ok [OF process_invD(1,2) [OF assms]] process_invD(4) [OF assms] by metis

lemma release1_ok:
  assumes "process_inv h" "held h c"
  shows "\<exists>h'. release1 c h = Some h' \<and> process_inv h' \<and> released (target c) h h'"
proof (cases "target c")
  case None
  then have "release1 c h = Some h"
    by (cases c) (auto simp: zia_session_close_def zia_engine_shutdown_def zia_free_buffer_def)
  with None assms(1) show ?thesis by (auto simp: released_def)
next
  case (Some k)
  obtain m where m: "destroy_all (members h k) (h_memory h) = Some m" "mem_inv m"
    "sb_view m = sb_view (h_memory h) |` (- set (members h k))" using destroy_members [OF assms(1)] by blast
  have "\<exists>h'. release1 c h = Some h' \<and> released (target c) h h' \<and> mem_inv (h_memory h') \<and>
      (\<forall>(n, b) \<in> set (h_released h'). set (take n b) \<subseteq> {0} \<and> length b = max 1 n)"
  proof (cases c)
    case (CloseSession p)
    then show ?thesis using Some m assms(2) process_invD(5,6) [OF assms(1)]
      by (auto simp: zia_session_close_def released_def)
  next
    case (Shutdown p)
    then show ?thesis using Some m assms(2) process_invD(5,6) [OF assms(1)]
      by (auto simp: zia_engine_shutdown_def released_def)
  next
    case (FreeBuffer p n)
    then show ?thesis using Some assms(2) process_invD(1,5,6) [OF assms(1)]
      by (auto simp: zia_free_buffer_def released_def restrict_map_def)
  qed
  with released_inv [OF assms(1)] show ?thesis by blast
qed

section \<open>Frames\<close>

lemma session_frame:
  assumes "process_inv h" "released t h h'" "t \<noteq> Some (SessionHandle p)"
  shows "session_at h' p S = session_at h p S"
proof (cases "h_sessions h p")
  case None
  with assms(2,3) show ?thesis by (simp add: session_at_def released_def)
next
  case (Some s)
  have "sb_view (h_memory h') obj = sb_view (h_memory h) obj" if "obj \<in> set (session_destructor s)" for obj
    using assms that Some process_invD(3) [OF assms(1), of obj "SessionHandle p"]
    by (cases t) (auto simp: released_def restrict_map_def)
  then have "map (sb_view (h_memory h')) (so_skipped s) = map (sb_view (h_memory h)) (so_skipped s)"
    "map (sb_view (h_memory h')) [so_dhs_private s, so_root_key s, so_send_chain_key s, so_recv_chain_key s] =
      map (sb_view (h_memory h)) [so_dhs_private s, so_root_key s, so_send_chain_key s, so_recv_chain_key s]"
    by (auto simp: session_destructor_def)
  moreover have "h_sessions h' p = Some s" using Some assms(2,3) by (simp add: released_def)
  ultimately show ?thesis using Some by (simp add: session_at_def del: map_eq_conv)
qed

lemma sender_key_frame:
  assumes "\<And>obj. obj \<in> set (sender_key_destructor k) \<Longrightarrow> sb_view m' obj = sb_view m obj"
  shows "sender_key_at m' k K = sender_key_at m k K"
proof -
  have "map (sb_view m') (ko_skipped k) = map (sb_view m) (ko_skipped k)"
    using assms by (auto simp: sender_key_destructor_def)
  with assms show ?thesis by (simp add: sender_key_at_def sender_key_destructor_def del: map_eq_conv)
qed

lemma engine_frame:
  assumes "process_inv h" "released t h h'" "t \<noteq> Some (EngineHandle p)"
  shows "engine_at h' p E = engine_at h p E"
proof (cases "h_engines h p")
  case None
  with assms(2,3) show ?thesis by (simp add: engine_at_def released_def)
next
  case (Some x)
  have same: "sb_view (h_memory h') obj = sb_view (h_memory h) obj" if "obj \<in> set (engine_destructor x)" for obj
    using assms that Some process_invD(3) [OF assms(1), of obj "EngineHandle p"]
    by (cases t) (auto simp: released_def restrict_map_def)
  have "map (sb_view (h_memory h')) (eo_one_time_prekeys x) = map (sb_view (h_memory h)) (eo_one_time_prekeys x)"
    using same by (auto simp: engine_destructor_def)
  moreover have "map_option (sb_view (h_memory h')) (eo_signed_prekey x) = map_option (sb_view (h_memory h)) (eo_signed_prekey x)"
    "map_option (sb_view (h_memory h')) (eo_pq_prekey x) = map_option (sb_view (h_memory h)) (eo_pq_prekey x)"
    using same by (auto simp: engine_destructor_def intro!: option.map_cong0)
  moreover have "list_all2 (sender_key_at (h_memory h')) (eo_sender_keys x) Ks = list_all2 (sender_key_at (h_memory h)) (eo_sender_keys x) Ks" for Ks
    using same by (intro list.rel_cong refl sender_key_frame) (auto simp: engine_destructor_def)
  moreover have "h_engines h' p = Some x" using Some assms(2,3) by (simp add: released_def)
  ultimately show ?thesis using Some same [of "eo_identity_private x"]
    by (simp add: engine_at_def engine_destructor_def del: map_eq_conv)
qed

lemma held_released:
  assumes "released t h h'" "target c = None \<or> target c \<noteq> t" "held h c"
  shows "held h' c"
  using assms by (cases "(h, c)" rule: held.cases) (auto simp: released_def)

section \<open>Properties\<close>

lemma targets_simps [simp]:
  "targets [] = []" "targets (c # cs) = (case target c of None \<Rightarrow> targets cs | Some k \<Rightarrow> k # targets cs)"
  by (simp_all add: targets_def map_filter_simps split: option.split)

lemma mem_targets: "c \<in> set cs \<Longrightarrow> target c = Some k \<Longrightarrow> k \<in> set (targets cs)"
  by (induction cs) (auto split: option.split)

lemma live_released: "released t h h' \<Longrightarrow> live h' k \<longleftrightarrow> live h k \<and> t \<noteq> Some k"
  by (cases k) (auto simp: released_def)

text \<open>What a sequence of releases leaves.\<close>

lemma release_all_ok:
  assumes "process_inv h" "distinct (targets cs)" "list_all (held h) cs"
  shows "\<exists>h'. release_all cs h = Some h' \<and> process_inv h' \<and>
    (\<forall>p S. SessionHandle p \<notin> set (targets cs) \<longrightarrow> session_at h' p S = session_at h p S) \<and>
    (\<forall>p E. EngineHandle p \<notin> set (targets cs) \<longrightarrow> engine_at h' p E = engine_at h p E) \<and>
    (\<forall>k. live h' k \<longleftrightarrow> live h k \<and> k \<notin> set (targets cs))"
  using assms
proof (induction cs arbitrary: h)
  case (Cons c cs)
  obtain h1 where h1: "release1 c h = Some h1" "process_inv h1" "released (target c) h h1"
    using release1_ok [OF Cons.prems(1)] Cons.prems(3) by auto
  have "held h1 d" if "d \<in> set cs" for d
    using held_released [OF h1(3), of d] that Cons.prems(2,3) mem_targets [OF that]
    by (cases "target c"; cases "target d") (auto simp: list_all_iff)
  then have "list_all (held h1) cs" by (simp add: list_all_iff)
  moreover have "distinct (targets cs)" using Cons.prems(2) by (simp split: option.splits)
  ultimately obtain h2 where h2: "release_all cs h1 = Some h2" "process_inv h2"
    "\<And>p S. SessionHandle p \<notin> set (targets cs) \<Longrightarrow> session_at h2 p S = session_at h1 p S"
    "\<And>p E. EngineHandle p \<notin> set (targets cs) \<Longrightarrow> engine_at h2 p E = engine_at h1 p E"
    "\<And>k. live h2 k \<longleftrightarrow> live h1 k \<and> k \<notin> set (targets cs)"
    using Cons.IH [OF h1(2)] by blast
  have "set (targets (c # cs)) = set_option (target c) \<union> set (targets cs)" by (simp split: option.split)
  with h1(1) h2 session_frame [OF Cons.prems(1) h1(3)] engine_frame [OF Cons.prems(1) h1(3)] live_released [OF h1(3)]
  show ?case by (intro exI [of _ h2]) (auto simp del: targets_simps)
qed auto

lemma no_handle_no_memory:
  assumes "process_inv h" "\<And>k. \<not> live h k"
  shows "m_blocks (h_memory h) = Map.empty" "h_buffers h = Map.empty"
proof -
  have "members h k = []" for k using assms(2) [of k] by (cases k) auto
  then have "m_objects (h_memory h) obj = None" for obj using process_invD(4) [OF assms(1), of obj] by simp
  then have "\<not> owns (h_memory h) obj a" for obj a by (simp add: owns_def)
  then show "m_blocks (h_memory h) = Map.empty"
    using mem_invD(2) [OF process_invD(1) [OF assms(1)]] by (metis not_None_eq)
  show "h_buffers h = Map.empty" using assms(2) [of "BufferHandle _"] by (auto simp: fun_eq_iff)
qed

text \<open>
  C12 (safety).  Closing sessions, shutting engines down and freeing buffers is safe in any order, null handles included,
  as long as every handle is released at most once: no call has undefined behaviour; the sessions and engines that were
  not named keep their secrets; every block given back, guarded or not, held only zeros where it had held data; and once
  every handle has been released no memory is left allocated.
\<close>

theorem release_any_order:
  assumes "process_inv h" "distinct (targets cs)" "list_all (held h) cs"
  shows "\<exists>h'. release_all cs h = Some h' \<and>
    (\<forall>p S. SessionHandle p \<notin> set (targets cs) \<longrightarrow> session_at h' p S = session_at h p S) \<and>
    (\<forall>p E. EngineHandle p \<notin> set (targets cs) \<longrightarrow> engine_at h' p E = engine_at h p E) \<and>
    (\<forall>b \<in> set (m_freed (h_memory h')). set b \<subseteq> {0}) \<and>
    (\<forall>(n, b) \<in> set (h_released h'). set (take n b) \<subseteq> {0}) \<and>
    ((\<forall>k. live h k \<longrightarrow> k \<in> set (targets cs)) \<longrightarrow> m_blocks (h_memory h') = Map.empty \<and> h_buffers h' = Map.empty)"
proof -
  obtain h' where h': "release_all cs h = Some h'" "process_inv h'"
    "\<forall>p S. SessionHandle p \<notin> set (targets cs) \<longrightarrow> session_at h' p S = session_at h p S"
    "\<forall>p E. EngineHandle p \<notin> set (targets cs) \<longrightarrow> engine_at h' p E = engine_at h p E"
    "\<And>k. live h' k \<longleftrightarrow> live h k \<and> k \<notin> set (targets cs)"
    using release_all_ok [OF assms] by blast
  have "m_blocks (h_memory h') = Map.empty \<and> h_buffers h' = Map.empty" if "\<forall>k. live h k \<longrightarrow> k \<in> set (targets cs)"
    using no_handle_no_memory [OF h'(2)] h'(5) that by blast
  with h'(1,3,4) mem_invD(3) [OF process_invD(1) [OF h'(2)]] process_invD(5) [OF h'(2)] show ?thesis
    by (intro exI [of _ h']) (auto simp: subset_iff)
qed

text \<open>
  A process with an engine (its identity key and one sender key), a session that holds a skipped key, and a buffer for an
  empty result.
\<close>

definition sample_memory :: memory where
  "sample_memory = fold (\<lambda>c m. the (exec c m))
     [New 0 2 True, Write 0 [1, 2], New 1 1 True, Write 1 [3], New 2 0 True, New 3 1 True, Write 3 [4],
      New 4 1 True, Write 4 [5], New 5 1 True, Write 5 [6], New 6 0 True, New 7 1 True, Write 7 [7]] empty_memory"

definition sample_process :: process where
  "sample_process =
     \<lparr>h_memory = sample_memory,
      h_sessions = [8 \<mapsto> \<lparr>so_dhs_private = 3, so_root_key = 4, so_send_chain_key = 5, so_recv_chain_key = 6, so_skipped = [7]\<rparr>],
      h_engines = [9 \<mapsto> \<lparr>eo_identity_private = 0, eo_signed_prekey = None, eo_pq_prekey = None, eo_one_time_prekeys = [],
        eo_sender_keys = [\<lparr>ko_chain_key = 1, ko_signing_private = 2, ko_skipped = []\<rparr>]\<rparr>],
      h_buffers = [10 \<mapsto> [77]], h_released = []\<rparr>"

lemma sample_memory_ok:
  "mem_inv sample_memory" "dom (sb_view sample_memory) = {0, 1, 2, 3, 4, 5, 6, 7}"
proof -
  let ?cs = "[New 0 2 True, Write 0 [1, 2], New 1 1 True, Write 1 [3], New 2 0 True, New 3 1 True, Write 3 [4],
      New 4 1 True, Write 4 [5], New 5 1 True, Write 5 [6], New 6 0 True, New 7 1 True, Write 7 [7]]"
  have step: "fold (\<lambda>c m. the (exec c m)) cs m = m'" if "exec_all cs m = Some m'" for cs m m'
    using that by (induction cs arbitrary: m) (auto split: bind_splits)
  have "scoped_all ?cs Map.empty" by (simp add: SecureBuffer_def)
  then obtain m where m: "exec_all ?cs empty_memory = Some m" "mem_inv m" "sb_view m = fold spec_exec ?cs Map.empty"
    using exec_all_ok [OF empty_memory_inv(1), of ?cs] by (auto simp only: empty_memory_inv(2))
  have "sample_memory = m" unfolding sample_memory_def by (rule step [OF m(1)])
  with m(2,3) show "mem_inv sample_memory" "dom (sb_view sample_memory) = {0, 1, 2, 3, 4, 5, 6, 7}"
    by (auto simp: SecureBuffer_def split: if_splits)
qed

lemma sample_process_inv: "process_inv sample_process"
proof -
  have mem: "members sample_process k =
      (if k = SessionHandle 8 then [7, 6, 5, 4, 3] else if k = EngineHandle 9 then [2, 1, 0] else [])" for k
    by (cases k) (simp_all add: sample_process_def session_destructor_def engine_destructor_def sender_key_destructor_def)
  have "m_objects sample_memory obj \<noteq> None \<longleftrightarrow> obj \<in> {0, 1, 2, 3, 4, 5, 6, 7}" for obj
    using view_none [OF sample_memory_ok(1), of obj] sample_memory_ok(2) by (metis domIff)
  then show ?thesis using sample_memory_ok(1) unfolding process_inv_def mem by (auto simp: sample_process_def)
qed

theorem release_any_order_witness:
  "\<exists>h'. release_all [Shutdown None, Shutdown (Some 9), FreeBuffer (Some 10) 0, CloseSession (Some 8)] sample_process = Some h' \<and>
     m_blocks (h_memory h') = Map.empty \<and> h_buffers h' = Map.empty"
proof -
  let ?cs = "[Shutdown None, Shutdown (Some 9), FreeBuffer (Some 10) 0, CloseSession (Some 8)]"
  have held: "list_all (held sample_process) ?cs" by (simp add: sample_process_def)
  have "\<forall>k. live sample_process k \<longrightarrow> k \<in> set (targets ?cs)"
  proof
    show "live sample_process k \<longrightarrow> k \<in> set (targets ?cs)" for k by (cases k) (auto simp: sample_process_def)
  qed
  moreover have "distinct (targets ?cs)" by simp
  ultimately show ?thesis using release_any_order [OF sample_process_inv _ held] by blast
qed

end
