(* ===== verification/Deadline.thy ===== *)
theory Deadline
  imports Files
begin

text \<open>
  \<open>TimedCancellable\<close> and \<open>timeout_seconds\<close> of \<open>platform/linux/secure_key_store_linux.cpp\<close>: the deadline put on every
  call to the Secret Service.  Two threads share a mutex, a condition variable, the flag \<open>finished_\<close> and a
  reference-counted \<open>GCancellable\<close>.  The model is the step relation of their interleavings, one step per
  action that another thread can observe.
\<close>

section \<open>The delay\<close>

text \<open>
  \<open>atoi\<close>: blanks, a sign, digits; the value is that of \<open>strtol\<close>, which saturates at 64 bits, converted to \<open>int\<close>.
\<close>

definition is_space :: "u8 \<Rightarrow> bool" where
  "is_space c \<longleftrightarrow> c = 32 \<or> 9 \<le> c \<and> c \<le> 13"

definition is_digit :: "u8 \<Rightarrow> bool" where
  "is_digit c \<longleftrightarrow> 48 \<le> c \<and> c \<le> 57"

definition digits_value :: "bytes \<Rightarrow> int" where
  "digits_value ds = foldl (\<lambda>n d. 10 * n + (uint d - 48)) 0 ds"

definition strtol :: "bytes \<Rightarrow> int" where
  "strtol s =
     (let t = dropWhile is_space s;
          (neg, r) = (case t of c # r \<Rightarrow> if c = 45 then (True, r) else if c = 43 then (False, r) else (False, t) | [] \<Rightarrow> (False, []));
          n = digits_value (takeWhile is_digit r)
      in if neg then max (- n) (- (2 ^ 63)) else min n (2 ^ 63 - 1))"

definition atoi :: "bytes \<Rightarrow> 32 word" where
  "atoi s = word_of_int (strtol (cstr s))"

definition timeout_seconds :: "bytes option \<Rightarrow> 32 word" where
  "timeout_seconds env_value =
     (case env_value of
        Some v \<Rightarrow> (let parsed = atoi v in if 0 <s parsed then parsed else 5)
      | None \<Rightarrow> 5)"

text \<open>The delay is never zero and fits a signed integer, whatever the environment says.\<close>

lemma timeout_bounds: "0 < unat (timeout_seconds v) \<and> unat (timeout_seconds v) < 2 ^ 31"
proof (cases "\<exists>w. v = Some w \<and> 0 <s atoi w")
  case True
  then obtain w where w: "timeout_seconds v = atoi w" "0 < sint (atoi w)"
    by (auto simp: timeout_seconds_def word_sless_alt)
  have b: "sint (atoi w) < 2 ^ 31" using sint_lt [of "atoi w"] by simp
  have "uint (atoi w) = sint (atoi w) mod 2 ^ 32" by (simp add: uint_sint take_bit_eq_mod)
  also have "\<dots> = sint (atoi w)" by (rule mod_pos_pos_trivial) (use w(2) b in simp_all)
  finally have "unat (atoi w) = nat (sint (atoi w))" by (metis nat_uint_eq)
  with w b show ?thesis by (simp add: nat_less_iff)
next
  case False
  then have "timeout_seconds v = 5" by (auto simp: timeout_seconds_def Let_def split: option.split)
  then show ?thesis by simp
qed

section \<open>Two threads\<close>

text \<open>
  The owner constructs the object (which starts the watcher), makes the call, and destroys the object: it takes
  the mutex, sets \<open>finished_\<close>, releases, notifies, joins the watcher and drops its reference.  The watcher
  takes the mutex and enters \<open>wait_for\<close> with a predicate: it tests the predicate under the mutex, sleeps with
  the mutex released, and tests again when woken.
\<close>

datatype owner_pc = Calling | Returned | Holding | Notifying | Joining | Gone

datatype watcher_pc = Starting | Testing | Waiting | Woken bool | Cancelling | Leaving | Exited

datatype holder = Owner | Watcher

record timed =
  t_owner :: owner_pc
  t_watcher :: watcher_pc
  t_mutex :: "holder option"
  t_finished :: bool
  t_cancelled :: bool
  t_alive :: bool
  t_left :: nat
  t_spurious :: nat

text \<open>
  \<open>Woken True\<close> is a wake-up by the deadline.  Time matters only to a sleeping watcher, so \<open>t_left\<close> counts the
  seconds left there.  The condition variable may wake up for no reason; \<open>t_spurious\<close> says how often it will.
\<close>

definition timed_init :: "nat \<Rightarrow> nat \<Rightarrow> timed" where
  "timed_init seconds spurious =
     \<lparr>t_owner = Calling, t_watcher = Starting, t_mutex = None, t_finished = False, t_cancelled = False,
      t_alive = True, t_left = seconds, t_spurious = spurious\<rparr>"

text \<open>
  The parameter says whether the service answers at all; a cancelled call returns in any case.
\<close>

inductive timed_step :: "bool \<Rightarrow> timed \<Rightarrow> timed \<Rightarrow> bool" for answers where
  call_returns: "t_owner s = Calling \<Longrightarrow> answers \<or> t_cancelled s \<Longrightarrow> timed_step answers s (s\<lparr>t_owner := Returned\<rparr>)"
| set_finished: "t_owner s = Returned \<Longrightarrow> t_mutex s = None \<Longrightarrow>
    timed_step answers s (s\<lparr>t_owner := Holding, t_mutex := Some Owner, t_finished := True\<rparr>)"
| unlock: "t_owner s = Holding \<Longrightarrow> timed_step answers s (s\<lparr>t_owner := Notifying, t_mutex := None\<rparr>)"
| notify_all: "t_owner s = Notifying \<Longrightarrow>
    timed_step answers s (s\<lparr>t_owner := Joining,
      t_watcher := (if t_watcher s = Waiting then Woken False else t_watcher s)\<rparr>)"
| join: "t_owner s = Joining \<Longrightarrow> t_watcher s = Exited \<Longrightarrow>
    timed_step answers s (s\<lparr>t_owner := Gone, t_alive := False\<rparr>)"
| watcher_lock: "t_watcher s = Starting \<Longrightarrow> t_mutex s = None \<Longrightarrow>
    timed_step answers s (s\<lparr>t_watcher := Testing, t_mutex := Some Watcher\<rparr>)"
| test_true: "t_watcher s = Testing \<Longrightarrow> t_finished s \<Longrightarrow> timed_step answers s (s\<lparr>t_watcher := Leaving\<rparr>)"
| test_false: "t_watcher s = Testing \<Longrightarrow> \<not> t_finished s \<Longrightarrow>
    timed_step answers s (s\<lparr>t_watcher := Waiting, t_mutex := None\<rparr>)"
| tick: "t_watcher s = Waiting \<Longrightarrow> t_left s = Suc n \<Longrightarrow> timed_step answers s (s\<lparr>t_left := n\<rparr>)"
| timeout: "t_watcher s = Waiting \<Longrightarrow> t_left s = 0 \<Longrightarrow> timed_step answers s (s\<lparr>t_watcher := Woken True\<rparr>)"
| spurious: "t_watcher s = Waiting \<Longrightarrow> t_spurious s = Suc n \<Longrightarrow>
    timed_step answers s (s\<lparr>t_watcher := Woken False, t_spurious := n\<rparr>)"
| relock: "t_watcher s = Woken False \<Longrightarrow> t_mutex s = None \<Longrightarrow>
    timed_step answers s (s\<lparr>t_watcher := Testing, t_mutex := Some Watcher\<rparr>)"
| relock_due: "t_watcher s = Woken True \<Longrightarrow> t_mutex s = None \<Longrightarrow>
    timed_step answers s (s\<lparr>t_watcher := (if t_finished s then Leaving else Cancelling), t_mutex := Some Watcher\<rparr>)"
| cancel: "t_watcher s = Cancelling \<Longrightarrow> timed_step answers s (s\<lparr>t_watcher := Leaving, t_cancelled := True\<rparr>)"
| leave: "t_watcher s = Leaving \<Longrightarrow> timed_step answers s (s\<lparr>t_watcher := Exited, t_mutex := None\<rparr>)"

section \<open>The invariant\<close>

definition watcher_holds :: "timed \<Rightarrow> bool" where
  "watcher_holds s \<longleftrightarrow> t_watcher s \<in> {Testing, Cancelling, Leaving}"

definition timed_inv :: "timed \<Rightarrow> bool" where
  "timed_inv s \<longleftrightarrow>
     (t_mutex s = Some Owner \<longleftrightarrow> t_owner s = Holding) \<and>
     (t_mutex s = Some Watcher \<longleftrightarrow> watcher_holds s) \<and>
     (t_finished s \<longleftrightarrow> t_owner s \<notin> {Calling, Returned}) \<and>
     (t_alive s \<longleftrightarrow> t_owner s \<noteq> Gone) \<and>
     (t_owner s = Gone \<longrightarrow> t_watcher s = Exited) \<and>
     (t_owner s = Joining \<longrightarrow> t_watcher s \<noteq> Waiting) \<and>
     (t_watcher s = Cancelling \<longrightarrow> \<not> t_finished s) \<and>
     (t_cancelled s \<or> t_watcher s = Cancelling \<or> t_watcher s = Woken True \<longrightarrow> t_left s = 0) \<and>
     (t_watcher s = Exited \<or> t_watcher s = Leaving \<longrightarrow> t_finished s \<or> t_cancelled s)"

lemma timed_init_inv: "timed_inv (timed_init seconds spurious)"
  by (simp add: timed_inv_def timed_init_def watcher_holds_def)

lemma timed_step_inv: "timed_step answers s s' \<Longrightarrow> timed_inv s \<Longrightarrow> timed_inv s'"
  by (induction rule: timed_step.induct) (auto simp: timed_inv_def watcher_holds_def)

lemma timed_run_inv: "(timed_step answers)\<^sup>*\<^sup>* (timed_init seconds spurious) s \<Longrightarrow> timed_inv s"
  by (induction rule: rtranclp_induct) (auto intro: timed_init_inv timed_step_inv)

lemma timed_invD:
  assumes "timed_inv s"
  shows "t_watcher s = Cancelling \<Longrightarrow> t_alive s \<and> \<not> t_finished s \<and> t_left s = 0"
    and "t_cancelled s \<Longrightarrow> t_left s = 0"
    and "\<not> t_alive s \<longleftrightarrow> t_owner s = Gone"
    and "t_owner s = Gone \<Longrightarrow> t_watcher s = Exited"
    and "t_owner s = Joining \<Longrightarrow> t_watcher s \<noteq> Waiting"
    and "t_owner s = Holding \<Longrightarrow> \<not> watcher_holds s"
  using assms by (simp_all add: timed_inv_def) auto

section \<open>Termination\<close>

primrec owner_rank :: "owner_pc \<Rightarrow> nat" where
  "owner_rank Calling = 5"
| "owner_rank Returned = 4"
| "owner_rank Holding = 3"
| "owner_rank Notifying = 2"
| "owner_rank Joining = 1"
| "owner_rank Gone = 0"

primrec watcher_rank :: "watcher_pc \<Rightarrow> nat" where
  "watcher_rank Starting = 8"
| "watcher_rank (Woken b) = (if b then 4 else 7)"
| "watcher_rank Testing = 6"
| "watcher_rank Waiting = 5"
| "watcher_rank Cancelling = 3"
| "watcher_rank Leaving = 2"
| "watcher_rank Exited = 0"

definition timed_measure :: "timed \<Rightarrow> nat" where
  "timed_measure s = 3 * t_spurious s + 3 * owner_rank (t_owner s) + watcher_rank (t_watcher s) + t_left s"

lemma timed_step_decreases: "timed_step answers s s' \<Longrightarrow> timed_measure s' < timed_measure s"
  by (induction rule: timed_step.induct) (auto simp: timed_measure_def)

lemma timed_run_length:
  "(timed_step answers ^^ n) s s' \<Longrightarrow> n + timed_measure s' \<le> timed_measure s"
proof (induction n arbitrary: s')
  case (Suc n)
  then obtain s1 where "(timed_step answers ^^ n) s s1" "timed_step answers s1 s'" by auto
  with Suc.IH timed_step_decreases show ?case by fastforce
qed simp

text \<open>Nobody waits for ever: as long as one thread has work left, some step is possible.\<close>

lemma timed_progress:
  assumes "timed_inv s" "t_owner s \<noteq> Gone"
  shows "\<exists>s'. timed_step answers s s'"
proof (cases "watcher_holds s")
  case True
  then consider "t_watcher s = Testing" "t_finished s" | "t_watcher s = Testing" "\<not> t_finished s"
    | "t_watcher s = Cancelling" | "t_watcher s = Leaving" by (auto simp: watcher_holds_def)
  then show ?thesis
    by cases (rule exI, erule (1) timed_step.test_true, rule exI, erule (1) timed_step.test_false,
      rule exI, erule timed_step.cancel, rule exI, erule timed_step.leave)
next
  case False
  have m: "t_mutex s = None \<or> t_owner s = Holding"
  proof (cases "t_mutex s")
    case (Some h)
    then show ?thesis using assms(1) False by (cases h) (simp_all add: timed_inv_def)
  qed simp
  show ?thesis
  proof (cases "t_owner s = Holding \<or> t_owner s = Returned \<or> t_owner s = Notifying")
    case True
    with m show ?thesis by (auto intro: timed_step.unlock timed_step.set_finished timed_step.notify_all)
  next
    case owner: False
    show ?thesis
    proof (cases "t_watcher s")
      case Waiting
      then show ?thesis by (cases "t_left s") (auto intro: timed_step.tick timed_step.timeout)
    next
      case Exited
      with assms owner False show ?thesis
        by (cases "t_owner s") (auto simp: timed_inv_def intro: timed_step.call_returns timed_step.join)
    next
      case (Woken b)
      with m owner show ?thesis by (cases b) (auto intro: timed_step.relock timed_step.relock_due)
    qed (use m owner False in \<open>auto simp: watcher_holds_def intro: timed_step.watcher_lock\<close>)
  qed
qed

text \<open>A call that finished in time is not cancelled any more.\<close>

lemma finished_uncancelled:
  assumes "timed_inv s" "t_finished s" "\<not> t_cancelled s" "(timed_step answers)\<^sup>*\<^sup>* s s'"
  shows "\<not> t_cancelled s'"
proof -
  have keeps: "t_finished s2 \<and> \<not> t_cancelled s2"
    if "timed_step answers s1 s2" "timed_inv s1" "t_finished s1" "\<not> t_cancelled s1" for s1 s2
    using that by (induction rule: timed_step.induct) (auto simp: timed_inv_def)
  from assms(4) have "timed_inv s' \<and> t_finished s' \<and> \<not> t_cancelled s'"
  proof (induction rule: rtranclp_induct)
    case base
    show ?case using assms(1-3) by simp
  next
    case (step s1 s2)
    then show ?case using timed_step_inv keeps by blast
  qed
  then show ?thesis by simp
qed

text \<open>Without an answer the call only returns by cancellation.\<close>

lemma unanswered_cancelled:
  "(timed_step False)\<^sup>*\<^sup>* (timed_init seconds spurious) s \<Longrightarrow> t_owner s = Calling \<or> t_cancelled s"
proof (induction rule: rtranclp_induct)
  case (step s1 s2)
  from step(2,3) show ?case by (induction rule: timed_step.induct) auto
qed (simp add: timed_init_def)

text \<open>A service that does not answer, with a delay of one second: the watcher has just cancelled.\<close>

definition sample_due :: timed where
  "sample_due = (timed_init 0 0)\<lparr>t_watcher := Leaving, t_mutex := Some Watcher, t_cancelled := True\<rparr>"

lemma sample_due_reached: "(timed_step False)\<^sup>*\<^sup>* (timed_init 1 0) sample_due"
proof -
  let ?s = "timed_init 1 0"
  have "(timed_step False)\<^sup>+\<^sup>+ ?s (?s\<lparr>t_watcher := Testing, t_mutex := Some Watcher\<rparr>)" (is "(timed_step False)\<^sup>+\<^sup>+ _ ?s1")
    by (intro tranclp.r_into_trancl timed_step.watcher_lock) (simp_all add: timed_init_def)
  also have "timed_step False ?s1 (?s1\<lparr>t_watcher := Waiting, t_mutex := None\<rparr>)" (is "timed_step _ _ ?s2")
    by (rule timed_step.test_false) (simp_all add: timed_init_def)
  also have "timed_step False ?s2 (?s2\<lparr>t_left := 0\<rparr>)" (is "timed_step _ _ ?s3")
    by (rule timed_step.tick) (simp_all add: timed_init_def)
  also have "timed_step False ?s3 (?s3\<lparr>t_watcher := Woken True\<rparr>)" (is "timed_step _ _ ?s4")
    by (rule timed_step.timeout) simp_all
  also have "timed_step False ?s4 (?s4\<lparr>t_watcher := (if t_finished ?s4 then Leaving else Cancelling), t_mutex := Some Watcher\<rparr>)"
    (is "timed_step _ _ ?s5")
    by (rule timed_step.relock_due) simp_all
  also have "timed_step False ?s5 (?s5\<lparr>t_watcher := Leaving, t_cancelled := True\<rparr>)" (is "timed_step _ _ ?s6")
    by (rule timed_step.cancel) (simp add: timed_init_def)
  finally have "(timed_step False)\<^sup>*\<^sup>* ?s ?s6" by (rule tranclp_into_rtranclp)
  moreover have "?s6 = sample_due" by (simp add: sample_due_def timed_init_def)
  ultimately show ?thesis by simp
qed

section \<open>Properties\<close>

text \<open>
  C14 (safety).  Every interleaving of the two threads is safe: the watcher cancels only while the object still
  holds its reference (no use after free) and only after the whole delay; a call that set \<open>finished_\<close> in time
  is never cancelled afterwards; the destructor drops the reference only when the watcher has exited; and once it
  has notified, it never waits for the rest of the delay.
\<close>

theorem deadline_safe:
  assumes "(timed_step answers)\<^sup>*\<^sup>* (timed_init seconds spurious) s"
  shows "(t_watcher s = Cancelling \<longrightarrow> t_alive s \<and> \<not> t_finished s \<and> t_left s = 0) \<and>
    (t_cancelled s \<longrightarrow> t_left s = 0) \<and>
    (t_finished s \<and> \<not> t_cancelled s \<and> (timed_step answers)\<^sup>*\<^sup>* s s' \<longrightarrow> \<not> t_cancelled s') \<and>
    (\<not> t_alive s \<longrightarrow> t_watcher s = Exited) \<and>
    (t_owner s = Joining \<longrightarrow> t_watcher s \<noteq> Waiting) \<and>
    \<not> (t_owner s = Holding \<and> watcher_holds s)"
  using timed_invD [OF timed_run_inv [OF assms]] finished_uncancelled [OF timed_run_inv [OF assms], of answers s']
  by blast

theorem deadline_safe_witness:
  "t_cancelled sample_due \<and> t_left sample_due = 0"
  using deadline_safe [OF sample_due_reached, where s' = sample_due] by (simp add: sample_due_def)

text \<open>
  C15 (termination).  The call cannot freeze the application.  Whatever the environment variable holds, the delay
  is between 1 and \<open>2 ^ 31 - 1\<close> seconds, and even when the service never answers every execution ends: with
  \<open>spurious\<close> unprovoked wake-ups no run has more than \<open>delay + 3 * spurious + 23\<close> steps, and a run that cannot
  be continued has returned from the call, joined the watcher and released the cancellable.
\<close>

theorem deadline_terminates:
  assumes "(timed_step answers ^^ n) (timed_init (unat (timeout_seconds v)) spurious) s"
  shows "n \<le> unat (timeout_seconds v) + 3 * spurious + 23 \<and>
    0 < unat (timeout_seconds v) \<and> unat (timeout_seconds v) < 2 ^ 31 \<and>
    ((\<nexists>s'. timed_step answers s s') \<longrightarrow> t_owner s = Gone \<and> t_watcher s = Exited \<and> \<not> t_alive s \<and>
       (\<not> answers \<longrightarrow> t_cancelled s))"
proof (intro conjI)
  let ?d = "unat (timeout_seconds v)"
  show "n \<le> ?d + 3 * spurious + 23"
    using timed_run_length [OF assms] by (simp add: timed_measure_def timed_init_def)
  show "0 < ?d" "?d < 2 ^ 31" using timeout_bounds by blast+
  have run: "(timed_step answers)\<^sup>*\<^sup>* (timed_init ?d spurious) s" using assms by (auto simp: rtranclp_power)
  have "\<not> answers \<Longrightarrow> t_owner s = Calling \<or> t_cancelled s"
    using unanswered_cancelled [of ?d spurious s] run by simp
  moreover have "timed_inv s" by (rule timed_run_inv [OF run])
  ultimately show "(\<nexists>s'. timed_step answers s s') \<longrightarrow> t_owner s = Gone \<and> t_watcher s = Exited \<and> \<not> t_alive s \<and>
       (\<not> answers \<longrightarrow> t_cancelled s)"
    using timed_progress [of s answers] timed_invD(3,4) [of s] by fastforce
qed

theorem deadline_terminates_witness:
  "\<exists>n. (timed_step False ^^ n) (timed_init 1 0) sample_due \<and> n \<le> 24"
proof -
  have d: "unat (timeout_seconds (Some (ascii ''1s''))) = 1"
    by (simp add: timeout_seconds_def atoi_def strtol_def digits_value_def is_space_def is_digit_def cstr_def ascii_def
        word_sless_alt)
  obtain n where n: "(timed_step False ^^ n) (timed_init 1 0) sample_due"
    using sample_due_reached by (auto simp: rtranclp_power)
  then have "(timed_step False ^^ n) (timed_init (unat (timeout_seconds (Some (ascii ''1s'')))) 0) sample_due"
    unfolding d .
  from deadline_terminates [OF this] n show ?thesis unfolding d by auto
qed

end
