(* ===== verification/Key_Store_Windows.thy ===== *)
theory Key_Store_Windows
  imports Libs Sample_Lib Master_Key "HOL-Library.AList"
begin

text \<open>
  \<open>platform/windows/secure_key_store_windows.cpp\<close>: the master key encrypted by DPAPI for the user's account and
  kept in the file \<open>ZiaCrypte\master.key.dpapi\<close> of the local application data.  DPAPI, the known-folder
  service and the file system are the parameter \<open>winlib\<close>; calls are numbered, as in \<open>Libs\<close>, so that each may
  fail on its own.
\<close>

section \<open>Windows\<close>

type_synonym wstring = "16 word list"

definition wide :: "string \<Rightarrow> wstring" where
  "wide cs = map of_char cs"

record winlib =
  known_folder :: "nat \<Rightarrow> wstring option"
  win_ok :: "nat \<Rightarrow> bool"
  win_done :: "nat \<Rightarrow> nat"
  CryptProtectData :: "nat \<Rightarrow> bytes \<Rightarrow> bytes option"
  CryptUnprotectData :: "bytes \<Rightarrow> bytes option"

text \<open>
  \<open>known_folder\<close> is \<open>SHGetKnownFolderPath\<close>; \<open>win_done k\<close> how many bytes the failing transfer number \<open>k\<close> moved;
  \<open>CryptProtectData\<close> takes the number of its call, since its result is randomised.
\<close>

record windows =
  win_files :: "(wstring \<times> bytes) list"
  win_calls :: nat
  win_draw :: nat

definition win_call :: "windows \<Rightarrow> nat \<times> windows" where
  "win_call s = (win_calls s, s\<lparr>win_calls := Suc (win_calls s)\<rparr>)"

definition win_get :: "windows \<Rightarrow> wstring \<Rightarrow> bytes option" where
  "win_get s path = map_of (win_files s) path"

definition win_put :: "wstring \<Rightarrow> bytes \<Rightarrow> windows \<Rightarrow> windows" where
  "win_put path content s = s\<lparr>win_files := AList.update path content (win_files s)\<rparr>"

lemma win_get_put [simp]: "win_get (win_put p c s) q = (if q = p then Some c else win_get s q)"
  by (simp add: win_get_def win_put_def update_conv)

lemma win_get_frames [simp]:
  "win_get (s\<lparr>win_calls := n\<rparr>) p = win_get s p" "win_get (s\<lparr>win_draw := d\<rparr>) p = win_get s p"
  by (simp_all add: win_get_def)

lemma win_put_frames [simp]: "win_calls (win_put p c s) = win_calls s" "win_draw (win_put p c s) = win_draw s"
  by (simp_all add: win_put_def)

section \<open>Files\<close>

text \<open>Creating the directory is one call whose result is not looked at.\<close>

definition backslash :: "16 word" where "backslash = 92"

definition key_file :: "wstring \<Rightarrow> wstring" where
  "key_file base = base @ [backslash] @ wide ''ZiaCrypte'' @ [backslash] @ wide ''master.key.dpapi''"

definition key_file_path :: "winlib \<Rightarrow> windows \<Rightarrow> wstring \<times> windows" where
  "key_file_path W s =
     (let (i, s1) = win_call s in
      case known_folder W i of
        None \<Rightarrow> ([], s1)
      | Some local_app_data \<Rightarrow> (key_file local_app_data, snd (win_call s1)))"

text \<open>A read that fails half-way ends the iteration like the end of the file, unnoticed.\<close>

definition win_read_file :: "winlib \<Rightarrow> wstring \<Rightarrow> windows \<Rightarrow> bytes option \<times> windows" where
  "win_read_file W path s =
     (let (i, s1) = win_call s in
      case (win_ok W i, win_get s1 path) of
        (True, Some content) \<Rightarrow>
          let (j, s2) = win_call s1 in (Some (if win_ok W j then content else take (win_done W j) content), s2)
      | _ \<Rightarrow> (None, s1))"

text \<open>Opening truncates; \<open>f.good()\<close> is tested before the buffer is flushed by the destructor.\<close>

definition win_write_file :: "winlib \<Rightarrow> wstring \<Rightarrow> bytes \<Rightarrow> windows \<Rightarrow> bool \<times> windows" where
  "win_write_file W path content s =
     (let (i, s1) = win_call s in
      if \<not> win_ok W i then (False, s1) else
      let (j, s2) = win_call (win_put path [] s1) in
      if \<not> win_ok W j then (False, win_put path (take (win_done W j) content) s2) else
      let (k, s3) = win_call s2 in
      (True, win_put path (if win_ok W k then content else take (win_done W k) content) s3))"

section \<open>WindowsSecureKeyStore\<close>

definition win_has_master_key :: "winlib \<Rightarrow> windows \<Rightarrow> bool \<times> windows" where
  "win_has_master_key W s =
     (let (path, s1) = key_file_path W s in
      if path = [] then (False, s1) else
      let (i, s2) = win_call s1 in (win_ok W i \<and> win_get s2 path \<noteq> None, s2))"

definition win_generate_and_store_master_key :: "lib \<Rightarrow> winlib \<Rightarrow> windows \<Rightarrow> bytes option \<times> windows" where
  "win_generate_and_store_master_key L W s =
     (let (path, s1) = key_file_path W s in
      if path = [] then (None, s1) else
      let out_key = randombytes_buf L (win_draw s1) KEYBYTES;
          (i, s2) = win_call (s1\<lparr>win_draw := Suc (win_draw s1)\<rparr>)
      in case CryptProtectData W i out_key of
           None \<Rightarrow> (None, s2)
         | Some encrypted \<Rightarrow>
             let (ok, s3) = win_write_file W path encrypted s2 in (if ok then Some out_key else None, s3))"

text \<open>The size of the blob is cast to a 32-bit \<open>DWORD\<close>.\<close>

definition win_load_master_key :: "winlib \<Rightarrow> windows \<Rightarrow> bytes option \<times> windows" where
  "win_load_master_key W s =
     (let (path, s1) = key_file_path W s in
      if path = [] then (None, s1) else
      let (content, s2) = win_read_file W path s1 in
      case content of
        None \<Rightarrow> (None, s2)
      | Some blob \<Rightarrow>
          if blob = [] then (None, s2)
          else case CryptUnprotectData W (take (length blob mod 2 ^ 32) blob) of
            None \<Rightarrow> (None, s2)
          | Some decrypted \<Rightarrow> (if length decrypted = KEYBYTES then Some decrypted else None, s2))"

definition win_delete_master_key :: "winlib \<Rightarrow> windows \<Rightarrow> bool \<times> windows" where
  "win_delete_master_key W s =
     (let (path, s1) = key_file_path W s in
      if path = [] then (False, s1) else
      let (i, s2) = win_call s1 in
      if win_ok W i \<and> win_get s2 path \<noteq> None
      then (True, s2\<lparr>win_files := AList.delete path (win_files s2)\<rparr>) else (False, s2))"

section \<open>What is documented of the services\<close>

text \<open>What DPAPI encrypts for a user it decrypts for that user.\<close>

definition dpapi_ok :: "winlib \<Rightarrow> bool" where
  "dpapi_ok W \<longleftrightarrow>
     (\<forall>i k. length k = KEYBYTES \<longrightarrow> (\<exists>c. CryptProtectData W i k = Some c \<and> c \<noteq> [] \<and> length c < 2 ^ 32 \<and>
        CryptUnprotectData W c = Some k))"

text \<open>From now on every call succeeds, and the folder is \<open>base\<close>.\<close>

definition windows_works :: "winlib \<Rightarrow> wstring \<Rightarrow> windows \<Rightarrow> bool" where
  "windows_works W base s \<longleftrightarrow> (\<forall>i \<ge> win_calls s. win_ok W i \<and> known_folder W i = Some base)"

text \<open>The key a blob yields.\<close>

definition blob_key :: "winlib \<Rightarrow> bytes \<Rightarrow> bytes option" where
  "blob_key W blob =
     (if blob = [] then None
      else case CryptUnprotectData W (take (length blob mod 2 ^ 32) blob) of
        None \<Rightarrow> None
      | Some k \<Rightarrow> if length k = KEYBYTES then Some k else None)"

definition win_stored :: "winlib \<Rightarrow> wstring \<Rightarrow> windows \<Rightarrow> bytes option" where
  "win_stored W base s = Option.bind (win_get s (key_file base)) (blob_key W)"

text \<open>The key file, if there is one, holds a key.\<close>

definition windows_inv :: "lib \<Rightarrow> winlib \<Rightarrow> wstring \<Rightarrow> windows \<Rightarrow> bool" where
  "windows_inv L W base s \<longleftrightarrow>
     sizes_ok L \<and> dpapi_ok W \<and> windows_works W base s \<and>
     (\<forall>blob. win_get s (key_file base) = Some blob \<longrightarrow> blob_key W blob \<noteq> None)"

section \<open>Behaviour on a working system\<close>

lemma key_file_not_empty [simp]: "key_file base \<noteq> []"
  by (simp add: key_file_def)

lemma works_later: "windows_works W base s \<Longrightarrow> win_calls s \<le> win_calls s' \<Longrightarrow> windows_works W base s'"
  by (simp add: windows_works_def)

lemma path_works:
  "windows_works W base s \<Longrightarrow> key_file_path W s = (key_file base, s\<lparr>win_calls := Suc (Suc (win_calls s))\<rparr>)"
  by (simp add: key_file_path_def windows_works_def win_call_def)

lemma has_works:
  assumes "windows_works W base s"
  shows "win_has_master_key W s =
    (win_get s (key_file base) \<noteq> None, s\<lparr>win_calls := Suc (Suc (Suc (win_calls s)))\<rparr>)"
  using path_works [OF assms] assms
  by (simp add: win_has_master_key_def win_call_def windows_works_def)

lemma load_works:
  assumes "windows_works W base s"
  shows "\<exists>n \<ge> win_calls s. win_load_master_key W s = (win_stored W base s, s\<lparr>win_calls := n\<rparr>)"
proof -
  have ok: "win_ok W (Suc (Suc (win_calls s)))" "win_ok W (Suc (Suc (Suc (win_calls s))))"
    using assms by (simp_all add: windows_works_def)
  show ?thesis
  proof (cases "win_get s (key_file base)")
    case None
    with ok path_works [OF assms] show ?thesis
      by (intro exI [of _ "Suc (Suc (Suc (win_calls s)))"])
        (simp add: win_load_master_key_def win_read_file_def win_call_def win_stored_def)
  next
    case (Some blob)
    with ok path_works [OF assms] show ?thesis
      by (intro exI [of _ "Suc (Suc (Suc (Suc (win_calls s))))"])
        (auto simp: win_load_master_key_def win_read_file_def win_call_def win_stored_def blob_key_def
          split: option.split)
  qed
qed

lemma generate_works:
  assumes "windows_works W base s" "sizes_ok L" "dpapi_ok W"
  shows "\<exists>k c n. win_generate_and_store_master_key L W s =
      (Some k, (win_put (key_file base) c s)\<lparr>win_calls := n, win_draw := Suc (win_draw s)\<rparr>) \<and>
    length k = KEYBYTES \<and> win_calls s \<le> n \<and> blob_key W c = Some k"
proof -
  let ?k = "randombytes_buf L (win_draw s) KEYBYTES"
  have k: "length ?k = KEYBYTES" by (simp add: sizes_lens [OF assms(2)])
  obtain c where c: "CryptProtectData W (Suc (Suc (win_calls s))) ?k = Some c" "c \<noteq> []" "length c < 2 ^ 32"
    "CryptUnprotectData W c = Some ?k" using assms(3) k unfolding dpapi_ok_def by blast
  have ok: "win_ok W (Suc (Suc (Suc (win_calls s))))" "win_ok W (Suc (Suc (Suc (Suc (win_calls s)))))"
    "win_ok W (Suc (Suc (Suc (Suc (Suc (win_calls s))))))" using assms(1) by (simp_all add: windows_works_def)
  have "blob_key W c = Some ?k" using c k by (simp add: blob_key_def)
  moreover have "win_generate_and_store_master_key L W s =
      (Some ?k, (win_put (key_file base) c s)\<lparr>win_calls := 6 + win_calls s, win_draw := Suc (win_draw s)\<rparr>)"
    using path_works [OF assms(1)] ok c(1)
    by (simp add: win_generate_and_store_master_key_def win_write_file_def win_call_def win_put_def Let_def eval_nat_numeral)
  ultimately show ?thesis using k by (intro exI conjI) auto
qed

lemma win_stored_None:
  "windows_inv L W base s \<Longrightarrow> win_stored W base s \<noteq> None \<longleftrightarrow> win_get s (key_file base) \<noteq> None"
  by (auto simp: windows_inv_def win_stored_def bind_eq_Some_conv)

interpretation win: secure_key_store "win_has_master_key W" "win_load_master_key W"
  "win_generate_and_store_master_key L W" "win_delete_master_key W" "windows_inv L W base" "win_stored W base" for L W base
proof unfold_locales
  fix s s' :: windows and r :: "bytes option" and b :: bool
  assume i: "windows_inv L W base s"
  then have w: "windows_works W base s" by (simp add: windows_inv_def)
  have later: "windows_inv L W base (s\<lparr>win_calls := n\<rparr>)" "win_stored W base (s\<lparr>win_calls := n\<rparr>) = win_stored W base s"
    if "win_calls s \<le> n" for n
    using i that works_later [OF w] by (simp_all add: windows_inv_def win_stored_def)
  show "b = (win_stored W base s \<noteq> None) \<and> windows_inv L W base s' \<and> win_stored W base s' = win_stored W base s"
    if "win_has_master_key W s = (b, s')"
    using that has_works [OF w] win_stored_None [OF i] later by auto
  show "r = win_stored W base s \<and> windows_inv L W base s' \<and> win_stored W base s' = win_stored W base s"
    if "win_load_master_key W s = (r, s')"
    using that load_works [OF w] later by auto
  show "\<exists>k. r = Some k \<and> length k = KEYBYTES \<and> windows_inv L W base s' \<and> win_stored W base s' = Some k"
    if "win_generate_and_store_master_key L W s = (r, s')"
  proof -
    have "sizes_ok L" "dpapi_ok W" using i by (simp_all add: windows_inv_def)
    from generate_works [OF w this] that i show ?thesis
      by (auto simp: windows_inv_def windows_works_def win_stored_def)
  qed
  show "(win_stored W base s \<noteq> None \<longrightarrow> b) \<and> windows_inv L W base s' \<and> win_stored W base s' = None"
    if "win_delete_master_key W s = (b, s')"
    using that i path_works [OF w] win_stored_None [OF i]
    by (auto simp: win_delete_master_key_def win_call_def windows_inv_def windows_works_def win_stored_def win_get_def
        delete_conv split: if_splits)
qed

text \<open>The platform as its clients use it: requests for the key, and sequences of calls.\<close>

abbreviation win_obtain :: "lib \<Rightarrow> winlib \<Rightarrow> windows \<Rightarrow> bytes option \<times> windows" where
  "win_obtain L W \<equiv> obtain_master_key (win_has_master_key W) (win_load_master_key W) (win_generate_and_store_master_key L W)"

abbreviation win_run :: "lib \<Rightarrow> winlib \<Rightarrow> ks_call list \<Rightarrow> windows \<Rightarrow> (ks_call \<times> ks_answer) list \<times> windows" where
  "win_run L W \<equiv> run_key_store (win_has_master_key W) (win_load_master_key W) (win_generate_and_store_master_key L W)
     (win_delete_master_key W)"

section \<open>A key file that cannot be decrypted\<close>

definition unloadable :: "winlib \<Rightarrow> wstring \<Rightarrow> windows \<Rightarrow> bool" where
  "unloadable W base s \<longleftrightarrow>
     windows_works W base s \<and> (\<exists>blob. win_get s (key_file base) = Some blob \<and> blob_key W blob = None)"

lemma unloadable_call:
  assumes "unloadable W base s" "c \<in> {Has, Load, Obtain}"
    and "call_key_store (win_has_master_key W) (win_load_master_key W) (win_generate_and_store_master_key L W)
      (win_delete_master_key W) c s = (a, s')"
  shows "unloadable W base s' \<and> a \<in> {Answer True, Key None}"
proof -
  have w: "windows_works W base s" using assms(1) by (simp add: unloadable_def)
  have later: "unloadable W base (s\<lparr>win_calls := n\<rparr>)" if "win_calls s \<le> n" for n
    using assms(1) that works_later [OF w] by (simp add: unloadable_def)
  let ?s1 = "s\<lparr>win_calls := Suc (Suc (Suc (win_calls s)))\<rparr>"
  have has: "win_has_master_key W s = (True, ?s1)"
    using has_works [OF w] assms(1) by (auto simp: unloadable_def)
  have load: "\<exists>n \<ge> win_calls u. win_load_master_key W u = (None, u\<lparr>win_calls := n\<rparr>)" if "unloadable W base u" for u
    using load_works [of W base u] that by (auto simp: unloadable_def win_stored_def)
  obtain n where n: "win_calls s \<le> n" "win_load_master_key W s = (None, s\<lparr>win_calls := n\<rparr>)"
    using load [OF assms(1)] by blast
  obtain m where m: "win_calls ?s1 \<le> m" "win_load_master_key W ?s1 = (None, ?s1\<lparr>win_calls := m\<rparr>)"
    using load [of ?s1] later by auto
  from assms(2,3) has n m later show ?thesis by (auto simp: call_key_store_def obtain_master_key_def)
qed

lemma unloadable_run:
  assumes "unloadable W base s" "set cs \<subseteq> {Has, Load, Obtain}"
    and "win_run L W cs s = (t, s')"
  shows "snd ` set t \<subseteq> {Answer True, Key None}"
  using assms
proof (induction cs arbitrary: s t)
  case (Cons c cs)
  from Cons.prems(3) obtain a s1 t' where r: "call_key_store (win_has_master_key W) (win_load_master_key W)
      (win_generate_and_store_master_key L W) (win_delete_master_key W) c s = (a, s1)"
    "win_run L W cs s1 = (t', s')" "t = (c, a) # t'"
    by (auto split: prod.splits)
  have u: "unloadable W base s1 \<and> a \<in> {Answer True, Key None}"
    using unloadable_call [OF Cons.prems(1) _ r(1)] Cons.prems(2) by auto
  have "snd ` set t' \<subseteq> {Answer True, Key None}" by (rule Cons.IH [OF _ _ r(2)]) (use u Cons.prems(2) in auto)
  with u r(3) show ?case by auto
qed simp

section \<open>Properties\<close>

text \<open>A Windows system on which everything works: blobs are the key with a byte in front.\<close>

definition sample_win :: winlib where
  "sample_win = \<lparr>known_folder = \<lambda>i. Some (wide ''C''), win_ok = \<lambda>i. True, win_done = \<lambda>i. 0,
     CryptProtectData = \<lambda>i k. Some (1 # k), CryptUnprotectData = \<lambda>c. case c of [] \<Rightarrow> None | x # k \<Rightarrow> Some k\<rparr>"

definition fresh_windows :: windows where
  "fresh_windows = \<lparr>win_files = [], win_calls = 0, win_draw = 0\<rparr>"

lemma sample_dpapi_ok: "dpapi_ok (sample_win\<lparr>win_ok := f\<rparr>)"
  by (simp add: dpapi_ok_def sample_win_def KEYBYTES_def)

lemma fresh_windows_inv: "windows_inv sample_lib sample_win (wide ''C'') fresh_windows"
proof -
  have "dpapi_ok sample_win" using sample_dpapi_ok [of "win_ok sample_win"] by simp
  then show ?thesis
    by (simp add: windows_inv_def sample_sizes_ok) (simp add: windows_works_def sample_win_def fresh_windows_def win_get_def)
qed

text \<open>
  C20 (refinement).  On Windows the master key store is the abstract store of one key as well: from a state where
  the system works and the key file, if any, holds a key, every sequence of calls gets the answers of the
  machine \<open>ks_step\<close>, and a held key is returned until it is deleted or regenerated.
\<close>

theorem windows_key_store_refines:
  assumes "windows_inv L W base s"
    and "win_run L W cs s = (t, s')"
  shows "ks_trace (win_stored W base s) t (win_stored W base s') \<and> map fst t = cs \<and> windows_inv L W base s' \<and>
    (\<forall>k. win_stored W base s = Some k \<and> Generate \<notin> set cs \<and> Delete \<notin> set cs \<longrightarrow>
       win_stored W base s' = Some k \<and> (\<forall>x\<in>set t. snd x = Answer True \<or> snd x = Key (Some k)))"
  using win.run_refines [OF assms] win.key_kept [OF assms(1) _ assms(2)] by blast

theorem windows_key_store_refines_witness:
  "\<exists>t s'. win_run sample_lib sample_win
     [Obtain, Load, Delete, Has] fresh_windows = (t, s') \<and> ks_trace None t None"
proof -
  obtain t s' where r: "win_run sample_lib sample_win
     [Obtain, Load, Delete, Has] fresh_windows = (t, s')" by fastforce
  note p = windows_key_store_refines [OF fresh_windows_inv r]
  have z: "win_stored sample_win (wide ''C'') fresh_windows = None"
    by (simp add: win_stored_def win_get_def fresh_windows_def)
  obtain a b c d where t: "t = [(Obtain, a), (Load, b), (Delete, c), (Has, d)]" using p by (auto simp: map_eq_Cons_conv)
  have "win_stored sample_win (wide ''C'') s' = None" using p unfolding t by (auto simp: ks_step_simps)
  with p z r show ?thesis by auto
qed

text \<open>
  A full disk at the first start locks the user out of the key store for good.  \<open>write_file\<close> tests
  the stream before it is flushed: the request reports success with a key that was never written, everything
  is encrypted under that key, and from then on the store says that a key is there and fails to load it,
  in every later call, until somebody deletes the file.
\<close>

lemma windows_unseen_flush_failure:
  assumes "sizes_ok L" "dpapi_ok W" "win_get s (key_file base) = None"
    and "\<And>i. known_folder W i = Some base" "\<And>i. win_ok W i \<longleftrightarrow> i \<noteq> win_calls s + 8" "win_done W (win_calls s + 8) = 0"
  shows "\<exists>k s'. win_obtain L W s = (Some k, s') \<and>
    (\<forall>cs t s''. set cs \<subseteq> {Has, Load, Obtain} \<longrightarrow>
       win_run L W cs s' = (t, s'') \<longrightarrow>
       (\<forall>x\<in>set t. snd x = Answer True \<or> snd x = Key None))"
proof -
  let ?k = "randombytes_buf L (win_draw s) KEYBYTES" and ?f = "key_file base" and ?c = "win_calls s"
  let ?s' = "(win_put ?f [] s)\<lparr>win_calls := ?c + 9, win_draw := Suc (win_draw s)\<rparr>"
  obtain c where c: "CryptProtectData W (Suc (Suc (Suc (Suc (Suc ?c))))) ?k = Some c"
    using assms(2) sizes_lens(2) [OF assms(1)] unfolding dpapi_ok_def by blast
  have "win_obtain L W s = (Some ?k, ?s')"
    using assms(3-6) c
    by (simp add: obtain_master_key_def win_has_master_key_def win_generate_and_store_master_key_def key_file_path_def
        win_write_file_def win_call_def win_put_def eval_nat_numeral Let_def)
  moreover have "unloadable W base ?s'"
    using assms(4,5) by (simp add: unloadable_def windows_works_def blob_key_def)
  ultimately show ?thesis using unloadable_run [of W base ?s'] by blast
qed

text \<open>
  As on Linux, a query that fails is taken for an absent key: the next step overwrites the key file.
\<close>

lemma windows_failed_query_replaces_key:
  assumes "windows_works W base (s\<lparr>win_calls := win_calls s + 3\<rparr>)" "sizes_ok L" "dpapi_ok W"
    and "known_folder W (win_calls s) = Some base" "\<not> win_ok W (win_calls s + 2)"
  shows "\<exists>k s'. win_obtain L W s = (Some k, s') \<and> win_stored W base s' = Some k \<and>
      k = randombytes_buf L (win_draw s) KEYBYTES"
proof -
  let ?s = "s\<lparr>win_calls := Suc (Suc (Suc (win_calls s)))\<rparr>"
  have "win_has_master_key W s = (False, ?s)"
    using assms(4,5) by (simp add: win_has_master_key_def key_file_path_def win_call_def)
  moreover have w: "windows_works W base ?s" using assms(1) by (simp add: eval_nat_numeral)
  obtain k c n where "win_generate_and_store_master_key L W ?s =
      (Some k, (win_put (key_file base) c ?s)\<lparr>win_calls := n, win_draw := Suc (win_draw ?s)\<rparr>)"
    "blob_key W c = Some k" using generate_works [OF w assms(2,3)] by blast
  moreover from this(1) have "k = randombytes_buf L (win_draw s) KEYBYTES"
    using path_works [OF w]
    by (auto simp: win_generate_and_store_master_key_def win_call_def Let_def split: option.splits prod.splits if_splits)
  ultimately show ?thesis by (simp add: obtain_master_key_def win_stored_def)
qed

end
