(* ===== verification/Key_Store_Android.thy ===== *)
theory Key_Store_Android
  imports Master_Key
begin

text \<open>
  \<open>platform/android/secure_key_store_android.cpp\<close> and the class it calls through JNI,
  \<open>app/android/app/src/main/kotlin/com/ziacrypte/KeyStoreBridge.kt\<close>: the master key encrypted under an AES key
  that never leaves the Android Keystore, kept in the preferences of the application.  The Java runtime and
  the Android framework are the parameter \<open>java\<close>; their calls are numbered and may fail one by one.
\<close>

section \<open>The runtime and the framework\<close>

text \<open>
  \<open>attach_ok\<close>: \<open>AttachCurrentThread\<close>.  \<open>class_found\<close>, \<open>global_ok\<close>: \<open>FindClass\<close> and \<open>NewGlobalRef\<close> on the bridge class.
  \<open>method_found\<close>: \<open>GetStaticMethodID\<close>.  \<open>call_throws\<close>: the invocation itself ends with an exception.  \<open>java_ok\<close>: a
  framework call inside the bridge returns normally.  The rest are \<open>SecureRandom\<close>, \<open>KeyGenerator\<close>, AES-GCM with the
  initialisation vector chosen by the cipher, and \<open>Base64\<close>.
\<close>

record java =
  attach_ok :: "nat \<Rightarrow> bool"
  class_found :: bool
  global_ok :: bool
  method_found :: "string \<Rightarrow> bool"
  call_throws :: "nat \<Rightarrow> bool"
  java_ok :: "nat \<Rightarrow> bool"
  secure_random :: "nat \<Rightarrow> nat \<Rightarrow> bytes"
  generate_aes :: "nat \<Rightarrow> bytes"
  gcm_iv :: "nat \<Rightarrow> bytes"
  gcm_encrypt :: "bytes \<Rightarrow> bytes \<Rightarrow> bytes \<Rightarrow> bytes"
  gcm_decrypt :: "bytes \<Rightarrow> bytes \<Rightarrow> bytes \<Rightarrow> bytes option"
  b64_encode :: "bytes \<Rightarrow> bytes"
  b64_decode :: "bytes \<Rightarrow> bytes option"

text \<open>
  The globals \<open>g_jvm\<close> and \<open>g_bridge_class\<close> (set or null), the calling thread (attached to the virtual machine,
  with an exception pending), the bridge (its context set, the preference entry in memory and on disk), and the
  key under the alias in the Keystore.
\<close>

record android =
  g_jvm :: bool
  g_bridge_class :: bool
  an_attached :: bool
  an_pending :: bool
  an_context :: bool
  an_prefs :: "bytes option"
  an_disk :: "bytes option"
  an_wrapper :: "bytes option"
  an_calls :: nat

definition java_call :: "android \<Rightarrow> nat \<times> android" where
  "java_call s = (an_calls s, s\<lparr>an_calls := Suc (an_calls s)\<rparr>)"

section \<open>KeyStoreBridge\<close>

definition MASTER_KEY_SIZE :: nat where "MASTER_KEY_SIZE = 32"
definition GCM_IV_SIZE :: nat where "GCM_IV_SIZE = 12"

text \<open>\<open>appContext\<close> is a \<open>lateinit\<close> property: using it before \<open>init\<close> throws.\<close>

definition bridge_init :: "android \<Rightarrow> android" where
  "bridge_init s = s\<lparr>an_context := True\<rparr>"

text \<open>A throwing function returns \<open>None\<close>; \<open>runCatching\<close> turns that into the default.\<close>

definition prefs :: "java \<Rightarrow> android \<Rightarrow> bool \<times> android" where
  "prefs J s = (let (i, s1) = java_call s in (an_context s1 \<and> java_ok J i, s1))"

definition wrapperKey :: "java \<Rightarrow> android \<Rightarrow> bytes option \<times> android" where
  "wrapperKey J s =
     (let (i, s1) = java_call s in
      if \<not> java_ok J i then (None, s1)
      else case an_wrapper s1 of
        Some k \<Rightarrow> (Some k, s1)
      | None \<Rightarrow>
          let (j, s2) = java_call s1 in
          if \<not> java_ok J j then (None, s2)
          else (Some (generate_aes J j), s2\<lparr>an_wrapper := Some (generate_aes J j)\<rparr>))"

definition hasMasterKey :: "java \<Rightarrow> android \<Rightarrow> bool \<times> android" where
  "hasMasterKey J s = (let (ok, s1) = prefs J s in (ok \<and> an_prefs s1 \<noteq> None, s1))"

text \<open>\<open>apply()\<close> changes the preferences in memory; the disk follows later.\<close>

definition generateMasterKey :: "java \<Rightarrow> android \<Rightarrow> bytes option \<times> android" where
  "generateMasterKey J s =
     (let (i, s1) = java_call s; master = secure_random J i MASTER_KEY_SIZE; (wk, s2) = wrapperKey J s1 in
      case wk of
        None \<Rightarrow> (None, s2)
      | Some k \<Rightarrow>
          let (j, s3) = java_call s2 in
          if \<not> java_ok J j then (None, s3)
          else let stored = gcm_iv J j @ gcm_encrypt J k (gcm_iv J j) master;
                   (ok, s4) = prefs J s3
               in if ok then (Some master, s4\<lparr>an_prefs := Some (b64_encode J stored)\<rparr>) else (None, s4))"

definition loadMasterKey :: "java \<Rightarrow> android \<Rightarrow> bytes option \<times> android" where
  "loadMasterKey J s =
     (let (ok, s1) = prefs J s in
      if \<not> ok then (None, s1)
      else case an_prefs s1 of
        None \<Rightarrow> (None, s1)
      | Some encoded \<Rightarrow>
          (case b64_decode J encoded of
             None \<Rightarrow> (None, s1)
           | Some stored \<Rightarrow>
               if length stored \<le> GCM_IV_SIZE then (None, s1)
               else let (wk, s2) = wrapperKey J s1 in
               (case wk of
                  None \<Rightarrow> (None, s2)
                | Some k \<Rightarrow> (gcm_decrypt J k (take GCM_IV_SIZE stored) (drop GCM_IV_SIZE stored), s2))))"

definition deleteMasterKey :: "java \<Rightarrow> android \<Rightarrow> bool \<times> android" where
  "deleteMasterKey J s =
     (let (ok, s1) = prefs J s in
      if \<not> ok then (False, s1)
      else let (i, s2) = java_call (s1\<lparr>an_prefs := None\<rparr>) in
      if \<not> java_ok J i then (False, s2) else (True, s2\<lparr>an_wrapper := None\<rparr>))"

section \<open>JNI\<close>

text \<open>The constructor: whether there is an environment, and \<open>must_detach\<close>.\<close>

definition AttachedEnv :: "java \<Rightarrow> android \<Rightarrow> (bool \<times> bool) \<times> android" where
  "AttachedEnv J s =
     (if \<not> g_jvm s then ((False, False), s)
      else if an_attached s then ((True, False), s)
      else let (i, s1) = java_call s in
      if attach_ok J i then ((True, True), s1\<lparr>an_attached := True\<rparr>) else ((False, False), s1))"

text \<open>The destructor.\<close>

definition detach :: "bool \<Rightarrow> android \<Rightarrow> android" where
  "detach must_detach s = (if must_detach \<and> g_jvm s then s\<lparr>an_attached := False\<rparr> else s)"

definition clear_pending_exception :: "android \<Rightarrow> android" where
  "clear_pending_exception s = s\<lparr>an_pending := False\<rparr>"

text \<open>Looking a static method up, and calling it: a failure leaves an exception pending.\<close>

definition GetStaticMethodID :: "java \<Rightarrow> string \<Rightarrow> android \<Rightarrow> bool \<times> android" where
  "GetStaticMethodID J name s = (if method_found J name then (True, s) else (False, s\<lparr>an_pending := True\<rparr>))"

definition CallStaticMethod :: "java \<Rightarrow> 'a \<Rightarrow> (android \<Rightarrow> 'a \<times> android) \<Rightarrow> android \<Rightarrow> 'a \<times> android" where
  "CallStaticMethod J on_throw body s =
     (let (i, s1) = java_call s in
      if call_throws J i then (on_throw, s1\<lparr>an_pending := True\<rparr>) else body s1)"

section \<open>AndroidSecureKeyStore\<close>

text \<open>\<open>has_master_key\<close> and \<open>delete_master_key\<close> have the same body.\<close>

definition call_returning_bool :: "java \<Rightarrow> string \<Rightarrow> (android \<Rightarrow> bool \<times> android) \<Rightarrow> android \<Rightarrow> bool \<times> android" where
  "call_returning_bool J name body s =
     (let ((env, must_detach), s1) = AttachedEnv J s in
      if \<not> (env \<and> g_bridge_class s1) then (False, detach must_detach s1)
      else let (method, s2) = GetStaticMethodID J name s1 in
      if \<not> method then (False, detach must_detach (clear_pending_exception s2))
      else let (result, s3) = CallStaticMethod J False body s2 in
      (result, detach must_detach (clear_pending_exception s3)))"

definition call_returning_key :: "java \<Rightarrow> string \<Rightarrow> (android \<Rightarrow> bytes option \<times> android) \<Rightarrow> android \<Rightarrow> bytes option \<times> android" where
  "call_returning_key J name body s =
     (let ((env, must_detach), s1) = AttachedEnv J s in
      if \<not> (env \<and> g_bridge_class s1) then (None, detach must_detach s1)
      else let (method, s2) = GetStaticMethodID J name s1 in
      if \<not> method then (None, detach must_detach (clear_pending_exception s2))
      else let (bytes, s3) = CallStaticMethod J None body s2 in
      case bytes of
        None \<Rightarrow> (None, detach must_detach (clear_pending_exception s3))
      | Some out_key \<Rightarrow>
          if an_pending s3 then (None, detach must_detach (clear_pending_exception s3))
          else (if length out_key > 0 then Some out_key else None, detach must_detach (clear_pending_exception s3)))"

definition android_has_master_key :: "java \<Rightarrow> android \<Rightarrow> bool \<times> android" where
  "android_has_master_key J = call_returning_bool J ''hasMasterKey'' (hasMasterKey J)"

definition android_generate_and_store_master_key :: "java \<Rightarrow> android \<Rightarrow> bytes option \<times> android" where
  "android_generate_and_store_master_key J = call_returning_key J ''generateMasterKey'' (generateMasterKey J)"

definition android_load_master_key :: "java \<Rightarrow> android \<Rightarrow> bytes option \<times> android" where
  "android_load_master_key J = call_returning_key J ''loadMasterKey'' (loadMasterKey J)"

definition android_delete_master_key :: "java \<Rightarrow> android \<Rightarrow> bool \<times> android" where
  "android_delete_master_key J = call_returning_bool J ''deleteMasterKey'' (deleteMasterKey J)"

definition JNI_VERSION_1_6 :: "32 word" where "JNI_VERSION_1_6 = 0x00010006"

text \<open>The library is loaded on a thread of the virtual machine, if it is attached; else no class is resolved.\<close>

definition JNI_OnLoad :: "java \<Rightarrow> android \<Rightarrow> 32 word \<times> android" where
  "JNI_OnLoad J s =
     (let s1 = s\<lparr>g_jvm := True\<rparr> in
      (JNI_VERSION_1_6,
       if an_attached s1
       then (if class_found J then s1\<lparr>g_bridge_class := global_ok J\<rparr> else s1\<lparr>an_pending := False\<rparr>)
       else s1))"

section \<open>Attachment and exceptions are balanced\<close>

text \<open>A body that runs in the bridge touches neither the thread nor the globals, and leaves the disk for later.\<close>

definition quiet :: "(android \<Rightarrow> 'a \<times> android) \<Rightarrow> bool" where
  "quiet body \<longleftrightarrow> (\<forall>s. an_attached (snd (body s)) = an_attached s \<and> an_pending (snd (body s)) = an_pending s \<and>
     g_jvm (snd (body s)) = g_jvm s \<and> g_bridge_class (snd (body s)) = g_bridge_class s \<and> an_disk (snd (body s)) = an_disk s)"

lemma wrapperKey_frames [simp]:
  "an_attached (snd (wrapperKey J s)) = an_attached s" "an_pending (snd (wrapperKey J s)) = an_pending s"
  "g_jvm (snd (wrapperKey J s)) = g_jvm s" "g_bridge_class (snd (wrapperKey J s)) = g_bridge_class s"
  "an_context (snd (wrapperKey J s)) = an_context s" "an_prefs (snd (wrapperKey J s)) = an_prefs s"
  "an_disk (snd (wrapperKey J s)) = an_disk s"
  by (auto simp: wrapperKey_def java_call_def Let_def split: option.split)

lemma hasMasterKey_quiet: "quiet (hasMasterKey J)"
  by (simp add: quiet_def hasMasterKey_def prefs_def java_call_def Let_def)

lemma deleteMasterKey_quiet: "quiet (deleteMasterKey J)"
  by (simp add: quiet_def deleteMasterKey_def prefs_def java_call_def Let_def)

lemma generateMasterKey_quiet: "quiet (generateMasterKey J)"
  by (simp add: quiet_def generateMasterKey_def prefs_def java_call_def case_prod_beta Let_def split: option.split)

lemma loadMasterKey_quiet: "quiet (loadMasterKey J)"
  by (simp add: quiet_def loadMasterKey_def prefs_def java_call_def case_prod_beta Let_def split: option.split)

definition balanced :: "(android \<Rightarrow> 'a \<times> android) \<Rightarrow> bool" where
  "balanced f \<longleftrightarrow> (\<forall>s. \<not> an_pending s \<longrightarrow>
     an_attached (snd (f s)) = an_attached s \<and> \<not> an_pending (snd (f s)) \<and>
     g_jvm (snd (f s)) = g_jvm s \<and> g_bridge_class (snd (f s)) = g_bridge_class s)"

lemma call_returning_bool_balanced: "quiet body \<Longrightarrow> balanced (call_returning_bool J name body)"
  by (auto simp: balanced_def quiet_def call_returning_bool_def AttachedEnv_def detach_def clear_pending_exception_def
      GetStaticMethodID_def CallStaticMethod_def java_call_def case_prod_beta Let_def)

lemma call_returning_key_balanced: "quiet body \<Longrightarrow> balanced (call_returning_key J name body)"
  by (auto simp: balanced_def quiet_def call_returning_key_def AttachedEnv_def detach_def clear_pending_exception_def
      GetStaticMethodID_def CallStaticMethod_def java_call_def case_prod_beta Let_def split: option.split)

section \<open>A working device\<close>

text \<open>Documented behaviour of the random generator, AES-GCM and Base64.\<close>

definition java_laws :: "java \<Rightarrow> bool" where
  "java_laws J \<longleftrightarrow>
     (\<forall>i n. length (secure_random J i n) = n) \<and> (\<forall>i. length (gcm_iv J i) = GCM_IV_SIZE) \<and>
     (\<forall>k iv m. gcm_encrypt J k iv m \<noteq> [] \<and> gcm_decrypt J k iv (gcm_encrypt J k iv m) = Some m) \<and>
     (\<forall>x. b64_decode J (b64_encode J x) = Some x)"

text \<open>The library is loaded, the bridge has its context, and from now on every call succeeds.\<close>

definition android_ready :: "java \<Rightarrow> android \<Rightarrow> bool" where
  "android_ready J s \<longleftrightarrow>
     g_jvm s \<and> g_bridge_class s \<and> an_context s \<and> \<not> an_pending s \<and> (\<forall>name. method_found J name) \<and>
     (\<forall>i \<ge> an_calls s. attach_ok J i \<and> java_ok J i \<and> \<not> call_throws J i)"

text \<open>The key the preference entry yields under the key of the Keystore.\<close>

definition android_stored :: "java \<Rightarrow> android \<Rightarrow> bytes option" where
  "android_stored J s =
     (case (an_prefs s, an_wrapper s) of
        (Some encoded, Some k) \<Rightarrow>
          (case b64_decode J encoded of
             None \<Rightarrow> None
           | Some stored \<Rightarrow> if length stored \<le> GCM_IV_SIZE then None
               else gcm_decrypt J k (take GCM_IV_SIZE stored) (drop GCM_IV_SIZE stored))
      | _ \<Rightarrow> None)"

definition android_inv :: "java \<Rightarrow> android \<Rightarrow> bool" where
  "android_inv J s \<longleftrightarrow> java_laws J \<and> android_ready J s \<and>
     (an_prefs s \<noteq> None \<longrightarrow> (\<exists>k. android_stored J s = Some k \<and> length k = KEYBYTES))"

text \<open>Two states that differ only in what a call may change besides the key.\<close>

definition same_key :: "android \<Rightarrow> android \<Rightarrow> bool" where
  "same_key s s' \<longleftrightarrow> an_prefs s' = an_prefs s \<and> an_wrapper s' = an_wrapper s \<and> an_disk s' = an_disk s"

lemma same_key_stored: "same_key s s' \<Longrightarrow> android_stored J s' = android_stored J s"
  by (simp add: same_key_def android_stored_def)

lemma same_key_inv: "android_inv J s \<Longrightarrow> same_key s s' \<Longrightarrow> android_ready J s' \<Longrightarrow> android_inv J s'"
  using same_key_stored [of s s'] by (simp add: android_inv_def same_key_def)

text \<open>Through JNI a body runs on a state with the same key, and afterwards only the thread is put back.\<close>

definition at_exit :: "android \<Rightarrow> android \<Rightarrow> android" where
  "at_exit s s' = s'\<lparr>an_pending := False, an_attached := an_attached s\<rparr>"

lemma call_setup:
  assumes "android_ready J s"
  obtains s1 where "android_ready J s1" "same_key s s1"
    "\<And>name body. quiet body \<Longrightarrow> call_returning_bool J name body s = (fst (body s1), at_exit s (snd (body s1)))"
    "\<And>name body. quiet body \<Longrightarrow> call_returning_key J name body s =
       (case fst (body s1) of None \<Rightarrow> None | Some k \<Rightarrow> if length k > 0 then Some k else None, at_exit s (snd (body s1)))"
proof
  let ?s1 = "if an_attached s then s\<lparr>an_calls := Suc (an_calls s)\<rparr>
    else s\<lparr>an_attached := True, an_calls := Suc (Suc (an_calls s))\<rparr>"
  show "android_ready J ?s1" "same_key s ?s1" using assms by (simp_all add: android_ready_def same_key_def)
  have ok: "g_jvm s" "g_bridge_class s" "\<not> an_pending s" "method_found J name"
    "attach_ok J (an_calls s)" "\<not> call_throws J (an_calls s)" "\<not> call_throws J (Suc (an_calls s))" for name
    using assms by (simp_all add: android_ready_def)
  have q: "an_attached (snd (body ?s1))" "\<not> an_pending (snd (body ?s1))" "g_jvm (snd (body ?s1))"
    if "quiet body" for body :: "android \<Rightarrow> 'b \<times> android"
    using that ok by (simp_all add: quiet_def)
  have put_back: "at_exit s u = u\<lparr>an_pending := False\<rparr>" if "an_attached s" "an_attached u" for u
    using that by (cases u) (simp add: at_exit_def)
  show "call_returning_bool J name body s = (fst (body ?s1), at_exit s (snd (body ?s1)))" if "quiet body" for name body
    using ok q [OF that]
    by (cases "an_attached s") (simp_all add: call_returning_bool_def AttachedEnv_def detach_def clear_pending_exception_def
      GetStaticMethodID_def CallStaticMethod_def java_call_def case_prod_beta put_back at_exit_def Let_def)
  show "call_returning_key J name body s =
      (case fst (body ?s1) of None \<Rightarrow> None | Some k \<Rightarrow> if length k > 0 then Some k else None, at_exit s (snd (body ?s1)))"
    if "quiet body" for name body
    using ok q [OF that]
    by (cases "an_attached s"; cases "fst (body ?s1)") (simp_all add: call_returning_key_def AttachedEnv_def detach_def
      clear_pending_exception_def GetStaticMethodID_def CallStaticMethod_def java_call_def case_prod_beta put_back at_exit_def
      Let_def)
qed

section \<open>The contract of the class\<close>

lemma ready_exit: "android_ready J s' \<Longrightarrow> android_ready J (at_exit s s')"
  by (simp add: android_ready_def at_exit_def)

lemma exit_key [simp]: "same_key u (at_exit s s') = same_key u s'" "android_stored J (at_exit s s') = android_stored J s'"
  "an_prefs (at_exit s s') = an_prefs s'"
  by (simp_all add: same_key_def at_exit_def android_stored_def)

lemma ready_calls: "android_ready J s \<Longrightarrow> an_calls s \<le> n \<Longrightarrow> android_ready J (s\<lparr>an_calls := n\<rparr>)"
  by (simp add: android_ready_def)

lemma prefs_ready: "android_ready J s \<Longrightarrow> prefs J s = (True, s\<lparr>an_calls := Suc (an_calls s)\<rparr>)"
  by (simp add: prefs_def android_ready_def java_call_def)

lemma hasMasterKey_ready:
  "android_ready J s \<Longrightarrow> hasMasterKey J s = (an_prefs s \<noteq> None, s\<lparr>an_calls := Suc (an_calls s)\<rparr>)"
  by (simp add: hasMasterKey_def prefs_ready)

lemma wrapperKey_held:
  "android_ready J s \<Longrightarrow> an_wrapper s = Some k \<Longrightarrow> wrapperKey J s = (Some k, s\<lparr>an_calls := Suc (an_calls s)\<rparr>)"
  by (simp add: wrapperKey_def android_ready_def java_call_def)

lemma wrapperKey_ready:
  assumes "android_ready J s"
  obtains k s' where "wrapperKey J s = (Some k, s')" "an_wrapper s' = Some k" "android_ready J s'" "an_prefs s' = an_prefs s"
proof (cases "an_wrapper s")
  case None
  let ?k = "generate_aes J (Suc (an_calls s))"
  have "wrapperKey J s = (Some ?k, s\<lparr>an_calls := Suc (Suc (an_calls s)), an_wrapper := Some ?k\<rparr>)"
    using assms None by (simp add: wrapperKey_def android_ready_def java_call_def)
  then show thesis by (rule that) (use assms in \<open>simp_all add: android_ready_def\<close>)
next
  case (Some k)
  show thesis by (rule that [OF wrapperKey_held [OF assms Some]]) (use Some assms in \<open>simp_all add: android_ready_def\<close>)
qed

lemma loadMasterKey_inv:
  assumes "android_inv J s"
  obtains s' where "loadMasterKey J s = (android_stored J s, s')" "android_ready J s'" "same_key s s'"
proof -
  have r: "android_ready J s" using assms by (simp add: android_inv_def)
  let ?s1 = "s\<lparr>an_calls := Suc (an_calls s)\<rparr>"
  have r1: "android_ready J ?s1" by (rule ready_calls [OF r]) simp
  show thesis
  proof (cases "an_prefs s")
    case None
    then have "loadMasterKey J s = (android_stored J s, ?s1)"
      by (simp add: loadMasterKey_def prefs_ready [OF r] android_stored_def)
    then show thesis by (rule that [OF _ r1]) (simp add: same_key_def)
  next
    case (Some t)
    with assms obtain k st m where k: "an_wrapper s = Some k" "b64_decode J t = Some st" "GCM_IV_SIZE < length st"
      "android_stored J s = Some m" "gcm_decrypt J k (take GCM_IV_SIZE st) (drop GCM_IV_SIZE st) = Some m"
      by (auto simp: android_inv_def android_stored_def split: option.splits if_splits)
    have "wrapperKey J ?s1 = (Some k, ?s1\<lparr>an_calls := Suc (an_calls ?s1)\<rparr>)"
      by (rule wrapperKey_held [OF r1]) (simp add: k(1))
    then have "loadMasterKey J s = (android_stored J s, ?s1\<lparr>an_calls := Suc (an_calls ?s1)\<rparr>)"
      using Some k by (simp add: loadMasterKey_def prefs_ready [OF r])
    then show thesis
      by (rule that) (use ready_calls [OF r1, of "Suc (an_calls ?s1)"] in \<open>simp_all add: same_key_def\<close>)
  qed
qed

lemma generateMasterKey_inv:
  assumes "android_inv J s"
  obtains m s' where "generateMasterKey J s = (Some m, s')" "length m = KEYBYTES" "android_inv J s'" "android_stored J s' = Some m"
proof -
  have r: "android_ready J s" and l: "java_laws J" using assms by (simp_all add: android_inv_def)
  let ?s1 = "s\<lparr>an_calls := Suc (an_calls s)\<rparr>" and ?m = "secure_random J (an_calls s) MASTER_KEY_SIZE"
  have m: "length ?m = KEYBYTES" using l by (simp add: java_laws_def MASTER_KEY_SIZE_def KEYBYTES_def)
  obtain k s2 where w: "wrapperKey J ?s1 = (Some k, s2)" "an_wrapper s2 = Some k" "android_ready J s2" "an_prefs s2 = an_prefs ?s1"
    by (rule wrapperKey_ready [OF ready_calls [OF r, of "Suc (an_calls s)"]]) simp
  let ?iv = "gcm_iv J (an_calls s2)" and ?s3 = "s2\<lparr>an_calls := Suc (an_calls s2)\<rparr>"
  let ?stored = "?iv @ gcm_encrypt J k ?iv ?m"
  let ?s' = "?s3\<lparr>an_calls := Suc (an_calls ?s3), an_prefs := Some (b64_encode J ?stored)\<rparr>"
  have r3: "android_ready J ?s3" by (rule ready_calls [OF w(3)]) simp
  have "java_ok J (an_calls s2)" using w(3) by (simp add: android_ready_def)
  then have g: "generateMasterKey J s = (Some ?m, ?s')"
    using w(1) prefs_ready [OF r3] by (simp add: generateMasterKey_def java_call_def Let_def)
  have st: "android_stored J ?s' = Some ?m"
    using l w(2) by (simp add: android_stored_def java_laws_def)
  moreover have "android_ready J ?s'" using r3 by (simp add: android_ready_def)
  ultimately have "android_inv J ?s'" using l m by (simp add: android_inv_def)
  then show thesis by (rule that [OF g m _ st])
qed

interpretation andr: secure_key_store "android_has_master_key J" "android_load_master_key J"
  "android_generate_and_store_master_key J" "android_delete_master_key J" "android_inv J" "android_stored J" for J
proof unfold_locales
  fix s s' :: android and r :: "bytes option" and b :: bool
  assume i: "android_inv J s"
  then have rd: "android_ready J s" by (simp add: android_inv_def)
  obtain s1 where s1: "android_ready J s1" "same_key s s1"
    and run: "\<And>name body. quiet body \<Longrightarrow> call_returning_bool J name body s = (fst (body s1), at_exit s (snd (body s1)))"
      "\<And>name body. quiet body \<Longrightarrow> call_returning_key J name body s =
       (case fst (body s1) of None \<Rightarrow> None | Some k \<Rightarrow> if length k > 0 then Some k else None, at_exit s (snd (body s1)))"
    by (rule call_setup [OF rd]) (rule that)
  have i1: "android_inv J s1" by (rule same_key_inv [OF i s1(2,1)])
  have st: "android_stored J s1 = android_stored J s" by (rule same_key_stored [OF s1(2)])
  have held: "an_prefs s1 \<noteq> None \<longleftrightarrow> android_stored J s \<noteq> None"
    using i1 st by (auto simp: android_inv_def android_stored_def split: option.splits)
  have keep: "android_inv J (at_exit s u) \<and> android_stored J (at_exit s u) = android_stored J s"
    if "android_ready J u" "same_key s1 u" for u
    using same_key_inv [OF i1, of "at_exit s u"] ready_exit [OF that(1)] that(2) same_key_stored [OF that(2), of J] st by simp
  show "b = (android_stored J s \<noteq> None) \<and> android_inv J s' \<and> android_stored J s' = android_stored J s"
    if "android_has_master_key J s = (b, s')"
  proof -
    let ?u = "s1\<lparr>an_calls := Suc (an_calls s1)\<rparr>"
    have "same_key s1 ?u" "android_ready J ?u" using ready_calls [OF s1(1)] by (simp_all add: same_key_def)
    with keep [of ?u] that held hasMasterKey_ready [OF s1(1)] run(1) [OF hasMasterKey_quiet] show ?thesis
      by (auto simp: android_has_master_key_def)
  qed
  show "r = android_stored J s \<and> android_inv J s' \<and> android_stored J s' = android_stored J s"
    if "android_load_master_key J s = (r, s')"
  proof -
    obtain u where u: "loadMasterKey J s1 = (android_stored J s1, u)" "android_ready J u" "same_key s1 u"
      by (rule loadMasterKey_inv [OF i1])
    have "length k > 0" if "android_stored J s = Some k" for k
      using i that by (auto simp: android_inv_def android_stored_def KEYBYTES_def split: option.splits)
    with keep [OF u(2,3)] that u(1) st run(2) [OF loadMasterKey_quiet] show ?thesis
      by (cases "android_stored J s") (auto simp: android_load_master_key_def)
  qed
  show "\<exists>k. r = Some k \<and> length k = KEYBYTES \<and> android_inv J s' \<and> android_stored J s' = Some k"
    if "android_generate_and_store_master_key J s = (r, s')"
  proof -
    obtain m u where u: "generateMasterKey J s1 = (Some m, u)" "length m = KEYBYTES" "android_inv J u" "android_stored J u = Some m"
      by (rule generateMasterKey_inv [OF i1])
    have "android_inv J (at_exit s u)"
      by (rule same_key_inv [OF u(3)]) (use u(3) ready_exit in \<open>simp_all add: same_key_def android_inv_def at_exit_def\<close>)
    moreover have "android_generate_and_store_master_key J s = (Some m, at_exit s u)"
      using u(1,2) run(2) [OF generateMasterKey_quiet] by (auto simp: android_generate_and_store_master_key_def KEYBYTES_def)
    ultimately show ?thesis using that u(2,4) by simp
  qed
  show "(android_stored J s \<noteq> None \<longrightarrow> b) \<and> android_inv J s' \<and> android_stored J s' = None"
    if "android_delete_master_key J s = (b, s')"
  proof -
    let ?u = "s1\<lparr>an_calls := Suc (Suc (an_calls s1)), an_prefs := None, an_wrapper := None\<rparr>"
    have "java_ok J (Suc (an_calls s1))" using s1(1) by (simp add: android_ready_def)
    then have "deleteMasterKey J s1 = (True, ?u)"
      using prefs_ready [OF s1(1)] by (simp add: deleteMasterKey_def java_call_def Let_def)
    moreover have "android_ready J ?u" using s1(1) by (simp add: android_ready_def)
    moreover have "android_stored J ?u = None" "an_prefs ?u = None" by (simp_all add: android_stored_def)
    ultimately show ?thesis
      using that run(1) [OF deleteMasterKey_quiet] i ready_exit [of J ?u s]
      by (auto simp: android_delete_master_key_def android_inv_def)
  qed
qed

section \<open>Properties\<close>

abbreviation android_run :: "java \<Rightarrow> ks_call list \<Rightarrow> android \<Rightarrow> (ks_call \<times> ks_answer) list \<times> android" where
  "android_run J \<equiv> run_key_store (android_has_master_key J) (android_load_master_key J)
     (android_generate_and_store_master_key J) (android_delete_master_key J)"

text \<open>A device on which everything works, with a transparent cipher, and its state after the library is loaded.\<close>

definition sample_java :: java where
  "sample_java = \<lparr>attach_ok = \<lambda>i. True, class_found = True, global_ok = True, method_found = \<lambda>n. True,
     call_throws = \<lambda>i. False, java_ok = \<lambda>i. True, secure_random = \<lambda>i n. replicate n (of_nat i),
     generate_aes = \<lambda>i. [of_nat i], gcm_iv = \<lambda>i. replicate 12 (of_nat i), gcm_encrypt = \<lambda>k iv m. m @ [0],
     gcm_decrypt = \<lambda>k iv c. Some (butlast c), b64_encode = \<lambda>x. x, b64_decode = Some\<rparr>"

definition installed :: android where
  "installed = \<lparr>g_jvm = False, g_bridge_class = False, an_attached = True, an_pending = False, an_context = False,
     an_prefs = None, an_disk = None, an_wrapper = None, an_calls = 0\<rparr>"

definition started :: "java \<Rightarrow> android" where
  "started J = bridge_init (snd (JNI_OnLoad J installed))"

lemma started_inv: "android_inv sample_java (started sample_java)"
  by (simp add: android_inv_def java_laws_def android_ready_def started_def installed_def bridge_init_def JNI_OnLoad_def
      sample_java_def GCM_IV_SIZE_def)

text \<open>
  C21 (refinement).  On Android the chain from the engine through JNI and the Kotlin bridge down to the Keystore is
  again the abstract store of one key: once the library is loaded and the bridge has its context, every sequence
  of calls, from any thread, attached to the virtual machine or not, gets the answers of the machine \<open>ks_step\<close>, on
  a device on which every call of the framework succeeds (\<open>android_ready\<close>).
\<close>

theorem android_key_store_refines:
  assumes "android_inv J s" "android_run J cs s = (t, s')"
  shows "ks_trace (android_stored J s) t (android_stored J s') \<and> map fst t = cs \<and> android_inv J s' \<and>
    (\<forall>k. android_stored J s = Some k \<and> Generate \<notin> set cs \<and> Delete \<notin> set cs \<longrightarrow>
       android_stored J s' = Some k \<and> (\<forall>x\<in>set t. snd x = Answer True \<or> snd x = Key (Some k)))"
  using andr.run_refines [OF assms] andr.key_kept [OF assms(1) _ assms(2)] by blast

theorem android_key_store_refines_witness:
  "\<exists>t s'. android_run sample_java [Has, Obtain, Load, Delete] (started sample_java) = (t, s') \<and> ks_trace None t None"
proof -
  obtain t s' where r: "android_run sample_java [Has, Obtain, Load, Delete] (started sample_java) = (t, s')" by fastforce
  note p = android_key_store_refines [OF started_inv r]
  have z: "android_stored sample_java (started sample_java) = None"
    by (simp add: android_stored_def started_def installed_def bridge_init_def JNI_OnLoad_def Let_def)
  obtain a b c d where t: "t = [(Has, a), (Obtain, b), (Load, c), (Delete, d)]" using p by (auto simp: map_eq_Cons_conv)
  have "android_stored sample_java s' = None" using p unfolding t by (auto simp: ks_step_simps)
  with p z r show ?thesis by auto
qed

text \<open>
  Whatever fails, no thread is left attached to the virtual machine that was not, none is detached
  that was attached, and no Java exception is left pending: this holds of the four operations for every behaviour
  of the runtime and of the framework.
\<close>

lemma jni_calls_balanced:
  "balanced (android_has_master_key J) \<and> balanced (android_load_master_key J) \<and>
   balanced (android_generate_and_store_master_key J) \<and> balanced (android_delete_master_key J)"
  unfolding android_has_master_key_def android_load_master_key_def android_generate_and_store_master_key_def
    android_delete_master_key_def
  by (intro conjI call_returning_bool_balanced call_returning_key_balanced hasMasterKey_quiet loadMasterKey_quiet
      generateMasterKey_quiet deleteMasterKey_quiet)

text \<open>
  A key the bridge returns is accepted whatever its length, as long as it is not empty; the other platforms insist
  on 32 bytes.  A shorter key would be read beyond its end by the secret stream.
\<close>

lemma short_key_accepted:
  assumes "android_ready J s" "an_prefs s = Some t" "an_wrapper s = Some w" "b64_decode J t = Some st"
    "GCM_IV_SIZE < length st" "gcm_decrypt J w (take GCM_IV_SIZE st) (drop GCM_IV_SIZE st) = Some k" "k \<noteq> []"
  shows "fst (android_load_master_key J s) = Some k"
proof -
  obtain s1 where s1: "android_ready J s1" "same_key s s1"
    and run: "\<And>name body. quiet body \<Longrightarrow> call_returning_key J name body s =
       (case fst (body s1) of None \<Rightarrow> None | Some k \<Rightarrow> if length k > 0 then Some k else None, at_exit s (snd (body s1)))"
    by (rule call_setup [OF assms(1)]) (rule that)
  have "fst (loadMasterKey J s1) = Some k"
    using assms(2-6) s1(2) prefs_ready [OF s1(1)] wrapperKey_held [OF ready_calls [OF s1(1)], of "Suc (an_calls s1)" w]
    by (simp add: loadMasterKey_def same_key_def)
  with run [OF loadMasterKey_quiet] assms(7) show ?thesis by (simp add: android_load_master_key_def)
qed

text \<open>
  \<open>apply()\<close> has not reached the disk when \<open>generateMasterKey\<close> returns.  A process killed before that starts again
  without a key, although its files are already encrypted under the lost one.
\<close>

definition killed :: "android \<Rightarrow> android" where
  "killed s = installed\<lparr>an_prefs := an_disk s, an_disk := an_disk s, an_wrapper := an_wrapper s, an_calls := an_calls s\<rparr>"

lemma unflushed_key_lost:
  assumes "android_inv J s" "an_disk s = None" "android_generate_and_store_master_key J s = (Some k, s')"
  shows "android_stored J s' = Some k \<and> android_stored J (killed s') = None"
proof -
  have "android_stored J s' = Some k" using andr.generate_law [OF assms(1,3)] by simp
  moreover obtain s1 where "same_key s s1" and run: "\<And>name body. quiet body \<Longrightarrow> call_returning_key J name body s =
       (case fst (body s1) of None \<Rightarrow> None | Some k \<Rightarrow> if length k > 0 then Some k else None, at_exit s (snd (body s1)))"
    by (rule call_setup [of J s]) (use assms(1) that in \<open>auto simp: android_inv_def\<close>)
  then have "an_disk s' = an_disk s"
    using assms(3) run [OF generateMasterKey_quiet] generateMasterKey_quiet [of J]
    by (auto simp: android_generate_and_store_master_key_def quiet_def same_key_def at_exit_def)
  ultimately show ?thesis using assms(2) by (simp add: killed_def android_stored_def)
qed

end
