(* ===== verification/Key_Store_Apple.thy ===== *)
theory Key_Store_Apple
  imports Libs Sample_Lib Master_Key
begin

text \<open>
  \<open>platform/apple/secure_key_store_apple.mm\<close>: the master key as an item of the Keychain.  \<open>kc_ok\<close> says which of the
  numbered calls to Keychain Services are served; one that is not (a device locked since it started, for example)
  returns a status that is neither success nor ``item not found''.
\<close>

section \<open>Keychain Services\<close>

datatype OSStatus = errSecSuccess | errSecItemNotFound | errSecDuplicateItem | errSecOther

record keychain =
  kc_item :: "bytes option"
  kc_calls :: nat
  kc_draw :: nat

definition SecItemCopyMatching :: "(nat \<Rightarrow> bool) \<Rightarrow> keychain \<Rightarrow> (OSStatus \<times> bytes option) \<times> keychain" where
  "SecItemCopyMatching kc_ok s =
     ((if \<not> kc_ok (kc_calls s) then (errSecOther, None)
       else case kc_item s of None \<Rightarrow> (errSecItemNotFound, None) | Some d \<Rightarrow> (errSecSuccess, Some d)),
      s\<lparr>kc_calls := Suc (kc_calls s)\<rparr>)"

definition SecItemAdd :: "(nat \<Rightarrow> bool) \<Rightarrow> bytes \<Rightarrow> keychain \<Rightarrow> OSStatus \<times> keychain" where
  "SecItemAdd kc_ok d s =
     (let s1 = s\<lparr>kc_calls := Suc (kc_calls s)\<rparr> in
      if \<not> kc_ok (kc_calls s) then (errSecOther, s1)
      else if kc_item s \<noteq> None then (errSecDuplicateItem, s1)
      else (errSecSuccess, s1\<lparr>kc_item := Some d\<rparr>))"

definition SecItemDelete :: "(nat \<Rightarrow> bool) \<Rightarrow> keychain \<Rightarrow> OSStatus \<times> keychain" where
  "SecItemDelete kc_ok s =
     (let s1 = s\<lparr>kc_calls := Suc (kc_calls s)\<rparr> in
      if \<not> kc_ok (kc_calls s) then (errSecOther, s1)
      else if kc_item s = None then (errSecItemNotFound, s1)
      else (errSecSuccess, s1\<lparr>kc_item := None\<rparr>))"

section \<open>AppleSecureKeyStore\<close>

definition apple_has_master_key :: "(nat \<Rightarrow> bool) \<Rightarrow> keychain \<Rightarrow> bool \<times> keychain" where
  "apple_has_master_key kc_ok s =
     (let ((status, _), s1) = SecItemCopyMatching kc_ok s in (status = errSecSuccess, s1))"

definition apple_generate_and_store_master_key :: "lib \<Rightarrow> (nat \<Rightarrow> bool) \<Rightarrow> keychain \<Rightarrow> bytes option \<times> keychain" where
  "apple_generate_and_store_master_key L kc_ok s =
     (let out_key = randombytes_buf L (kc_draw s) KEYBYTES;
          (_, s1) = SecItemDelete kc_ok (s\<lparr>kc_draw := Suc (kc_draw s)\<rparr>);
          (status, s2) = SecItemAdd kc_ok out_key s1
      in (if status = errSecSuccess then Some out_key else None, s2))"

definition apple_load_master_key :: "(nat \<Rightarrow> bool) \<Rightarrow> keychain \<Rightarrow> bytes option \<times> keychain" where
  "apple_load_master_key kc_ok s =
     (let ((status, result), s1) = SecItemCopyMatching kc_ok s in
      if status \<noteq> errSecSuccess then (None, s1)
      else case result of
        None \<Rightarrow> (None, s1)
      | Some d \<Rightarrow> (if length d \<noteq> KEYBYTES then None else Some d, s1))"

definition apple_delete_master_key :: "(nat \<Rightarrow> bool) \<Rightarrow> keychain \<Rightarrow> bool \<times> keychain" where
  "apple_delete_master_key kc_ok s =
     (let (status, s1) = SecItemDelete kc_ok s in (status = errSecSuccess \<or> status = errSecItemNotFound, s1))"

section \<open>The contract of the class\<close>

text \<open>The Keychain serves every call from now on, and an item is a key.\<close>

definition apple_inv :: "lib \<Rightarrow> (nat \<Rightarrow> bool) \<Rightarrow> keychain \<Rightarrow> bool" where
  "apple_inv L kc_ok s \<longleftrightarrow>
     sizes_ok L \<and> (\<forall>i \<ge> kc_calls s. kc_ok i) \<and> (\<forall>d. kc_item s = Some d \<longrightarrow> length d = KEYBYTES)"

lemmas keychain_defs = SecItemCopyMatching_def SecItemAdd_def SecItemDelete_def apple_has_master_key_def
  apple_generate_and_store_master_key_def apple_load_master_key_def apple_delete_master_key_def

interpretation apple: secure_key_store "apple_has_master_key kc_ok" "apple_load_master_key kc_ok"
  "apple_generate_and_store_master_key L kc_ok" "apple_delete_master_key kc_ok" "apple_inv L kc_ok" kc_item for L kc_ok
proof unfold_locales
  fix s s' :: keychain and r :: "bytes option" and b :: bool
  assume i: "apple_inv L kc_ok s"
  then have k: "kc_ok (kc_calls s)" "kc_ok (Suc (kc_calls s))" by (simp_all add: apple_inv_def)
  have later: "apple_inv L kc_ok (s\<lparr>kc_calls := Suc (kc_calls s)\<rparr>)" using i by (simp add: apple_inv_def)
  show "b = (kc_item s \<noteq> None) \<and> apple_inv L kc_ok s' \<and> kc_item s' = kc_item s" if "apple_has_master_key kc_ok s = (b, s')"
    using that k later by (cases "kc_item s") (auto simp: keychain_defs)
  show "r = kc_item s \<and> apple_inv L kc_ok s' \<and> kc_item s' = kc_item s" if "apple_load_master_key kc_ok s = (r, s')"
    using that k later i by (cases "kc_item s") (auto simp: keychain_defs apple_inv_def)
  show "\<exists>k. r = Some k \<and> length k = KEYBYTES \<and> apple_inv L kc_ok s' \<and> kc_item s' = Some k"
    if "apple_generate_and_store_master_key L kc_ok s = (r, s')"
    using that k i sizes_lens(2) [of L] by (cases "kc_item s") (auto simp: keychain_defs apple_inv_def Let_def)
  show "(kc_item s \<noteq> None \<longrightarrow> b) \<and> apple_inv L kc_ok s' \<and> kc_item s' = None" if "apple_delete_master_key kc_ok s = (b, s')"
    using that k i by (cases "kc_item s") (auto simp: keychain_defs apple_inv_def Let_def)
qed

section \<open>Properties\<close>

abbreviation apple_obtain :: "lib \<Rightarrow> (nat \<Rightarrow> bool) \<Rightarrow> keychain \<Rightarrow> bytes option \<times> keychain" where
  "apple_obtain L kc_ok \<equiv> obtain_master_key (apple_has_master_key kc_ok) (apple_load_master_key kc_ok)
     (apple_generate_and_store_master_key L kc_ok)"

abbreviation apple_run :: "lib \<Rightarrow> (nat \<Rightarrow> bool) \<Rightarrow> ks_call list \<Rightarrow> keychain \<Rightarrow> (ks_call \<times> ks_answer) list \<times> keychain" where
  "apple_run L kc_ok \<equiv> run_key_store (apple_has_master_key kc_ok) (apple_load_master_key kc_ok)
     (apple_generate_and_store_master_key L kc_ok) (apple_delete_master_key kc_ok)"

text \<open>
  On macOS and iOS the master key store is the abstract store of one key while the Keychain serves
  its calls: every sequence of calls gets the answers of the machine \<open>ks_step\<close>, and a held key is returned until it is
  deleted or regenerated.
\<close>

lemma apple_key_store_refines:
  assumes "apple_inv L kc_ok s" "apple_run L kc_ok cs s = (t, s')"
  shows "ks_trace (kc_item s) t (kc_item s') \<and> map fst t = cs \<and> apple_inv L kc_ok s' \<and>
    (\<forall>k. kc_item s = Some k \<and> Generate \<notin> set cs \<and> Delete \<notin> set cs \<longrightarrow>
       kc_item s' = Some k \<and> (\<forall>x\<in>set t. snd x = Answer True \<or> snd x = Key (Some k)))"
  using apple.run_refines [OF assms] apple.key_kept [OF assms(1) _ assms(2)] by blast

text \<open>
  A query that is refused is taken for an absent key.  If the deletion that follows is served and the addition is not,
  the existing key is lost without a replacement.
\<close>

lemma apple_refused_query_loses_key:
  assumes "\<not> kc_ok (kc_calls s)" "kc_ok (Suc (kc_calls s))"
  shows "\<exists>r s'. apple_obtain L kc_ok s = (r, s') \<and>
    (if kc_ok (Suc (Suc (kc_calls s))) then kc_item s' = Some (randombytes_buf L (kc_draw s) KEYBYTES) else kc_item s' = None)"
  using assms by (cases "kc_item s") (auto simp: obtain_master_key_def keychain_defs Let_def)

end
