(* ===== verification/Readers.thy ===== *)
theory Readers
  imports Backup Session_Store
begin

text \<open>
  The two \<open>Reader\<close> classes, of \<open>identity_store.cpp\<close> and \<open>backup.cpp\<close>, and the cursor of \<open>session.cpp\<close>, as machine integers,
  and the parsers written as the sequences of reads they make.  The theories \<open>Identity_Store\<close>, \<open>Backup\<close> and
  \<open>Session_Store\<close> describe the same parsers on the list of unread bytes; here the two views are proved equal, so that none of the bounds checks
  overflows and no copy leaves the input.
\<close>

section \<open>The classes\<close>

record reader =
  rd_data :: bytes
  rd_len :: u64
  rd_offset :: u64

definition new_reader :: "bytes \<Rightarrow> reader" where
  "new_reader data = \<lparr>rd_data = data, rd_len = of_nat (length data), rd_offset = 0\<rparr>"

text \<open>What a call of \<open>read\<close> does: a copy from outside the data, a refusal, or the bytes and the advanced reader.\<close>

datatype 'a access = Outside | Refused | Got 'a

definition copy_out :: "u64 \<Rightarrow> reader \<Rightarrow> (bytes \<times> reader) access" where
  "copy_out n r =
     (if length (rd_data r) < unat (rd_offset r) + unat n then Outside
      else Got (take (unat n) (drop (unat (rd_offset r)) (rd_data r)), r\<lparr>rd_offset := rd_offset r + n\<rparr>))"

definition identity_reader_read :: "u64 \<Rightarrow> reader \<Rightarrow> (bytes \<times> reader) access" where
  "identity_reader_read n r = (if rd_offset r + n > rd_len r then Refused else copy_out n r)"

definition at_end :: "reader \<Rightarrow> bool" where
  "at_end r \<longleftrightarrow> rd_offset r = rd_len r"

definition backup_reader_read :: "u64 \<Rightarrow> reader \<Rightarrow> (bytes \<times> reader) access" where
  "backup_reader_read n r = (if rd_len r - rd_offset r < n then Refused else copy_out n r)"

definition remaining :: "reader \<Rightarrow> u64" where
  "remaining r = rd_len r - rd_offset r"

text \<open>\<open>if (p.remaining() < n) fail; ... p.cursor() ...; p.skip(n)\<close>, as the import does for names and payloads.\<close>

definition take_cursor :: "u64 \<Rightarrow> reader \<Rightarrow> (bytes \<times> reader) access" where
  "take_cursor n r = (if remaining r < n then Refused else copy_out n r)"

text \<open>The function \<open>need\<close> of \<open>deserialize_state\<close>, and a copy guarded by it.\<close>

definition need :: "u64 \<Rightarrow> reader \<Rightarrow> bool" where
  "need n r \<longleftrightarrow> rd_offset r + n \<le> rd_len r"

definition session_read :: "u64 \<Rightarrow> reader \<Rightarrow> (bytes \<times> reader) access" where
  "session_read n r = (if need n r then copy_out n r else Refused)"

section \<open>Parsers as programs over a reader\<close>

text \<open>
  A parser asks for a number of bytes and goes on with them, or ends with a fixed result when they are not there; it may
  reserve memory, and at the end look at what is left.  The parameter \<open>alloc\<close> says which amounts of memory can be had.
  A result of \<open>None\<close> stands for undefined behaviour, or for the exception a refused allocation throws through the C
  interface, which ends the process.
\<close>

datatype 'a rprog =
    Stop "'a option"
  | Read u64 'a "bytes \<Rightarrow> 'a rprog"
  | Reserve nat "'a rprog"
  | Rest "bytes \<Rightarrow> 'a option"
  | AtEnd "bool \<Rightarrow> 'a option"

primrec run_prog :: "(nat \<Rightarrow> bool) \<Rightarrow> (u64 \<Rightarrow> reader \<Rightarrow> (bytes \<times> reader) access) \<Rightarrow> 'a rprog \<Rightarrow> reader \<Rightarrow> 'a option" where
  "run_prog alloc read (Stop x) r = x"
| "run_prog alloc read (Read n refused k) r =
     (case read n r of Outside \<Rightarrow> None | Refused \<Rightarrow> Some refused | Got p \<Rightarrow> run_prog alloc read (k (fst p)) (snd p))"
| "run_prog alloc read (Reserve n k) r = (if alloc n then run_prog alloc read k r else None)"
| "run_prog alloc read (Rest k) r = k (drop (unat (rd_offset r)) (rd_data r))"
| "run_prog alloc read (AtEnd k) r = k (at_end r)"

text \<open>The same on the bytes that are left.\<close>

primrec run_list :: "(nat \<Rightarrow> bool) \<Rightarrow> 'a rprog \<Rightarrow> bytes \<Rightarrow> 'a option" where
  "run_list alloc (Stop x) r = x"
| "run_list alloc (Read n refused k) r =
     (if length r < unat n then Some refused else run_list alloc (k (take (unat n) r)) (drop (unat n) r))"
| "run_list alloc (Reserve n k) r = (if alloc n then run_list alloc k r else None)"
| "run_list alloc (Rest k) r = k r"
| "run_list alloc (AtEnd k) r = k (r = [])"

text \<open>Every number of bytes a parser may ask for is below a bound.\<close>

primrec asks_below :: "nat \<Rightarrow> 'a rprog \<Rightarrow> bool" where
  "asks_below b (Stop x) \<longleftrightarrow> True"
| "asks_below b (Read n refused k) \<longleftrightarrow> unat n < b \<and> (\<forall>bs. asks_below b (k bs))"
| "asks_below b (Reserve n k) \<longleftrightarrow> asks_below b k"
| "asks_below b (Rest k) \<longleftrightarrow> True"
| "asks_below b (AtEnd k) \<longleftrightarrow> True"

text \<open>An allocator that grants everything.\<close>

abbreviation plenty :: "nat \<Rightarrow> bool" where
  "plenty \<equiv> (\<lambda>_. True)"

definition reader_ok :: "reader \<Rightarrow> bool" where
  "reader_ok r \<longleftrightarrow> unat (rd_len r) = length (rd_data r) \<and> rd_offset r \<le> rd_len r"

definition unread :: "reader \<Rightarrow> bytes" where
  "unread r = drop (unat (rd_offset r)) (rd_data r)"

lemma new_reader_ok: "length data < 2 ^ 64 \<Longrightarrow> reader_ok (new_reader data) \<and> unread (new_reader data) = data"
  by (simp add: reader_ok_def new_reader_def unread_def unat_of_nat)

lemma at_end_unread: "reader_ok r \<Longrightarrow> at_end r \<longleftrightarrow> unread r = []"
  by (auto simp: reader_ok_def at_end_def unread_def word_le_nat_alt word_unat_eq_iff)

section \<open>The contract of a reader\<close>

text \<open>
  A reader that decides correctly, for requests and inputs below given bounds, whether the bytes are there.  Every parser
  then runs on it as on the list of unread bytes.
\<close>

locale byte_reader =
  fixes read :: "u64 \<Rightarrow> reader \<Rightarrow> (bytes \<times> reader) access"
    and request size :: nat
  assumes decides: "reader_ok r \<Longrightarrow> length (rd_data r) < size \<Longrightarrow> unat n < request \<Longrightarrow>
    read n r = (if length (unread r) < unat n then Refused else copy_out n r)"
begin

lemma copy_ok:
  assumes "reader_ok r" "unat n \<le> length (unread r)"
  shows "copy_out n r = Got (take (unat n) (unread r), r\<lparr>rd_offset := rd_offset r + n\<rparr>)"
    and "reader_ok (r\<lparr>rd_offset := rd_offset r + n\<rparr>)"
    and "unread (r\<lparr>rd_offset := rd_offset r + n\<rparr>) = drop (unat n) (unread r)"
proof -
  have le: "unat (rd_offset r) + unat n \<le> unat (rd_len r)" "unat (rd_len r) = length (rd_data r)"
    using assms by (auto simp: reader_ok_def unread_def word_le_nat_alt)
  then have "unat (rd_offset r) + unat n < 2 ^ LENGTH(64)" using unsigned_less [of "rd_len r", where 'a = nat] by simp
  then have "unat (rd_offset r + n) = unat (rd_offset r) + unat n" by (rule unat_add_lem [THEN iffD1])
  with le show "copy_out n r = Got (take (unat n) (unread r), r\<lparr>rd_offset := rd_offset r + n\<rparr>)"
    "reader_ok (r\<lparr>rd_offset := rd_offset r + n\<rparr>)"
    "unread (r\<lparr>rd_offset := rd_offset r + n\<rparr>) = drop (unat n) (unread r)"
    by (simp_all add: copy_out_def reader_ok_def unread_def word_le_nat_alt add.commute)
qed

lemma run_refines:
  "reader_ok r \<Longrightarrow> length (rd_data r) < size \<Longrightarrow> asks_below request p \<Longrightarrow> run_prog alloc read p r = run_list alloc p (unread r)"
proof (induction p arbitrary: r)
  case (Read n refused k)
  then show ?case using decides [of r n] copy_ok [of r n] by (auto simp: not_less)
qed (simp_all add: unread_def [symmetric] at_end_unread)

lemma run_new:
  assumes "length data < size" "size \<le> 2 ^ 64" "asks_below request p"
  shows "run_prog alloc read p (new_reader data) = run_list alloc p data"
proof -
  have "reader_ok (new_reader data)" "unread (new_reader data) = data" using new_reader_ok [of data] assms by simp_all
  with run_refines [of "new_reader data" p] assms show ?thesis by (simp add: new_reader_def)
qed

end

text \<open>The sum in the test of the identity reader does not wrap as long as input and request stay below \<open>2\<^sup>6\<^sup>3\<close>.\<close>

interpretation idr: byte_reader identity_reader_read "2 ^ 63" "2 ^ 63"
proof
  fix r :: reader and n :: u64
  assume r: "reader_ok r" "length (rd_data r) < 2 ^ 63" "unat n < 2 ^ 63"
  then have le: "unat (rd_offset r) \<le> unat (rd_len r)" "unat (rd_len r) = length (rd_data r)"
    by (simp_all add: reader_ok_def word_le_nat_alt)
  then have "unat (rd_offset r) + unat n < 2 ^ LENGTH(64)" using r(2,3) by simp
  then have "unat (rd_offset r + n) = unat (rd_offset r) + unat n" by (rule unat_add_lem [THEN iffD1])
  with le show "identity_reader_read n r = (if length (unread r) < unat n then Refused else copy_out n r)"
    by (auto simp: identity_reader_read_def unread_def word_less_nat_alt)
qed

text \<open>The reader of the backup subtracts instead, which never wraps.\<close>

lemma remaining_unread: "reader_ok r \<Longrightarrow> unat (remaining r) = length (unread r)"
  by (simp add: remaining_def reader_ok_def unread_def unat_sub)

interpretation bkr: byte_reader backup_reader_read "2 ^ 64" "2 ^ 64"
  by unfold_locales
    (use remaining_unread in \<open>simp add: backup_reader_read_def word_less_nat_alt remaining_def\<close>)

lemma take_cursor_read: "take_cursor = backup_reader_read"
  by (simp add: fun_eq_iff take_cursor_def backup_reader_read_def remaining_def)

section \<open>The identity parser\<close>

text \<open>\<open>deserialize_identity\<close> as its calls on the reader; each step carries the engine as it is left when a read is refused.\<close>

primrec otpk_prog :: "nat \<Rightarrow> ZiaEngine \<Rightarrow> (bool \<times> ZiaEngine) rprog" where
  "otpk_prog 0 en = AtEnd (\<lambda>done. Some (done, en))"
| "otpk_prog (Suc n) en =
     Read 32 (False, en) (\<lambda>pub. Read 32 (False, en) (\<lambda>priv. Read 1 (False, en) (\<lambda>consumed.
       otpk_prog n (en\<lparr>en_one_time_prekeys := en_one_time_prekeys en @
         [\<lparr>otpk_public_key = pub, otpk_private_key = priv, otpk_consumed = (hd consumed \<noteq> 0)\<rparr>]\<rparr>))))"

text \<open>The size of a \<open>ZiaOneTimePrekey\<close>: 32 bytes, a \<open>SecureBuffer\<close> of a pointer and a length, a flag, and padding.\<close>

definition sizeof_ZiaOneTimePrekey :: nat where "sizeof_ZiaOneTimePrekey = 56"

definition count_prog :: "ZiaEngine \<Rightarrow> (bool \<times> ZiaEngine) rprog" where
  "count_prog en = Read 4 (False, en) (\<lambda>b.
     let count = unat (read_u32_le b) in
     Reserve (count * sizeof_ZiaOneTimePrekey) (otpk_prog count (en\<lparr>en_one_time_prekeys := []\<rparr>)))"

definition pq_prog :: "u8 \<Rightarrow> ZiaEngine \<Rightarrow> (bool \<times> ZiaEngine) rprog" where
  "pq_prog version en0 =
     (let en = en0\<lparr>en_pq_prekey := None\<rparr> in
      if version < 2 then count_prog en else
      Read 1 (False, en) (\<lambda>flag.
        if hd flag = 0 then count_prog en else
        Read 1184 (False, en) (\<lambda>pub. Read 2400 (False, en) (\<lambda>priv. Read 64 (False, en) (\<lambda>sig.
          count_prog (en\<lparr>en_pq_prekey := Some \<lparr>pq_public_key = pub, pq_private_key = priv, pq_signature = sig\<rparr>\<rparr>))))))"

definition spk_prog :: "u8 \<Rightarrow> ZiaEngine \<Rightarrow> (bool \<times> ZiaEngine) rprog" where
  "spk_prog version en =
     Read 1 (False, en) (\<lambda>flag.
       if hd flag = 0 then pq_prog version (en\<lparr>en_signed_prekey := None\<rparr>) else
       Read 32 (False, en) (\<lambda>pub. Read 32 (False, en) (\<lambda>priv. Read 64 (False, en) (\<lambda>sig.
         pq_prog version (en\<lparr>en_signed_prekey := Some \<lparr>spk_public_key = pub, spk_private_key = priv, spk_signature = sig\<rparr>\<rparr>)))))"

definition identity_prog :: "ZiaEngine \<Rightarrow> (bool \<times> ZiaEngine) rprog" where
  "identity_prog en =
     Read 1 (False, en) (\<lambda>v.
       let version = hd v in
       if version < 1 \<or> version > kFormatVersion then Stop (Some (False, en)) else
       Read 1 (False, en) (\<lambda>flag.
         let en1 = en\<lparr>en_has_identity := (hd flag \<noteq> 0)\<rparr> in
         Read 32 (False, en1) (\<lambda>pub.
           let en2 = en1\<lparr>en_identity_public := pub\<rparr> in
           if \<not> en_has_identity en2 then spk_prog version en2
           else Read 64 (False, en2\<lparr>en_identity_private := SecureBuffer 64\<rparr>) (\<lambda>priv.
             spk_prog version (en2\<lparr>en_identity_private := priv\<rparr>)))))"

text \<open>The verdict a part of the list parser leads to.\<close>

definition verdict :: "ZiaEngine \<times> bytes option \<Rightarrow> bool \<times> ZiaEngine" where
  "verdict p = (case p of (en, None) \<Rightarrow> (False, en) | (en, Some rest) \<Rightarrow> (rest = [], en))"

lemma otpk_prog_list: "run_list alloc (otpk_prog n en) r = Some (verdict (otpk_loop n en r))"
  by (induction n arbitrary: en r) (auto simp: verdict_def dec_otpk_def reader_read_def)

lemma count_prog_list: "run_list plenty (count_prog en) r = Some (verdict (otpk_part en r))"
  by (simp add: count_prog_def otpk_prog_list otpk_part_def reader_u32_def reader_read_def verdict_def Let_def)

lemma pq_prog_list: "run_list plenty (pq_prog v en) r = Some (verdict (then_part (pq_part v en r) otpk_part))"
  by (simp add: pq_prog_def pq_part_def count_prog_list then_part_def Let_def reader_read_def)
    (auto simp: verdict_def)

lemma spk_prog_list:
  "run_list plenty (spk_prog v en) r = Some (verdict (then_part (then_part (spk_part en r) (pq_part v)) otpk_part))"
  by (simp add: spk_prog_def spk_part_def pq_prog_list Let_def reader_read_def) (auto simp: verdict_def then_part_def)

lemma identity_prog_list: "run_list plenty (identity_prog en) data = Some (deserialize_identity data en)"
  by (simp add: identity_prog_def deserialize_identity_def identity_part_def spk_prog_list Let_def reader_read_def)
    (auto simp: verdict_def then_part_def split: option.split prod.split)

section \<open>The session parser\<close>

definition sizeof_ZiaSkippedKey :: nat where "sizeof_ZiaSkippedKey = 56"

primrec skipped_prog :: "nat \<Rightarrow> ZiaSession \<Rightarrow> ZiaSession option rprog" where
  "skipped_prog 0 s = AtEnd (\<lambda>done. Some (if done then Some s else None))"
| "skipped_prog (Suc n) s =
     Read 68 None (\<lambda>b. skipped_prog n (s\<lparr>s_skipped := s_skipped s @
       [\<lparr>sk_dh_public = take 32 b, sk_n = read_u32_le (drop 32 b), sk_key = drop 36 b\<rparr>]\<rparr>))"

definition session_prog :: "ZiaSession option rprog" where
  "session_prog =
     Read 64 None (\<lambda>ad. Read 32 None (\<lambda>dhs_public. Read 32 None (\<lambda>dhs_private. Read 33 None (\<lambda>dhr. Read 32 None (\<lambda>root_key.
     Read 33 None (\<lambda>send. Read 33 None (\<lambda>recv. Read 12 None (\<lambda>counters. Read 4 None (\<lambda>b.
       let count = unat (read_u32_le b) in
       Reserve (count * sizeof_ZiaSkippedKey)
         (skipped_prog count
           \<lparr>s_ad = ad, s_dhs_public = dhs_public, s_dhs_private = dhs_private,
            s_has_dhr = (hd dhr \<noteq> 0), s_dhr_public = tl dhr, s_root_key = root_key,
            s_has_send_chain = (hd send \<noteq> 0), s_send_chain_key = tl send,
            s_has_recv_chain = (hd recv \<noteq> 0), s_recv_chain_key = tl recv,
            s_ns = read_u32_le counters, s_nr = read_u32_le (drop 4 counters),
            s_pn = read_u32_le (drop 8 counters), s_skipped = []\<rparr>))))))))))"

lemma skipped_prog_list:
  "run_list alloc (skipped_prog n s) r = Some (case read_many dec_skipped n r of
     None \<Rightarrow> None | Some (ks, r') \<Rightarrow> if r' = [] then Some (s\<lparr>s_skipped := s_skipped s @ ks\<rparr>) else None)"
  by (induction n arbitrary: s r) (auto simp: dec_skipped_def reader_read_def split: option.split bind_split)

lemma run_read_bind:
  assumes "unat n = m" "fin None = None" "\<And>bs r'. run_list alloc (k bs) r' = Some (fin (g bs r'))"
  shows "run_list alloc (Read n None k) r = Some (fin (do { (bs, r') \<leftarrow> reader_read m r; g bs r' }))"
  using assms by (simp add: reader_read_def)

lemma reader_u32_bind: "do { (v, r') \<leftarrow> reader_u32 r; g v r' } = do { (b, r') \<leftarrow> reader_read 4 r; g (read_u32_le b) r' }"
  by (cases "reader_read 4 r") (simp_all add: reader_u32_def split_def)

lemma session_prog_list: "run_list plenty session_prog data = Some (deserialize_state data)"
proof -
  let ?fin = "\<lambda>x :: (ZiaSession \<times> bytes) option. case x of None \<Rightarrow> None | Some (s, r) \<Rightarrow> if r = [] then Some s else None"
  have "run_list plenty session_prog data = Some (?fin (parse_state data))"
    unfolding session_prog_def parse_state_def reader_u32_bind
    by (intro run_read_bind) (simp_all add: skipped_prog_list Let_def split: option.split)
  then show ?thesis by (simp add: deserialize_state_def)
qed

lemma session_read_identity: "session_read = identity_reader_read"
  by (auto simp: fun_eq_iff session_read_def need_def identity_reader_read_def dest: leD)

lemma asks_skipped: "2400 < b \<Longrightarrow> asks_below b (skipped_prog n s)"
  by (induction n arbitrary: s) simp_all

lemma asks_session: "2400 < b \<Longrightarrow> asks_below b session_prog"
  by (simp add: session_prog_def asks_skipped Let_def)

text \<open>The session parser on machine integers is the list parser.\<close>

lemma session_on_reader:
  "length data < 2 ^ 63 \<Longrightarrow> run_prog plenty session_read session_prog (new_reader data) = Some (deserialize_state data)"
  using idr.run_new [of data session_prog, OF _ _ asks_session] by (simp add: session_prog_list session_read_identity)

section \<open>The backup parser\<close>

definition backup_open_prog :: "lib \<Rightarrow> bytes \<Rightarrow> (ZiaStatus \<times> bytes + bytes) rprog" where
  "backup_open_prog L pass =
     (let truncated = Inl (ZIA_ERR_INVALID_ARG, msg_truncated) in
      Read 8 (Inl (ZIA_ERR_INVALID_ARG, msg_not_backup)) (\<lambda>magic.
        if magic \<noteq> kMagic then Stop (Some (Inl (ZIA_ERR_INVALID_ARG, msg_not_backup))) else
        Read (of_nat SALTBYTES) truncated (\<lambda>salt. Read 8 truncated (\<lambda>o8. Read 8 truncated (\<lambda>m8.
        Read (of_nat HEADERBYTES) truncated (\<lambda>header.
          let ops = get_u64 o8; mem = get_u64 m8 in
          if ops = 0 \<or> ops > 16 \<or> mem < MEMLIMIT_MIN \<or> mem > 1024 * 1024 * 1024
          then Stop (Some (Inl (ZIA_ERR_INVALID_ARG, msg_bounds)))
          else Rest (\<lambda>r. Some (
            if length r < ABYTES then truncated else
            (case crypto_pwhash L pass salt ops mem of
               None \<Rightarrow> Inl (ZIA_ERR_OUT_OF_MEMORY, msg_memory)
             | Some key \<Rightarrow>
                 (case secretstream_init_pull L header key of
                    None \<Rightarrow> Inl (ZIA_ERR_CRYPTO_FAILURE, msg_unreadable)
                  | Some st \<Rightarrow>
                      (case secretstream_pull L st r of
                         None \<Rightarrow> Inl (ZIA_ERR_CRYPTO_FAILURE, msg_pass_wrong)
                       | Some (plain, tag) \<Rightarrow>
                           if tag \<noteq> TAG_FINAL then Inl (ZIA_ERR_CRYPTO_FAILURE, msg_incomplete)
                           else Inr plain)))))))))))"

text \<open>What is done with one record, the identity being parsed by a reader of its own, and the loop over the records.\<close>

definition record_prog :: "(nat \<Rightarrow> bool) \<Rightarrow> lib \<Rightarrow> (bool \<Rightarrow> ZiaEngine \<Rightarrow> env \<Rightarrow> (bool \<times> bool \<times> ZiaEngine \<times> env) rprog) \<Rightarrow>
    bool \<Rightarrow> ZiaEngine \<Rightarrow> env \<Rightarrow> u8 \<Rightarrow> bytes \<Rightarrow> bytes \<Rightarrow> (bool \<times> bool \<times> ZiaEngine \<times> env) rprog" where
  "record_prog alloc L next vue en e kind nom payload =
     (if kind = kKindIdentity then
        (case run_prog alloc identity_reader_read (identity_prog en) (new_reader payload) of
           None \<Rightarrow> Stop None
         | Some (ok, en') \<Rightarrow> if ok then next True en' e else Stop (Some (False, False, en', e)))
      else if kind = kKindVault then
        (let (ok, e') = secure_write L en nom (Buf payload) e in
         if ok then next vue en e' else Stop (Some (False, vue, en, e')))
      else next vue en e)"

definition payload_prog :: "(nat \<Rightarrow> bool) \<Rightarrow> lib \<Rightarrow> (bool \<Rightarrow> ZiaEngine \<Rightarrow> env \<Rightarrow> (bool \<times> bool \<times> ZiaEngine \<times> env) rprog) \<Rightarrow>
    bool \<Rightarrow> ZiaEngine \<Rightarrow> env \<Rightarrow> u8 \<Rightarrow> bytes \<Rightarrow> (bool \<times> bool \<times> ZiaEngine \<times> env) rprog" where
  "payload_prog alloc L next vue en e kind nom =
     (let failed = (False, vue, en, e) in
      Read 4 failed (\<lambda>d4. Read (ucast (read_u32_le d4)) failed (record_prog alloc L next vue en e kind nom)))"

primrec import_prog :: "(nat \<Rightarrow> bool) \<Rightarrow> lib \<Rightarrow> nat \<Rightarrow> bool \<Rightarrow> ZiaEngine \<Rightarrow> env \<Rightarrow> (bool \<times> bool \<times> ZiaEngine \<times> env) rprog" where
  "import_prog alloc L 0 vue en e = Stop (Some (True, vue, en, e))"
| "import_prog alloc L (Suc n) vue en e =
     (let failed = (False, vue, en, e);
          payload = payload_prog alloc L (import_prog alloc L n) vue en e
      in Read 1 failed (\<lambda>kind. Read 4 failed (\<lambda>n4.
           if read_u32_le n4 > 0 then Read (ucast (read_u32_le n4)) failed (payload (hd kind)) else payload (hd kind) [])))"

definition import_on_readers :: "(nat \<Rightarrow> bool) \<Rightarrow> lib \<Rightarrow> ZiaEngine \<Rightarrow> bytes \<Rightarrow> bytes \<Rightarrow> env \<Rightarrow>
    (ZiaStatus \<times> bytes + bool \<times> bool \<times> ZiaEngine \<times> env) option" where
  "import_on_readers alloc L en pass data e =
     (case run_prog alloc backup_reader_read (backup_open_prog L pass) (new_reader data) of
        None \<Rightarrow> None
      | Some (Inl x) \<Rightarrow> Some (Inl x)
      | Some (Inr plain) \<Rightarrow>
          map_option Inr (run_prog alloc backup_reader_read
            (Read 4 (False, False, en, e) (\<lambda>b. import_prog alloc L (unat (read_u32_le b)) False en e)) (new_reader plain)))"

lemma unat_widen [simp]: "unat (ucast (k :: u32) :: u64) = unat k"
proof -
  have "unat k < 2 ^ 64" using unsigned_less [of k, where 'a = nat] by simp
  then show ?thesis by (simp add: unsigned_ucast_eq take_bit_nat_eq_self)
qed

lemma asks_all: "asks_below (2 ^ 64) p"
  using unsigned_less [where 'a = nat and ?'b = 64] by (induction p) auto

lemma run_backup_reader: "length data < 2 ^ 64 \<Longrightarrow> run_prog alloc backup_reader_read p (new_reader data) = run_list alloc p data"
  by (rule bkr.run_new [OF _ _ asks_all]) simp_all

lemma asks_otpk: "2400 < b \<Longrightarrow> asks_below b (otpk_prog n en)"
  by (induction n arbitrary: en) simp_all

lemma asks_identity: "2400 < b \<Longrightarrow> asks_below b (identity_prog en)"
  by (simp add: identity_prog_def spk_prog_def pq_prog_def count_prog_def asks_otpk Let_def)

text \<open>The identity parser on the real reader is the list parser.\<close>

lemma identity_on_reader:
  "length data < 2 ^ 63 \<Longrightarrow> run_prog plenty identity_reader_read (identity_prog en) (new_reader data) = Some (deserialize_identity data en)"
  using idr.run_new [of data "identity_prog en"] by (simp add: identity_prog_list asks_identity)

lemma backup_open_list: "run_list alloc (backup_open_prog L pass) data = Some (backup_open L pass data)"
  by (simp add: backup_open_prog_def backup_open_def reader_u64_def reader_read_def Let_def SALTBYTES_def HEADERBYTES_def
      split: option.split)

lemma run_list_read:
  "run_list alloc (Read n refused k) r =
     (case reader_read (unat n) r of None \<Rightarrow> Some refused | Some (bs, r') \<Rightarrow> run_list alloc (k bs) r')"
  by (simp add: reader_read_def)

text \<open>A length followed by that many bytes.\<close>

definition prefixed :: "bytes \<Rightarrow> (bytes \<times> bytes) option" where
  "prefixed r = do { (l, r1) \<leftarrow> reader_u32 r; reader_read (unat l) r1 }"

lemma run_prefixed:
  "run_list alloc (Read 4 refused (\<lambda>l4. Read (ucast (read_u32_le l4)) refused k)) r =
     (case prefixed r of None \<Rightarrow> Some refused | Some (bs, r2) \<Rightarrow> run_list alloc (k bs) r2)"
  by (simp add: prefixed_def run_list_read reader_u32_def del: run_list.simps(2) split: option.split prod.split)

lemma run_prefixed_if:
  "run_list alloc (Read 4 refused (\<lambda>l4. if 0 < read_u32_le l4 then Read (ucast (read_u32_le l4)) refused k else k [])) r =
     run_list alloc (Read 4 refused (\<lambda>l4. Read (ucast (read_u32_le l4)) refused k)) r"
  by (simp add: word_gt_0)

lemma read_entry_prefixed:
  "read_entry r =
     do { (kind, r1) \<leftarrow> reader_read 1 r; (nom, r2) \<leftarrow> prefixed r1; (payload, r3) \<leftarrow> prefixed r2;
          Some ((hd kind, nom, payload), r3) }"
  by (simp add: read_entry_def prefixed_def split_def bind_assoc)

lemma prefixed_short: "prefixed r = Some (bs, r') \<Longrightarrow> length bs < 2 ^ 63"
proof -
  have "length bs < 2 ^ 63" if "reader_read (unat k) q = Some (bs, r')" for k :: u32 and q
    using that unsigned_less [of k, where 'a = nat] by (simp add: reader_read_Some)
  then show "prefixed r = Some (bs, r') \<Longrightarrow> length bs < 2 ^ 63"
    by (auto simp: prefixed_def split: bind_splits)
qed

lemma record_prog_list:
  assumes "length payload < 2 ^ 63" "\<And>vue en e. run_list plenty (next vue en e) p = Some (after vue en e)"
  shows "run_list plenty (record_prog plenty L next vue en e kind nom payload) p = Some (
    if kind = kKindIdentity then
      (let (ok, en') = deserialize_identity payload en in if ok then after True en' e else (False, False, en', e))
    else if kind = kKindVault then
      (let (ok, e') = secure_write L en nom (Buf payload) e in if ok then after vue en e' else (False, vue, en, e'))
    else after vue en e)"
  by (simp add: record_prog_def identity_on_reader [OF assms(1)] assms(2) split: prod.split)

lemma import_prog_read:
  "run_list alloc (import_prog alloc L (Suc n) vue en e) p =
     (case reader_read 1 p of None \<Rightarrow> Some (False, vue, en, e) | Some (kind, r1) \<Rightarrow>
       (case prefixed r1 of None \<Rightarrow> Some (False, vue, en, e) | Some (nom, r2) \<Rightarrow>
         (case prefixed r2 of None \<Rightarrow> Some (False, vue, en, e) | Some (payload, r3) \<Rightarrow>
            run_list alloc (record_prog alloc L (import_prog alloc L n) vue en e (hd kind) nom payload) r3)))"
proof -
  have payload: "run_list alloc (payload_prog alloc L next vue en e kind nom) r =
      (case prefixed r of None \<Rightarrow> Some (False, vue, en, e) | Some (payload, r3) \<Rightarrow>
         run_list alloc (record_prog alloc L next vue en e kind nom payload) r3)" for L "next" kind nom r
    unfolding payload_prog_def Let_def by (rule run_prefixed)
  show ?thesis
    unfolding import_prog.simps Let_def run_list_read [of _ 1]
      run_prefixed_if [of _ _ "payload_prog alloc L (import_prog alloc L n) vue en e kind" for kind] run_prefixed payload by simp
qed

lemma import_prog_list: "run_list plenty (import_prog plenty L n vue en e) p = Some (import_loop L n p vue en e)"
proof (induction n arbitrary: vue en e p)
  case (Suc n)
  consider "reader_read 1 p = None"
    | kind r1 where "reader_read 1 p = Some (kind, r1)" "prefixed r1 = None"
    | kind r1 nom r2 where "reader_read 1 p = Some (kind, r1)" "prefixed r1 = Some (nom, r2)" "prefixed r2 = None"
    | kind r1 nom r2 payload r3 where
      "reader_read 1 p = Some (kind, r1)" "prefixed r1 = Some (nom, r2)" "prefixed r2 = Some (payload, r3)"
    by (metis option.exhaust surj_pair)
  then show ?case
  proof cases
    case read: (4 kind r1 nom r2 payload r3)
    then have entry: "read_entry p = Some ((hd kind, nom, payload), r3)" by (simp add: read_entry_prefixed)
    from read have "run_list plenty (import_prog plenty L (Suc n) vue en e) p =
        run_list plenty (record_prog plenty L (import_prog plenty L n) vue en e (hd kind) nom payload) r3"
      unfolding import_prog_read by simp
    also have "\<dots> = Some (import_loop L (Suc n) p vue en e)"
      unfolding record_prog_list [OF prefixed_short [OF read(3)] Suc.IH] import_loop.simps entry by simp
    finally show ?thesis .
  qed (unfold import_prog_read, simp_all add: read_entry_prefixed)
qed simp

section \<open>Properties\<close>

text \<open>A documented fact of the secret stream: a plaintext is not longer than its ciphertext.\<close>

definition pull_shrinks :: "lib \<Rightarrow> bool" where
  "pull_shrinks L \<longleftrightarrow> (\<forall>st c m tag. secretstream_pull L st c = Some (m, tag) \<longrightarrow> length m \<le> length c)"

lemma backup_open_plain_length:
  assumes "pull_shrinks L" "backup_open L pass data = Inr plain"
  shows "length plain \<le> length data"
  using assms by (auto simp: backup_open_def pull_shrinks_def reader_read_Some reader_u64_def
      split: option.splits if_splits bind_splits prod.splits) (metis le_trans length_append le_add2)

text \<open>
  C13 (refinement).  Importing a backup through the two \<open>Reader\<close> classes, with 64-bit cursors and the bounds checks as
  they are written, does what the parsers on lists do: for any bytes, whatever lengths and counts they announce, no check
  wraps around and no byte outside the input is read; the header is accepted or refused with the same message, and the
  records are processed, up to the same point, with the same engine and the same files as a result.  The allocator
  is one that grants every request; what a hostile count makes the parser ask of it is shown below.
\<close>

theorem backup_readers_refine:
  assumes "pull_shrinks L" "length data < 2 ^ 64"
  shows "import_on_readers plenty L en pass data e =
    Some (case backup_open L pass data of
        Inl x \<Rightarrow> Inl x
      | Inr plain \<Rightarrow> Inr (case reader_u32 plain of
            None \<Rightarrow> (False, False, en, e)
          | Some (count, p) \<Rightarrow> import_loop L (unat count) p False en e))"
proof (cases "backup_open L pass data")
  case (Inl x)
  then show ?thesis by (simp add: import_on_readers_def run_backup_reader [OF assms(2)] backup_open_list)
next
  case (Inr plain)
  with backup_open_plain_length [OF assms(1)] assms(2) have "length plain < 2 ^ 64" by fastforce
  moreover have "run_list plenty (Read 4 (False, False, en, e) (\<lambda>b. import_prog plenty L (unat (read_u32_le b)) False en e)) plain =
      Some (case reader_u32 plain of None \<Rightarrow> (False, False, en, e)
        | Some (count, p) \<Rightarrow> import_loop L (unat count) p False en e)"
    by (simp add: import_prog_list reader_u32_def reader_read_def)
  ultimately show ?thesis
    by (simp only: import_on_readers_def run_backup_reader [OF assms(2)] run_backup_reader backup_open_list Inr
        option.case sum.case option.map)
qed

lemma sample_pull_shrinks: "pull_shrinks sample_lib"
  by (auto simp: pull_shrinks_def sample_lib_def sample_dec_def Let_def split: list.splits if_splits)

text \<open>A backup with a given content, in the sample library.\<close>

definition sample_backup :: "bytes \<Rightarrow> bytes" where
  "sample_backup plain = kMagic @ replicate 16 0 @ put_u64 4 @ put_u64 8192 @ replicate 24 0 @
     TAG_FINAL # sample_enc (pad 32 (replicate 16 0)) plain"

lemma sample_backup_open: "backup_open sample_lib [] (sample_backup plain) = Inr plain"
  by (simp add: backup_open_def sample_backup_def kMagic_def SALTBYTES_def HEADERBYTES_def ABYTES_def MEMLIMIT_MIN_def
      le64.get_put_exact sample_lib_def)

lemma length_sample_backup: "length (sample_backup plain) = 81 + length plain"
  by (simp add: sample_backup_def kMagic_def)

text \<open>A backup whose only record announces four gigabytes of payload that are not there.\<close>

theorem backup_readers_refine_witness:
  "import_on_readers plenty sample_lib sample_engine []
     (sample_backup (write_u32_le 1 @ [7] @ write_u32_le 0 @ write_u32_le 0xFFFFFFFF)) env0 =
   Some (Inr (False, False, sample_engine, env0))"
proof -
  let ?plain = "write_u32_le 1 @ [7] @ write_u32_le 0 @ write_u32_le 0xFFFFFFFF"
  have "length (sample_backup ?plain) < 2 ^ 64" by (simp add: length_sample_backup)
  from backup_readers_refine [OF sample_pull_shrinks this, of sample_engine "[]" env0]
  show ?thesis
    by (simp add: sample_backup_open read_entry_def reader_read_def reader_u32_def le32.get_put_exact)
qed

text \<open>
  An identity record that announces \<open>2\<^sup>3\<^sup>2 - 1\<close> one-time prekeys and holds none, and the content of a backup with it.
\<close>

definition hostile_identity :: bytes where
  "hostile_identity = [2, 0] @ replicate 32 0 @ [0, 0] @ write_u32_le 0xFFFFFFFF"

definition hostile_content :: bytes where
  "hostile_content = write_u32_le 1 @ backup_entry kKindIdentity [] hostile_identity"

text \<open>
  The memory for the announced one-time prekeys is reserved before any of them has been read.  A backup of
  fewer than two hundred bytes whose identity record announces \<open>2\<^sup>3\<^sup>2 - 1\<close> of them ends the process on every device that
  cannot provide 240 gigabytes, although its parameters are checked against hostile allocations and a refusal was meant.
\<close>

lemma hostile_count_ends_process:
  assumes "pull_shrinks L" "length data < 2 ^ 64" "backup_open L pass data = Inr hostile_content"
    and "\<not> alloc ((2 ^ 32 - 1) * sizeof_ZiaOneTimePrekey)"
  shows "import_on_readers alloc L en pass data e = None"
proof -
  have "run_prog alloc identity_reader_read (identity_prog en) (new_reader hostile_identity) =
      run_list alloc (identity_prog en) hostile_identity"
    using idr.run_new [of hostile_identity "identity_prog en" alloc] asks_identity by (simp add: hostile_identity_def)
  also have "\<dots> = None"
    using assms(4) by (simp add: identity_prog_def hostile_identity_def spk_prog_def pq_prog_def count_prog_def
        kFormatVersion_def Let_def le32.get_put_exact)
  finally have id: "run_prog alloc identity_reader_read (identity_prog en) (new_reader hostile_identity) = None" .
  have hostile_prefix: "prefixed (write_u32_le 0 @ r) = Some ([], r)"
    "prefixed (write_u32_le (of_nat (length hostile_identity)) @ hostile_identity) = Some (hostile_identity, [])" for r
    by (simp_all add: prefixed_def reader_read_def, simp add: hostile_identity_def)
  have "run_list alloc (import_prog alloc L 1 False en e) (backup_entry kKindIdentity [] hostile_identity) = None"
    unfolding One_nat_def import_prog_read by (simp add: backup_entry_def record_prog_def id hostile_prefix)
  moreover have "length hostile_content < 2 ^ 64" by (simp add: hostile_content_def backup_entry_def hostile_identity_def)
  ultimately show ?thesis
    by (simp add: import_on_readers_def run_backup_reader [OF assms(2)] run_backup_reader backup_open_list assms(3)
        hostile_content_def le32.get_put_exact del: run_prog.simps)
qed

lemma hostile_count_example:
  "import_on_readers (\<lambda>n. n < 2 ^ 37) sample_lib sample_engine [] (sample_backup hostile_content) env0 = None \<and>
   length (sample_backup hostile_content) < 200"
proof -
  have len: "length (sample_backup hostile_content) < 200"
    by (simp add: length_sample_backup hostile_content_def backup_entry_def hostile_identity_def)
  have "import_on_readers (\<lambda>n. n < 2 ^ 37) sample_lib sample_engine [] (sample_backup hostile_content) env0 = None"
    by (rule hostile_count_ends_process [OF sample_pull_shrinks _ sample_backup_open])
      (use len in \<open>simp_all add: sizeof_ZiaOneTimePrekey_def\<close>)
  with len show ?thesis by simp
qed

end
