(* ===== verification/Runner_Arguments.thy ===== *)
theory Runner_Arguments
  imports Prelude
begin

text \<open>
  \<open>app/windows/runner/utils.cpp\<close>: the arguments of the process, converted from UTF-16 to UTF-8 for the Dart program.  The
  conversion itself is the function \<open>WideCharToMultiByte\<close> of the system, represented by the parameter \<open>conv\<close>: the UTF-8
  form of a string, or none when the string is not well-formed UTF-16.
\<close>

section \<open>The system function\<close>

type_synonym u16 = "16 word"
type_synonym converter = "u16 list \<Rightarrow> bytes option"

text \<open>
  Called on a string with its terminator and without a buffer it returns the size of the result, terminator included, as
  an \<open>int\<close>; called on a string of known length it writes into a buffer and returns the number of bytes.  Both return 0 on
  failure.
\<close>

definition WideCharToMultiByte_size :: "converter \<Rightarrow> u16 list \<Rightarrow> u32" where
  "WideCharToMultiByte_size conv s = (case conv s of None \<Rightarrow> 0 | Some b \<Rightarrow> of_nat (length b + 1))"

definition WideCharToMultiByte :: "converter \<Rightarrow> u16 list \<Rightarrow> bytes \<Rightarrow> u32 \<times> bytes" where
  "WideCharToMultiByte conv s buffer =
     (case conv s of
        None \<Rightarrow> (0, buffer)
      | Some b \<Rightarrow> if length buffer < length b then (0, buffer) else (of_nat (length b), b @ drop (length b) buffer))"

section \<open>\<open>utils.cpp\<close>\<close>

text \<open>\<open>std::string::max_size()\<close> on a 64-bit system.\<close>

definition max_size :: nat where "max_size = 2 ^ 63 - 1"

text \<open>
  \<open>alloc\<close> says which sizes a string can be resized to; the exception thrown otherwise is caught nowhere: \<open>None\<close>.
\<close>

definition Utf8FromUtf16 :: "(nat \<Rightarrow> bool) \<Rightarrow> converter \<Rightarrow> u16 list option \<Rightarrow> bytes option" where
  "Utf8FromUtf16 alloc conv utf16_string =
     (case utf16_string of
        None \<Rightarrow> Some []
      | Some s \<Rightarrow>
          let target_length = WideCharToMultiByte_size conv s - 1 in
          if target_length = 0 \<or> unat target_length > max_size then Some []
          else if \<not> alloc (unat target_length) then None
          else let (converted_length, utf8_string) = WideCharToMultiByte conv s (replicate (unat target_length) 0) in
            if converted_length = 0 then Some [] else Some utf8_string)"

primrec convert_all :: "(nat \<Rightarrow> bool) \<Rightarrow> converter \<Rightarrow> u16 list list \<Rightarrow> bytes list option" where
  "convert_all alloc conv [] = Some []"
| "convert_all alloc conv (a # as) =
     (case Utf8FromUtf16 alloc conv (Some a) of
        None \<Rightarrow> None
      | Some b \<Rightarrow> map_option ((#) b) (convert_all alloc conv as))"

text \<open>\<open>argv\<close> is what \<open>CommandLineToArgvW\<close> returns; its first element is the name of the program.\<close>

definition GetCommandLineArguments :: "(nat \<Rightarrow> bool) \<Rightarrow> converter \<Rightarrow> u16 list list option \<Rightarrow> bytes list option" where
  "GetCommandLineArguments alloc conv argv =
     (case argv of None \<Rightarrow> Some [] | Some args \<Rightarrow> convert_all alloc conv (drop 1 args))"

section \<open>Conversion\<close>

lemma convert_valid:
  assumes "conv s = Some b" "length b < 2 ^ 31" "\<And>n. n < 2 ^ 31 \<Longrightarrow> alloc n"
  shows "Utf8FromUtf16 alloc conv (Some s) = Some b"
proof -
  have "WideCharToMultiByte_size conv s - 1 = of_nat (length b)"
    using assms(1) by (simp add: WideCharToMultiByte_size_def)
  moreover have len: "unat (of_nat (length b) :: u32) = length b" using assms(2) by (simp add: unat_of_nat)
  moreover have "(of_nat (length b) :: u32) = 0 \<longleftrightarrow> b = []"
    using len by (auto simp: word_eq_iff_unsigned)
  ultimately show ?thesis
    using assms by (simp add: Utf8FromUtf16_def WideCharToMultiByte_def max_size_def Let_def)
qed

lemma convert_invalid:
  assumes "conv s = None"
  shows "Utf8FromUtf16 alloc conv (Some s) = (if alloc (2 ^ 32 - 1) then Some [] else None)"
proof -
  have "unat (- 1 :: u32) = 2 ^ 32 - 1" by (simp add: unsigned_minus_1_eq_mask mask_eq_exp_minus_1)
  with assms show ?thesis
    by (simp add: Utf8FromUtf16_def WideCharToMultiByte_size_def WideCharToMultiByte_def max_size_def Let_def)
qed

lemma convert_all_valid:
  assumes "\<And>n. n < 2 ^ 31 \<Longrightarrow> alloc n"
  shows "list_all2 (\<lambda>a b. conv a = Some b \<and> length b < 2 ^ 31) as bs \<Longrightarrow> convert_all alloc conv as = Some bs"
proof (induction rule: list_all2_induct)
  case (Cons a as b bs)
  with convert_valid [OF _ _ assms, of conv a b] show ?case by simp
qed simp

lemma convert_all_snoc:
  "convert_all alloc conv (xs @ [y]) =
     (case convert_all alloc conv xs of None \<Rightarrow> None
      | Some cs \<Rightarrow> map_option (\<lambda>c. cs @ [c]) (Utf8FromUtf16 alloc conv (Some y)))"
  by (induction xs) (auto split: option.split simp: option.map_comp o_def)

text \<open>
  Well-formed arguments reach the application unchanged, in order and without the name of the program.  A
  single malformed one (a lone surrogate) makes the subtraction \<open>0 - 1\<close> wrap around at 32 bits, so that a string of
  4294967295 bytes is allocated to hold nothing: where that memory cannot be had the process ends before it has a window,
  and elsewhere the argument arrives as the empty string.
\<close>

lemma arguments_converted_or_wrap:
  assumes "\<And>n. n < 2 ^ 31 \<Longrightarrow> alloc n"
    and "list_all2 (\<lambda>a b. conv a = Some b \<and> length b < 2 ^ 31) as bs" "conv bad = None"
  shows "GetCommandLineArguments alloc conv (Some (name # as)) = Some bs \<and>
    GetCommandLineArguments alloc conv (Some (name # as @ [bad])) = (if alloc 4294967295 then Some (bs @ [[]]) else None)"
proof
  show "GetCommandLineArguments alloc conv (Some (name # as)) = Some bs"
    using convert_all_valid [OF assms(1,2)] by (simp add: GetCommandLineArguments_def)
  show "GetCommandLineArguments alloc conv (Some (name # as @ [bad])) = (if alloc 4294967295 then Some (bs @ [[]]) else None)"
    using convert_all_valid [OF assms(1,2)] convert_invalid [of conv bad alloc, OF assms(3)]
    by (simp add: GetCommandLineArguments_def convert_all_snoc)
qed

text \<open>A converter for ASCII.\<close>

lemma malformed_argument_example:
  "GetCommandLineArguments (\<lambda>n. n < 2 ^ 31) (\<lambda>s. if list_all (\<lambda>c. c < 128) s then Some (map ucast s) else None)
     (Some [[122], [45, 118], [0xD800]]) = None"
proof -
  let ?conv = "\<lambda>s :: u16 list. if list_all (\<lambda>c. c < 128) s then Some (map ucast s) else None"
  have "list_all2 (\<lambda>a b. ?conv a = Some b \<and> length b < 2 ^ 31) [[45, 118]] [[45, 118]]" "?conv [0xD800] = None" by simp_all
  from arguments_converted_or_wrap [of "\<lambda>n. n < 2 ^ 31", OF _ this, of "[122]"] show ?thesis by simp
qed

end
