(* ===== verification/Runner_Windows.thy ===== *)
theory Runner_Windows
  imports Runner_Arguments Complex_Main
begin

text \<open>
  \<open>app/windows/runner\<close>: the process that hosts the application on Windows: the window class, the window object and its
  message handler, the Flutter view inside it, and the message loop.  The system calls the window procedure back while a
  window is created or destroyed, so the functions below take that procedure as a parameter; \<open>WndProc\<close> ties the knot, its
  first argument bounding how deeply activations may nest.
\<close>

section \<open>The system\<close>

record rect =
  r_left :: int
  r_top :: int
  r_right :: int
  r_bottom :: int

datatype wmsg =
    WM_NCCREATE nat
  | WM_DESTROY
  | WM_NCDESTROY
  | WM_CLOSE
  | WM_DPICHANGED rect
  | WM_SIZE
  | WM_ACTIVATE
  | WM_DWMCOLORIZATIONCOLORCHANGED
  | WM_FONTCHANGE
  | WM_OTHER nat

text \<open>
  How a call of \<open>CreateWindow\<close> goes: it succeeds, or fails before the window exists, or after; in the last case the system
  may already have sent \<open>WM_DESTROY\<close>.
\<close>

datatype creation = Created | NoWindow | Withdrawn bool

text \<open>
  The system and the Flutter library, which decide, at each point in time, what they answer: the course of \<open>CreateWindow\<close>,
  the further messages sent while a window is created or destroyed, whether a plugin claims a message, whether the view
  could be set up, the client area, the theme of the registry, and the console calls.  \<open>fl\<close> rounds a number to a double.
\<close>

record win32 =
  creation_of :: "nat \<Rightarrow> creation"
  sent_creating :: "nat \<Rightarrow> wmsg list"
  sent_destroying :: "nat \<Rightarrow> wmsg list"
  claims :: "nat \<Rightarrow> wmsg \<Rightarrow> bool"
  view_ok :: "nat \<Rightarrow> bool"
  native_window :: "nat \<Rightarrow> nat"
  client_rect :: "nat \<Rightarrow> rect"
  light_mode :: "nat \<Rightarrow> nat option"
  dpi_support :: "bool option"
  monitor_dpi :: "nat \<Rightarrow> nat"
  parent_console :: bool
  debugger_present :: bool
  console_allocated :: bool
  reopen_fails :: "nat \<Rightarrow> bool"
  fl :: "rat \<Rightarrow> rat"

text \<open>
  What the process asks of the system.  The messages such a request may in turn cause (moving a window causes \<open>WM_SIZE\<close>)
  are without consequence for the life of the window, and occur as events of their own below.
\<close>

datatype request =
    RegisterClass
  | UnregisterClass
  | CreateWindow int int int int
  | LoadUser32
  | FreeUser32
  | EnableNonClientDpiScaling nat
  | DarkMode nat bool
  | SetWindowPos nat int int int int
  | MoveWindow nat int int int int
  | SetParent nat "nat option"
  | SetFocus nat
  | ShowWindow "nat option"
  | PostQuitMessage
  | ReloadSystemFonts
  | RegisterPlugins
  | ForceRedraw
  | AttachConsole
  | AllocConsole
  | ReopenConsole nat
  | DuplicateStdout nat
  | ResyncStreams
  | CoInitializeEx
  | CoUninitialize

section \<open>Objects and process\<close>

text \<open>
  A \<open>Win32Window\<close>; \<open>w_derived\<close> says whether its dynamic type is \<open>FlutterWindow\<close>, which it stops being when the destructor of
  the base class runs, \<open>w_controller\<close> whether \<open>flutter_controller_\<close> points to a controller, and \<open>w_frame_callback\<close> whether
  the callback that shows the window waits for the first frame.
\<close>

record window_object =
  w_derived :: bool
  w_controller :: bool
  w_quit_on_close :: bool
  w_handle :: "nat option"
  w_child :: "nat option"
  w_frame_callback :: bool

text \<open>
  The process: \<open>g_active_window_count\<close>, \<open>class_registered_\<close>, the objects; and of the system the windows that exist, with
  the object pointer each holds under \<open>GWLP_USERDATA\<close>, whether the class is registered, whether a quit message is posted,
  and a clock that separates its answers.
\<close>

record desk =
  d_count :: int
  d_registered :: bool
  d_objects :: "nat \<rightharpoonup> window_object"
  d_windows :: "nat \<rightharpoonup> nat option"
  d_next :: nat
  d_class :: bool
  d_quit :: bool
  d_clock :: nat
  d_log :: "request list"

datatype 'a outcome = Done 'a | Crashed | TooDeep

primrec and_then :: "'a outcome \<Rightarrow> ('a \<Rightarrow> 'b outcome) \<Rightarrow> 'b outcome" where
  "and_then (Done x) f = f x"
| "and_then Crashed f = Crashed"
| "and_then TooDeep f = TooDeep"

type_synonym proc = "nat \<Rightarrow> wmsg \<Rightarrow> desk \<Rightarrow> desk outcome"

definition ask :: "request \<Rightarrow> desk \<Rightarrow> desk" where
  "ask q d = d\<lparr>d_log := d_log d @ [q]\<rparr>"

definition tick :: "desk \<Rightarrow> desk" where
  "tick d = d\<lparr>d_clock := Suc (d_clock d)\<rparr>"

definition put_object :: "nat \<Rightarrow> window_object \<Rightarrow> desk \<Rightarrow> desk" where
  "put_object p w d = d\<lparr>d_objects := (d_objects d)(p \<mapsto> w)\<rparr>"

text \<open>Using an object that does not exist is undefined behaviour.\<close>

definition on_object :: "nat \<Rightarrow> (window_object \<Rightarrow> desk \<Rightarrow> 'a outcome) \<Rightarrow> desk \<Rightarrow> 'a outcome" where
  "on_object p f d = (case d_objects d p of None \<Rightarrow> Crashed | Some w \<Rightarrow> f w d)"

text \<open>Messages sent one after the other; a window that is gone receives nothing.\<close>

primrec send_all :: "proc \<Rightarrow> nat \<Rightarrow> wmsg list \<Rightarrow> desk \<Rightarrow> desk outcome" where
  "send_all proc h [] d = Done d"
| "send_all proc h (m # ms) d =
     (if h \<in> dom (d_windows d) then and_then (proc h m d) (send_all proc h ms) else Done d)"

text \<open>
  \<open>DestroyWindow\<close>: an unknown handle is refused; otherwise the window procedure receives \<open>WM_DESTROY\<close>, possibly among other
  messages, and \<open>WM_NCDESTROY\<close> last, and the window is gone.  \<open>UnregisterClass\<close> fails while there is a window of the class.
\<close>

definition DestroyWindow :: "win32 \<Rightarrow> proc \<Rightarrow> nat \<Rightarrow> desk \<Rightarrow> desk outcome" where
  "DestroyWindow W proc h d =
     (if h \<notin> dom (d_windows d) then Done d
      else and_then (send_all proc h (sent_destroying W (d_clock d) @ [WM_DESTROY, WM_NCDESTROY]) (tick d))
             (\<lambda>d1. Done (d1\<lparr>d_windows := (d_windows d1)(h := None)\<rparr>)))"

text \<open>\<open>DefWindowProc\<close> destroys a window that is asked to close.\<close>

definition DefWindowProc :: "win32 \<Rightarrow> proc \<Rightarrow> nat option \<Rightarrow> wmsg \<Rightarrow> desk \<Rightarrow> desk outcome" where
  "DefWindowProc W proc h m d =
     (case h of None \<Rightarrow> Done d | Some hw \<Rightarrow> if m = WM_CLOSE then DestroyWindow W proc hw d else Done d)"

section \<open>\<open>win32_window.cpp\<close>\<close>

definition truncate :: "rat \<Rightarrow> int" where
  "truncate x = (if x < 0 then \<lceil>x\<rceil> else \<lfloor>x\<rfloor>)"

definition Scale :: "win32 \<Rightarrow> int \<Rightarrow> rat \<Rightarrow> int" where
  "Scale W source scale_factor = truncate (fl W (of_int source * scale_factor))"

definition EnableFullDpiSupportIfAvailable :: "win32 \<Rightarrow> nat \<Rightarrow> desk \<Rightarrow> desk" where
  "EnableFullDpiSupportIfAvailable W h d =
     (let d1 = ask LoadUser32 d in
      case dpi_support W of
        None \<Rightarrow> d1
      | Some found \<Rightarrow> ask FreeUser32 (if found then ask (EnableNonClientDpiScaling h) d1 else d1))"

definition GetWindowClass :: "desk \<Rightarrow> desk" where
  "GetWindowClass d =
     (if d_registered d then d else (ask RegisterClass d)\<lparr>d_registered := True, d_class := True\<rparr>)"

definition UnregisterWindowClass :: "desk \<Rightarrow> desk" where
  "UnregisterWindowClass d =
     (ask UnregisterClass d)\<lparr>d_class := d_class d \<and> dom (d_windows d) \<noteq> {}, d_registered := False\<rparr>"

definition GetClientArea :: "win32 \<Rightarrow> desk \<Rightarrow> rect" where
  "GetClientArea W d = client_rect W (d_clock d)"

definition fill :: "nat \<Rightarrow> rect \<Rightarrow> request" where
  "fill child r = MoveWindow child (r_left r) (r_top r) (r_right r - r_left r) (r_bottom r - r_top r)"

definition SetChildContent :: "win32 \<Rightarrow> nat \<Rightarrow> nat \<Rightarrow> desk \<Rightarrow> desk outcome" where
  "SetChildContent W p content = on_object p (\<lambda>w d.
     let d1 = ask (SetParent content (w_handle w)) (put_object p (w\<lparr>w_child := Some content\<rparr>) d)
     in Done (ask (SetFocus content) (ask (fill content (GetClientArea W d1)) d1)))"

definition UpdateTheme :: "win32 \<Rightarrow> nat \<Rightarrow> desk \<Rightarrow> desk" where
  "UpdateTheme W h d =
     (case light_mode W (d_clock d) of None \<Rightarrow> d | Some light \<Rightarrow> ask (DarkMode h (light = 0)) d)"

definition window_Show :: "nat \<Rightarrow> desk \<Rightarrow> desk outcome" where
  "window_Show p = on_object p (\<lambda>w d. Done (ask (ShowWindow (w_handle w)) d))"

definition SetQuitOnClose :: "nat \<Rightarrow> bool \<Rightarrow> desk \<Rightarrow> desk outcome" where
  "SetQuitOnClose p b = on_object p (\<lambda>w d. Done (put_object p (w\<lparr>w_quit_on_close := b\<rparr>) d))"

text \<open>\<open>OnDestroy\<close>, of the derived class or of the base class.\<close>

definition OnDestroy :: "nat \<Rightarrow> desk \<Rightarrow> desk outcome" where
  "OnDestroy p = on_object p (\<lambda>w d. Done (if w_derived w then put_object p (w\<lparr>w_controller := False\<rparr>) d else d))"

definition window_Destroy :: "win32 \<Rightarrow> proc \<Rightarrow> nat \<Rightarrow> desk \<Rightarrow> desk outcome" where
  "window_Destroy W proc p d =
     and_then (OnDestroy p d) (\<lambda>d1.
     and_then (on_object p (\<lambda>w d2.
         case w_handle w of
           None \<Rightarrow> Done d2
         | Some h \<Rightarrow> and_then (DestroyWindow W proc h d2)
             (on_object p (\<lambda>w' d3. Done (put_object p (w'\<lparr>w_handle := None\<rparr>) d3)))) d1) (\<lambda>d4.
     Done (if d_count d4 = 0 then UnregisterWindowClass d4 else d4)))"

text \<open>\<open>Win32Window::MessageHandler\<close>.\<close>

definition base_MessageHandler :: "win32 \<Rightarrow> proc \<Rightarrow> nat \<Rightarrow> nat \<Rightarrow> wmsg \<Rightarrow> desk \<Rightarrow> desk outcome" where
  "base_MessageHandler W proc p h m = on_object p (\<lambda>w d.
     case m of
       WM_DESTROY \<Rightarrow>
         and_then (window_Destroy W proc p (put_object p (w\<lparr>w_handle := None\<rparr>) d))
           (on_object p (\<lambda>w' d'. Done (if w_quit_on_close w' then (ask PostQuitMessage d')\<lparr>d_quit := True\<rparr> else d')))
     | WM_DPICHANGED r \<Rightarrow> Done (ask (SetWindowPos h (r_left r) (r_top r) (r_right r - r_left r) (r_bottom r - r_top r)) d)
     | WM_SIZE \<Rightarrow> Done (case w_child w of None \<Rightarrow> d | Some c \<Rightarrow> ask (fill c (GetClientArea W d)) d)
     | WM_ACTIVATE \<Rightarrow> Done (case w_child w of None \<Rightarrow> d | Some c \<Rightarrow> ask (SetFocus c) d)
     | WM_DWMCOLORIZATIONCOLORCHANGED \<Rightarrow> Done (UpdateTheme W h d)
     | _ \<Rightarrow> DefWindowProc W proc (w_handle w) m d)"

section \<open>\<open>flutter_window.cpp\<close>\<close>

text \<open>
  The handler that is called: Flutter and the plugins come first; on a change of fonts the controller is used without a
  test, which is a null pointer before it is made and after it is gone.
\<close>

definition MessageHandler :: "win32 \<Rightarrow> proc \<Rightarrow> nat \<Rightarrow> nat \<Rightarrow> wmsg \<Rightarrow> desk \<Rightarrow> desk outcome" where
  "MessageHandler W proc p h m = on_object p (\<lambda>w d.
     if \<not> w_derived w then base_MessageHandler W proc p h m d
     else if w_controller w \<and> claims W (d_clock d) m then Done (tick d)
     else if m = WM_FONTCHANGE then
       (if w_controller w then base_MessageHandler W proc p h m (ask ReloadSystemFonts (tick d)) else Crashed)
     else base_MessageHandler W proc p h m (tick d))"

text \<open>\<open>FlutterWindow::OnCreate\<close>; the one of the base class only returns true.\<close>

definition OnCreate :: "win32 \<Rightarrow> nat \<Rightarrow> desk \<Rightarrow> (bool \<times> desk) outcome" where
  "OnCreate W p = on_object p (\<lambda>w d.
     let d1 = tick (put_object p (w\<lparr>w_controller := True\<rparr>) d) in
     if \<not> view_ok W (d_clock d) then Done (False, d1) else
     and_then (SetChildContent W p (native_window W (d_clock d)) (ask RegisterPlugins d1))
       (on_object p (\<lambda>w' d2.
          Done (True, ask ForceRedraw (put_object p (w'\<lparr>w_frame_callback := True\<rparr>) d2)))))"

text \<open>
  \<open>Win32Window::Create\<close>: an earlier window is destroyed, the system creates one and sends \<open>WM_NCCREATE\<close> with the pointer
  to the object, and \<open>OnCreate\<close> decides.
\<close>

definition window_Create :: "win32 \<Rightarrow> proc \<Rightarrow> nat \<Rightarrow> int \<Rightarrow> int \<Rightarrow> int \<Rightarrow> int \<Rightarrow> desk \<Rightarrow> (bool \<times> desk) outcome" where
  "window_Create W proc p x y width height d =
     and_then (window_Destroy W proc p d) (\<lambda>d0.
       let d1 = GetWindowClass d0;
           scale_factor = fl W (of_nat (monitor_dpi W (d_clock d1)) / 96);
           s = (\<lambda>v. Scale W v scale_factor);
           h = d_next d1;
           d2 = ask (CreateWindow (s x) (s y) (s width) (s height)) d1;
           ran = (\<lambda>ms. send_all proc h (WM_NCCREATE p # sent_creating W (d_clock d2) @ ms)
                    (tick (d2\<lparr>d_windows := (d_windows d2)(h \<mapsto> None), d_next := Suc h\<rparr>)))
       in case creation_of W (d_clock d2) of
            NoWindow \<Rightarrow> Done (False, tick d2)
          | Withdrawn destroyed \<Rightarrow>
              and_then (ran (if destroyed then [WM_DESTROY, WM_NCDESTROY] else [WM_NCDESTROY]))
                (\<lambda>d3. Done (False, d3\<lparr>d_windows := (d_windows d3)(h := None)\<rparr>))
          | Created \<Rightarrow> and_then (ran []) (\<lambda>d3. OnCreate W p (UpdateTheme W h d3)))"

text \<open>The window procedure the class is registered with.\<close>

primrec WndProc :: "nat \<Rightarrow> win32 \<Rightarrow> proc" where
  "WndProc 0 W = (\<lambda>h m d. TooDeep)"
| "WndProc (Suc n) W = (\<lambda>h m d.
     case m of
       WM_NCCREATE p \<Rightarrow>
         on_object p (\<lambda>w d1. DefWindowProc W (WndProc n W) (Some h) m (put_object p (w\<lparr>w_handle := Some h\<rparr>) d1))
           (EnableFullDpiSupportIfAvailable W h (d\<lparr>d_windows := (d_windows d)(h \<mapsto> Some p)\<rparr>))
     | _ \<Rightarrow>
         (case d_windows d h of
            Some (Some p) \<Rightarrow> MessageHandler W (WndProc n W) p h m d
          | _ \<Rightarrow> DefWindowProc W (WndProc n W) (Some h) m d))"

text \<open>The constructor, and the destructors from the derived class to the base class.\<close>

definition new_FlutterWindow :: "nat \<Rightarrow> desk \<Rightarrow> desk" where
  "new_FlutterWindow p d =
     put_object p \<lparr>w_derived = True, w_controller = False, w_quit_on_close = False, w_handle = None, w_child = None,
       w_frame_callback = False\<rparr> (d\<lparr>d_count := d_count d + 1\<rparr>)"

definition delete_FlutterWindow :: "win32 \<Rightarrow> proc \<Rightarrow> nat \<Rightarrow> desk \<Rightarrow> desk outcome" where
  "delete_FlutterWindow W proc p = on_object p (\<lambda>w d.
     and_then (window_Destroy W proc p
        (put_object p (w\<lparr>w_derived := False, w_controller := False\<rparr>) (d\<lparr>d_count := d_count d - 1\<rparr>)))
       (\<lambda>d1. Done (d1\<lparr>d_objects := (d_objects d1)(p := None)\<rparr>)))"

section \<open>\<open>main.cpp\<close>\<close>

text \<open>The console of \<open>utils.cpp\<close>: the standard streams 1 and 2 are opened on it, or copied from the first when that fails.\<close>

definition CreateAndAttachConsole :: "win32 \<Rightarrow> desk \<Rightarrow> desk" where
  "CreateAndAttachConsole W d =
     (let d0 = ask AllocConsole d;
          reopen = (\<lambda>k d. let d' = ask (ReopenConsole k) d in if reopen_fails W k then ask (DuplicateStdout k) d' else d')
      in if console_allocated W then ask ResyncStreams (reopen 2 (reopen 1 d0)) else d0)"

definition start_process :: "win32 \<Rightarrow> desk \<Rightarrow> desk" where
  "start_process W d =
     (let d1 = ask AttachConsole d;
          d2 = (if \<not> parent_console W \<and> debugger_present W then CreateAndAttachConsole W d1 else d1)
      in ask CoInitializeEx d2)"

text \<open>
  What the loop meets: a message for a window, which is dropped when the window is gone, or the first frame, on which a
  living controller runs the callback.
\<close>

datatype pump_event = Deliver nat wmsg | FirstFrame

fun handle_event :: "proc \<Rightarrow> nat \<Rightarrow> pump_event \<Rightarrow> desk \<Rightarrow> desk outcome" where
  "handle_event proc p (Deliver h m) d = send_all proc h [m] d"
| "handle_event proc p FirstFrame d =
     on_object p (\<lambda>w d1.
       if w_controller w \<and> w_frame_callback w
       then window_Show p (put_object p (w\<lparr>w_frame_callback := False\<rparr>) d1) else Done d1) d"

primrec message_loop :: "proc \<Rightarrow> nat \<Rightarrow> pump_event list \<Rightarrow> desk \<Rightarrow> desk outcome" where
  "message_loop proc p [] d = Done d"
| "message_loop proc p (ev # evs) d = and_then (handle_event proc p ev d) (message_loop proc p evs)"

text \<open>\<open>wWinMain\<close> has returned success or failure, or still waits for messages because none has told it to quit.\<close>

datatype process_state = Returned bool desk | Waiting desk

definition empty_desk :: desk where
  "empty_desk = \<lparr>d_count = 0, d_registered = False, d_objects = Map.empty, d_windows = Map.empty, d_next = 1,
     d_class = False, d_quit = False, d_clock = 0, d_log = []\<rparr>"

definition wWinMain :: "win32 \<Rightarrow> proc \<Rightarrow> bytes list option \<Rightarrow> pump_event list \<Rightarrow> process_state outcome" where
  "wWinMain W proc args evs =
     (case args of
        None \<Rightarrow> Crashed
      | Some _ \<Rightarrow>
          and_then (window_Create W proc 0 10 10 1280 720 (new_FlutterWindow 0 (start_process W empty_desk))) (\<lambda>(ok, d1).
          if \<not> ok then and_then (delete_FlutterWindow W proc 0 d1) (\<lambda>d2. Done (Returned False d2)) else
          and_then (SetQuitOnClose 0 True d1) (\<lambda>d2.
          and_then (message_loop proc 0 evs d2) (\<lambda>d3.
          if d_quit d3 then and_then (delete_FlutterWindow W proc 0 (ask CoUninitialize d3)) (\<lambda>d4. Done (Returned True d4))
          else Done (Waiting d3)))))"

section \<open>What the system promises\<close>

text \<open>
  The messages that mark the life of a window come from the system alone, and where the functions above send them:
  \<open>WM_NCCREATE\<close> is the first message of a window, \<open>WM_DESTROY\<close> and \<open>WM_NCDESTROY\<close> are sent when it is destroyed.
  All other messages may be sent at any time, also while a window is created or destroyed, and posted in any order.
\<close>

fun life_message :: "wmsg \<Rightarrow> bool" where
  "life_message (WM_NCCREATE p) \<longleftrightarrow> True"
| "life_message WM_DESTROY \<longleftrightarrow> True"
| "life_message WM_NCDESTROY \<longleftrightarrow> True"
| "life_message m \<longleftrightarrow> False"


definition system_ok :: "win32 \<Rightarrow> bool" where
  "system_ok W \<longleftrightarrow>
     (\<forall>i. list_all (\<lambda>m. \<not> life_message m) (sent_creating W i)) \<and>
     (\<forall>i. list_all (\<lambda>m. \<not> life_message m) (sent_destroying W i))"

text \<open>
  What can go wrong: a change of fonts announced while a window is made or destroyed, when there is no view; a request
  to close sent to a window that is being destroyed, which starts its destruction again; and two ways to lose the
  window without the process being told to quit.
\<close>

definition font_risk :: "win32 \<Rightarrow> bool" where
  "font_risk W \<longleftrightarrow> (\<exists>i. WM_FONTCHANGE \<in> set (sent_creating W i) \<union> set (sent_destroying W i))"

definition close_risk :: "win32 \<Rightarrow> bool" where
  "close_risk W \<longleftrightarrow> (\<exists>i. WM_CLOSE \<in> set (sent_destroying W i))"

definition claim_risk :: "win32 \<Rightarrow> bool" where
  "claim_risk W \<longleftrightarrow> (\<exists>i. claims W i WM_DESTROY)"


text \<open>An outcome that satisfies a predicate, or whose failure has its cause among them.\<close>

definition fine :: "win32 \<Rightarrow> ('a \<Rightarrow> bool) \<Rightarrow> 'a outcome \<Rightarrow> bool" where
  "fine W P r \<longleftrightarrow> (case r of Done x \<Rightarrow> P x | Crashed \<Rightarrow> font_risk W | TooDeep \<Rightarrow> close_risk W)"

lemma fine_Done [simp]: "fine W P (Done x) = P x"
  by (simp add: fine_def)

lemma fine_and_then: "fine W P r \<Longrightarrow> (\<And>x. P x \<Longrightarrow> fine W Q (f x)) \<Longrightarrow> fine W Q (and_then r f)"
  by (cases r) (auto simp: fine_def)

lemma fine_mono: "fine W P r \<Longrightarrow> (\<And>x. P x \<Longrightarrow> Q x) \<Longrightarrow> fine W Q r"
  by (cases r) (auto simp: fine_def)

section \<open>States up to clock and log\<close>

lemma singleton_map_eq: "[a \<mapsto> x] = [b \<mapsto> y] \<longleftrightarrow> a = b \<and> x = y"
  by (metis fun_upd_apply option.inject option.distinct(1))

definition same :: "desk \<Rightarrow> desk \<Rightarrow> bool" where
  "same d d' \<longleftrightarrow> d_count d' = d_count d \<and> d_registered d' = d_registered d \<and> d_objects d' = d_objects d \<and>
     d_windows d' = d_windows d \<and> d_next d' = d_next d \<and> d_class d' = d_class d \<and> d_quit d' = d_quit d"

lemma ask_fields [simp]:
  "d_count (ask q d) = d_count d" "d_registered (ask q d) = d_registered d" "d_objects (ask q d) = d_objects d"
  "d_windows (ask q d) = d_windows d" "d_next (ask q d) = d_next d" "d_class (ask q d) = d_class d"
  "d_quit (ask q d) = d_quit d" "d_clock (ask q d) = d_clock d"
  by (simp_all add: ask_def)

lemma tick_fields [simp]:
  "d_count (tick d) = d_count d" "d_registered (tick d) = d_registered d" "d_objects (tick d) = d_objects d"
  "d_windows (tick d) = d_windows d" "d_next (tick d) = d_next d" "d_class (tick d) = d_class d"
  "d_quit (tick d) = d_quit d" "d_log (tick d) = d_log d"
  by (simp_all add: tick_def)

lemma put_object_fields [simp]:
  "d_count (put_object p w d) = d_count d" "d_registered (put_object p w d) = d_registered d"
  "d_objects (put_object p w d) = (d_objects d)(p \<mapsto> w)" "d_windows (put_object p w d) = d_windows d"
  "d_next (put_object p w d) = d_next d" "d_class (put_object p w d) = d_class d" "d_quit (put_object p w d) = d_quit d"
  "d_clock (put_object p w d) = d_clock d" "d_log (put_object p w d) = d_log d"
  by (simp_all add: put_object_def)

section \<open>The window procedure as its callers rely on it\<close>

text \<open>
  One object \<open>p\<close>, of which \<open>b\<close> and \<open>q\<close> say whether it is still a \<open>FlutterWindow\<close> and whether it quits on close, and no
  other window than its own, \<open>h\<close>.  Once that is gone the process has been told to quit, if it quits on close and no
  plugin took the message away.  Between messages the object knows its window as long as it exists; \<open>G\<close> is what
  has to be the case for it to be gone.
\<close>

definition attached :: "int \<Rightarrow> bool \<Rightarrow> bool \<Rightarrow> nat \<Rightarrow> nat \<Rightarrow> desk \<Rightarrow> bool" where
  "attached k b q p h d \<longleftrightarrow> d_count d = k \<and>
     (\<exists>w. d_objects d = [p \<mapsto> w] \<and> w_derived w = b \<and> w_quit_on_close w = q) \<and>
     (d_windows d = Map.empty \<or> d_windows d = [h \<mapsto> Some p])"

definition told :: "win32 \<Rightarrow> bool \<Rightarrow> desk \<Rightarrow> bool" where
  "told W q d \<longleftrightarrow> (q \<longrightarrow> d_quit d \<or> claim_risk W)"

definition living :: "win32 \<Rightarrow> bool \<Rightarrow> int \<Rightarrow> bool \<Rightarrow> bool \<Rightarrow> nat \<Rightarrow> nat \<Rightarrow> desk \<Rightarrow> bool" where
  "living W G k b q p h d \<longleftrightarrow> attached k b q p h d \<and>
     (if d_windows d = Map.empty then G \<and> told W q d else \<exists>w. d_objects d p = Some w \<and> w_handle w = Some h)"

lemma same_attached: "same d d' \<Longrightarrow> attached k b q p h d' = attached k b q p h d"
  by (simp add: same_def attached_def)

lemma same_living: "same d d' \<Longrightarrow> living W G k b q p h d' = living W G k b q p h d"
  by (simp add: same_def living_def attached_def told_def)

lemma living_attached: "living W G k b q p h d \<Longrightarrow> attached k b q p h d"
  by (simp add: living_def)

lemma living_True: "living W G k b q p h d \<Longrightarrow> living W True k b q p h d"
  by (simp add: living_def)

lemma attached_present:
  assumes "attached k b q p h d" "d_windows d \<noteq> Map.empty"
  obtains w where "d_windows d = [h \<mapsto> Some p]" "d_objects d = [p \<mapsto> w]" "w_derived w = b" "w_quit_on_close w = q"
  using assms by (auto simp: attached_def)

locale window_procedure =
  fixes W :: win32 and proc :: proc
  assumes message: "system_ok W \<Longrightarrow> living W G k b q p h d \<Longrightarrow> d_windows d \<noteq> Map.empty \<Longrightarrow> \<not> life_message m \<Longrightarrow>
      (m = WM_FONTCHANGE \<Longrightarrow> font_risk W) \<Longrightarrow> (m = WM_CLOSE \<Longrightarrow> G \<and> close_risk W) \<Longrightarrow>
      fine W (living W G k b q p h) (proc h m d)"
    and destroy: "attached k b q p h d \<Longrightarrow> d_windows d \<noteq> Map.empty \<Longrightarrow>
      fine W (\<lambda>d'. attached k b q p h d' \<and> told W q d') (proc h WM_DESTROY d)"
    and ncdestroy: "attached k b q p h d \<Longrightarrow> d_windows d \<noteq> Map.empty \<Longrightarrow>
      fine W (\<lambda>d'. attached k b q p h d' \<and> (told W q d \<longrightarrow> told W q d')) (proc h WM_NCDESTROY d)"
    and nccreate: "d_count d = k \<Longrightarrow> d_objects d = [p \<mapsto> w] \<Longrightarrow> d_windows d = [h \<mapsto> None] \<Longrightarrow>
      fine W (\<lambda>d'. living W G k (w_derived w) (w_quit_on_close w) p h d' \<and> d_windows d' \<noteq> Map.empty) (proc h (WM_NCCREATE p) d)"
begin

lemma send_messages:
  assumes "system_ok W" and then_fine: "\<And>d'. living W G k b q p h d' \<Longrightarrow> fine W Q (send_all proc h ms' d')"
  shows "list_all (\<lambda>m. \<not> life_message m) ms \<Longrightarrow> (WM_FONTCHANGE \<in> set ms \<Longrightarrow> font_risk W) \<Longrightarrow>
    (\<And>d. WM_CLOSE \<in> set ms \<Longrightarrow> living W G k b q p h d \<Longrightarrow> d_windows d \<noteq> Map.empty \<Longrightarrow>
       fine W (living W G k b q p h) (proc h WM_CLOSE d)) \<Longrightarrow>
    living W G k b q p h d \<Longrightarrow> fine W Q (send_all proc h (ms @ ms') d)"
proof (induction ms arbitrary: d)
  case Nil
  then show ?case using then_fine by simp
next
  case (Cons m ms)
  show ?case
  proof (cases "h \<in> dom (d_windows d)")
    case True
    then have present: "d_windows d \<noteq> Map.empty" by auto
    have step: "fine W (living W G k b q p h) (proc h m d)"
    proof (cases "m = WM_CLOSE")
      case True
      with Cons.prems(3) [of d] Cons.prems(4) present show ?thesis by simp
    next
      case False
      with Cons.prems present show ?thesis by (intro message [OF assms(1)]) auto
    qed
    have "fine W Q (and_then (proc h m d) (send_all proc h (ms @ ms')))"
      by (rule fine_and_then [OF step], rule Cons.IH) (use Cons.prems in auto)
    with True show ?thesis by simp
  next
    case False
    then have "send_all proc h ((m # ms) @ ms') d = Done d" "send_all proc h ms' d = Done d" by (cases ms'; simp)+
    with then_fine [OF Cons.prems(4)] show ?thesis by simp
  qed
qed

text \<open>\<open>WM_DESTROY\<close> and \<open>WM_NCDESTROY\<close> at the end of a window.\<close>

lemma send_end:
  assumes "living W G k b q p h d"
  shows "fine W (\<lambda>d'. attached k b q p h d' \<and> told W q d') (send_all proc h [WM_DESTROY, WM_NCDESTROY] d)"
proof (cases "d_windows d = Map.empty")
  case True
  with assms show ?thesis by (simp add: living_def)
next
  case False
  have at: "attached k b q p h d" by (rule living_attached [OF assms])
  then have h: "h \<in> dom (d_windows d)" using False by (auto simp: attached_def)
  have "fine W (\<lambda>d'. attached k b q p h d' \<and> told W q d') (send_all proc h [WM_NCDESTROY] d1)"
    if d1: "attached k b q p h d1 \<and> told W q d1" for d1
  proof (cases "d_windows d1 = Map.empty")
    case True
    with d1 show ?thesis by simp
  next
    case False
    then have "h \<in> dom (d_windows d1)" using d1 by (auto simp: attached_def)
    moreover have "fine W (\<lambda>d'. attached k b q p h d' \<and> told W q d') (and_then (proc h WM_NCDESTROY d1) (send_all proc h []))"
      by (rule fine_and_then [OF ncdestroy [OF conjunct1 [OF d1] False]]) (use d1 in simp)
    ultimately show ?thesis by simp
  qed
  with h destroy [OF at False] show ?thesis by (auto intro!: fine_and_then)
qed

lemma DestroyWindow_fine:
  assumes "system_ok W" "living W G k b q p h d"
  shows "fine W (\<lambda>d'. attached k b q p h d' \<and> d_windows d' = Map.empty \<and> told W q d') (DestroyWindow W proc h d)"
proof (cases "d_windows d = Map.empty")
  case True
  with assms(2) show ?thesis by (simp add: DestroyWindow_def living_def)
next
  case False
  let ?ms = "sent_destroying W (d_clock d)"
  have h: "h \<in> dom (d_windows d)" using living_attached [OF assms(2)] False by (auto simp: attached_def)
  have live: "living W True k b q p h (tick d)"
    using living_True [OF assms(2)] same_living [of d "tick d"] by (simp add: same_def)
  have "fine W (\<lambda>d'. attached k b q p h d' \<and> told W q d') (send_all proc h (?ms @ [WM_DESTROY, WM_NCDESTROY]) (tick d))"
  proof (rule send_messages [OF assms(1) send_end _ _ _ live])
    show "list_all (\<lambda>m. \<not> life_message m) ?ms" using assms(1) by (simp add: system_ok_def)
    show "font_risk W" if "WM_FONTCHANGE \<in> set ?ms" using that by (auto simp: font_risk_def)
    show "fine W (living W True k b q p h) (proc h WM_CLOSE d')"
      if "WM_CLOSE \<in> set ?ms" "living W True k b q p h d'" "d_windows d' \<noteq> Map.empty" for d'
      by (rule message [OF assms(1) that(2,3)]) (use that(1) in \<open>auto simp: close_risk_def\<close>)
  qed
  then have "fine W (\<lambda>d'. attached k b q p h d' \<and> d_windows d' = Map.empty \<and> told W q d')
      (and_then (send_all proc h (?ms @ [WM_DESTROY, WM_NCDESTROY]) (tick d)) (\<lambda>d1. Done (d1\<lparr>d_windows := (d_windows d1)(h := None)\<rparr>)))"
    by (rule fine_and_then) (auto simp: attached_def told_def)
  with h show ?thesis by (simp add: DestroyWindow_def del: send_all.simps)
qed

end

section \<open>The handler\<close>

text \<open>Messages other than a request to close leave everything as it is; the exception is a change of fonts without view.\<close>

lemma handler_kept:
  assumes "d_objects d p = Some w" "\<not> life_message m" "m \<noteq> WM_CLOSE" "m = WM_FONTCHANGE \<longrightarrow> \<not> w_derived w \<or> w_controller w"
  shows "\<exists>d'. MessageHandler W proc p h m d = Done d' \<and> same d d'"
  using assms
  by (cases m) (auto simp: MessageHandler_def base_MessageHandler_def on_object_def DefWindowProc_def UpdateTheme_def same_def
      split: option.split)

lemma handler_font_crash:
  assumes "d_objects d p = Some w" "w_derived w" "\<not> w_controller w"
  shows "MessageHandler W proc p h WM_FONTCHANGE d = Crashed"
  using assms by (simp add: MessageHandler_def on_object_def)

lemma handler_ncdestroy:
  assumes "p \<in> dom (d_objects d)"
  shows "\<exists>d'. MessageHandler W proc p h WM_NCDESTROY d = Done d' \<and> same d d'"
  using assms
  by (auto simp: MessageHandler_def base_MessageHandler_def on_object_def DefWindowProc_def same_def split: option.split)

lemma handler_close:
  assumes "d_objects d p = Some w"
  shows "MessageHandler W proc p h WM_CLOSE d =
    (if w_derived w \<and> w_controller w \<and> claims W (d_clock d) WM_CLOSE then Done (tick d)
     else DefWindowProc W proc (w_handle w) WM_CLOSE (if w_derived w then tick d else d))"
  using assms by (simp add: MessageHandler_def base_MessageHandler_def on_object_def)

lemma handler_destroy:
  assumes "attached k b q p h d" "d_windows d \<noteq> Map.empty"
  shows "\<exists>d'. MessageHandler W proc p h WM_DESTROY d = Done d' \<and> attached k b q p h d' \<and> told W q d'"
proof -
  obtain w where w: "d_windows d = [h \<mapsto> Some p]" "d_objects d = [p \<mapsto> w]" "w_derived w = b" "w_quit_on_close w = q"
    by (rule attached_present [OF assms])
  show ?thesis
  proof (cases "b \<and> w_controller w \<and> claims W (d_clock d) WM_DESTROY")
    case True
    then have "MessageHandler W proc p h WM_DESTROY d = Done (tick d)" "claim_risk W"
      using w by (auto simp: MessageHandler_def on_object_def claim_risk_def)
    then show ?thesis using assms(1) by (auto simp: attached_def told_def)
  next
    case False
    with w assms(1) show ?thesis
      by (cases b) (auto simp: MessageHandler_def base_MessageHandler_def window_Destroy_def OnDestroy_def UnregisterWindowClass_def
          on_object_def attached_def told_def)
  qed
qed

lemma handler_message:
  assumes I: "living W G k b q p h d" "d_windows d \<noteq> Map.empty" "\<not> life_message m" "m = WM_FONTCHANGE \<Longrightarrow> font_risk W"
    and close: "\<And>d'. m = WM_CLOSE \<Longrightarrow> living W G k b q p h d' \<Longrightarrow> d_windows d' \<noteq> Map.empty \<Longrightarrow>
      fine W (living W G k b q p h) (DestroyWindow W proc h d')"
  shows "fine W (living W G k b q p h) (MessageHandler W proc p h m d)"
proof -
  obtain w where w: "d_windows d = [h \<mapsto> Some p]" "d_objects d = [p \<mapsto> w]" "w_handle w = Some h"
    using I(1,2) by (auto simp: living_def attached_def split: if_splits)
  then have wp: "d_objects d p = Some w" by simp
  consider "m = WM_CLOSE" | "m = WM_FONTCHANGE" "w_derived w" "\<not> w_controller w"
    | "m \<noteq> WM_CLOSE" "m = WM_FONTCHANGE \<longrightarrow> \<not> w_derived w \<or> w_controller w" by blast
  then show ?thesis
  proof cases
    case 1
    have "living W G k b q p h (tick d)" using I(1) same_living [of d "tick d"] by (simp add: same_def)
    with 1 close [of d] close [of "tick d"] handler_close [OF wp, of W proc h] w(3) I(1,2) show ?thesis
      by (simp add: DefWindowProc_def)
  next
    case 2
    with handler_font_crash [OF wp] I(4) show ?thesis by (simp add: fine_def)
  next
    case 3
    from handler_kept [OF wp I(3) 3] obtain d' where "MessageHandler W proc p h m d = Done d'" "same d d'" by blast
    with I(1) same_living show ?thesis by simp
  qed
qed

lemma nccreate_wndproc:
  assumes "d_objects d p = Some w"
  shows "\<exists>d'. WndProc (Suc n) W h (WM_NCCREATE p) d = Done d' \<and>
    same (put_object p (w\<lparr>w_handle := Some h\<rparr>) (d\<lparr>d_windows := (d_windows d)(h \<mapsto> Some p)\<rparr>)) d'"
  using assms
  by (auto simp: on_object_def DefWindowProc_def EnableFullDpiSupportIfAvailable_def same_def Let_def split: option.split)

lemma wndproc_dispatch:
  assumes "d_windows d h = Some (Some p)" "\<And>q. m \<noteq> WM_NCCREATE q"
  shows "WndProc (Suc n) W h m d = MessageHandler W (WndProc n W) p h m d"
  using assms by (simp split: wmsg.split)

text \<open>A procedure that always reports the nesting exhausted.\<close>

lemma DestroyWindow_0:
  assumes "living W G k b q p h d" "d_windows d \<noteq> Map.empty"
  shows "DestroyWindow W (WndProc 0 W) h d = TooDeep"
proof -
  have "h \<in> dom (d_windows d)" using assms by (auto simp: living_def attached_def)
  then show ?thesis by (cases "sent_destroying W (d_clock d)") (auto simp: DestroyWindow_def)
qed

text \<open>Every level of nesting meets the contract.\<close>

lemma present_dispatch:
  assumes "attached k b q p h d" "d_windows d \<noteq> Map.empty" "\<And>r. m \<noteq> WM_NCCREATE r"
  shows "WndProc (Suc n) W h m d = MessageHandler W (WndProc n W) p h m d"
  by (rule wndproc_dispatch [OF _ assms(3)]) (use assms(1,2) in \<open>auto simp: attached_def\<close>)

lemma dispatched_message:
  assumes I: "living W G k b q p h d" "d_windows d \<noteq> Map.empty" "\<not> life_message m" "m = WM_FONTCHANGE \<Longrightarrow> font_risk W"
    and close: "\<And>d'. m = WM_CLOSE \<Longrightarrow> living W G k b q p h d' \<Longrightarrow> d_windows d' \<noteq> Map.empty \<Longrightarrow>
      fine W (living W G k b q p h) (DestroyWindow W (WndProc n W) h d')"
  shows "fine W (living W G k b q p h) (WndProc (Suc n) W h m d)"
proof -
  have "WndProc (Suc n) W h m d = MessageHandler W (WndProc n W) p h m d"
    using I(3) by (intro present_dispatch [OF living_attached [OF I(1)] I(2)]) auto
  with handler_message [OF I close] show ?thesis by (simp del: WndProc.simps)
qed

lemma procedure_contract:
  assumes close: "\<And>G k b q p h d. system_ok W \<Longrightarrow> living W G k b q p h d \<Longrightarrow> d_windows d \<noteq> Map.empty \<Longrightarrow> G \<Longrightarrow>
      close_risk W \<Longrightarrow> fine W (living W G k b q p h) (DestroyWindow W (WndProc n W) h d)"
  shows "window_procedure W (WndProc (Suc n) W)"
proof
  fix G k b q p h d m
  assume "system_ok W" "living W G k b q p h d" "d_windows d \<noteq> Map.empty" "\<not> life_message m" "m = WM_FONTCHANGE \<Longrightarrow> font_risk W"
    "m = WM_CLOSE \<Longrightarrow> G \<and> close_risk W"
  then show "fine W (living W G k b q p h) (WndProc (Suc n) W h m d)"
    by (intro dispatched_message close) auto
next
  fix k b q p h d
  assume d: "attached k b q p h d" "d_windows d \<noteq> Map.empty"
  from handler_destroy [OF d, of W "WndProc n W"] present_dispatch [OF d, of WM_DESTROY n W]
  show "fine W (\<lambda>d'. attached k b q p h d' \<and> told W q d') (WndProc (Suc n) W h WM_DESTROY d)"
    by (auto simp del: WndProc.simps)
next
  fix k b q p h d
  assume d: "attached k b q p h d" "d_windows d \<noteq> Map.empty"
  then have "p \<in> dom (d_objects d)" by (auto simp: attached_def)
  from handler_ncdestroy [OF this, of W "WndProc n W" h] present_dispatch [OF d, of WM_NCDESTROY n W]
  obtain d' where "WndProc (Suc n) W h WM_NCDESTROY d = Done d'" "same d d'" by (auto simp del: WndProc.simps)
  moreover from this(2) d(1) have "attached k b q p h d'" by (simp add: same_attached)
  moreover from \<open>same d d'\<close> have "told W q d \<longrightarrow> told W q d'" by (simp add: told_def same_def)
  ultimately show "fine W (\<lambda>d'. attached k b q p h d' \<and> (told W q d \<longrightarrow> told W q d')) (WndProc (Suc n) W h WM_NCDESTROY d)"
    by (simp del: WndProc.simps)
next
  fix G k p h and d :: desk and w
  assume "d_count d = k" "d_objects d = [p \<mapsto> w]" "d_windows d = [h \<mapsto> None]"
  then obtain d' where "WndProc (Suc n) W h (WM_NCCREATE p) d = Done d'" and
    d': "d_count d' = k" "d_objects d' = [p \<mapsto> w\<lparr>w_handle := Some h\<rparr>]" "d_windows d' = [h \<mapsto> Some p]"
    using nccreate_wndproc [of d p w n W h] by (auto simp: same_def simp del: WndProc.simps)
  moreover have "living W G k (w_derived w) (w_quit_on_close w) p h d'" by (simp add: living_def attached_def d' singleton_map_eq)
  ultimately show "fine W (\<lambda>d'. living W G k (w_derived w) (w_quit_on_close w) p h d' \<and> d_windows d' \<noteq> Map.empty) (WndProc (Suc n) W h (WM_NCCREATE p) d)"
    by (simp del: WndProc.simps)
qed

lemma window_destroyed:
  assumes "window_procedure W proc" "system_ok W" "living W G k b q p h d" "G"
  shows "fine W (living W G k b q p h) (DestroyWindow W proc h d)"
  by (rule fine_mono [OF window_procedure.DestroyWindow_fine [OF assms(1-3)]]) (use assms(4) in \<open>simp add: living_def\<close>)

lemma wndproc_contract: "window_procedure W (WndProc (Suc n) W)"
proof (induction n)
  case 0
  show ?case by (rule procedure_contract) (simp add: DestroyWindow_0 fine_def del: WndProc.simps)
next
  case (Suc n)
  show ?case by (rule procedure_contract) (rule window_destroyed [OF Suc])
qed

interpretation wp: window_procedure W "WndProc (Suc n) W" for W n
  by (rule wndproc_contract)





section \<open>Creating and destroying through it\<close>

text \<open>One object and at most its own window; and the state with the window open and the view in it.\<close>

definition tidy :: "nat \<Rightarrow> desk \<Rightarrow> bool" where
  "tidy p d \<longleftrightarrow> d_count d = 1 \<and>
     (\<exists>w. d_objects d = [p \<mapsto> w] \<and> w_derived w \<and>
        (d_windows d = Map.empty \<or> (\<exists>h. w_handle w = Some h \<and> d_windows d = [h \<mapsto> Some p])))"


definition all_gone :: "desk \<Rightarrow> bool" where
  "all_gone d \<longleftrightarrow> d_objects d = Map.empty \<and> d_windows d = Map.empty \<and> d_count d = 0 \<and> \<not> d_class d \<and> \<not> d_registered d"



context window_procedure
begin

lemma window_Destroy_none:
  assumes "d_objects d = [p \<mapsto> w]" "d_windows d = Map.empty"
  shows "\<exists>d' w'. window_Destroy W proc p d = Done d' \<and> d_objects d' = [p \<mapsto> w'] \<and> w_derived w' = w_derived w \<and>
    w_quit_on_close w' = w_quit_on_close w \<and> d_windows d' = Map.empty \<and> d_count d' = d_count d \<and>
    (d_count d = 0 \<longrightarrow> \<not> d_class d' \<and> \<not> d_registered d')"
  using assms
  by (auto simp: window_Destroy_def OnDestroy_def on_object_def DestroyWindow_def UnregisterWindowClass_def split: option.split)

lemma window_Destroy_live:
  assumes "system_ok W" "d_objects d = [p \<mapsto> w]" "w_handle w = Some h" "d_windows d = [h \<mapsto> Some p]"
  shows "fine W (\<lambda>d'. dom (d_objects d') = {p} \<and> d_windows d' = Map.empty \<and> d_count d' = d_count d \<and>
    (d_count d = 0 \<longrightarrow> \<not> d_class d' \<and> \<not> d_registered d')) (window_Destroy W proc p d)"
proof -
  let ?w = "w\<lparr>w_controller := w_controller w \<and> \<not> w_derived w\<rparr>" and ?b = "w_derived w" and ?q = "w_quit_on_close w"
  obtain d1 where d1: "OnDestroy p d = Done d1" "same (put_object p ?w d) d1"
    using assms(2) by (cases "w_derived w") (auto simp: OnDestroy_def on_object_def same_def)
  then have w1: "d_objects d1 = [p \<mapsto> ?w]" "d_windows d1 = [h \<mapsto> Some p]" "d_count d1 = d_count d"
    using assms by (auto simp: same_def)
  then have "living W True (d_count d) ?b ?q p h d1"
    using assms(3) by (simp add: living_def attached_def singleton_map_eq)
  from DestroyWindow_fine [OF assms(1) this]
  have "fine W (\<lambda>d'. dom (d_objects d') = {p} \<and> d_windows d' = Map.empty \<and> d_count d' = d_count d)
    (and_then (DestroyWindow W proc h d1) (on_object p (\<lambda>w' d3. Done (put_object p (w'\<lparr>w_handle := None\<rparr>) d3))))"
    by (rule fine_and_then) (auto simp: attached_def on_object_def)
  note fine_and_then [OF this, where f = "\<lambda>d4. Done (if d_count d4 = 0 then UnregisterWindowClass d4 else d4)"]
  moreover have "window_Destroy W proc p d = and_then (and_then (DestroyWindow W proc h d1)
      (on_object p (\<lambda>w' d3. Done (put_object p (w'\<lparr>w_handle := None\<rparr>) d3)))) (\<lambda>d4. Done (if d_count d4 = 0 then UnregisterWindowClass d4 else d4))"
    using assms(3) w1(1) by (simp add: window_Destroy_def d1(1) on_object_def [of p _ d1])
  ultimately show ?thesis by (simp add: UnregisterWindowClass_def)
qed

lemma delete_done:
  assumes "system_ok W" "tidy p d"
  shows "fine W all_gone (delete_FlutterWindow W proc p d)"
proof -
  obtain w where w: "d_objects d = [p \<mapsto> w]" "d_count d = 1"
    "d_windows d = Map.empty \<or> (\<exists>h. w_handle w = Some h \<and> d_windows d = [h \<mapsto> Some p])"
    using assms(2) by (auto simp: tidy_def)
  let ?w = "w\<lparr>w_derived := False, w_controller := False\<rparr>"
  let ?d = "put_object p ?w (d\<lparr>d_count := d_count d - 1\<rparr>)"
  have o: "d_objects ?d = [p \<mapsto> ?w]" "d_count ?d = 0" using w by simp_all
  have "fine W (\<lambda>d1. dom (d_objects d1) = {p} \<and> d_windows d1 = Map.empty \<and> d_count d1 = 0 \<and> \<not> d_class d1 \<and> \<not> d_registered d1)
      (window_Destroy W proc p ?d)"
    using w(3)
  proof
    assume "d_windows d = Map.empty"
    with window_Destroy_none [OF o(1)] o(2) show ?thesis by auto
  next
    assume "\<exists>h. w_handle w = Some h \<and> d_windows d = [h \<mapsto> Some p]"
    then obtain h where "w_handle ?w = Some h" "d_windows ?d = [h \<mapsto> Some p]" by auto
    from window_Destroy_live [OF assms(1) o(1) this] show ?thesis by (rule fine_mono) (use o(2) in auto)
  qed
  then have "fine W all_gone (and_then (window_Destroy W proc p ?d) (\<lambda>d1. Done (d1\<lparr>d_objects := (d_objects d1)(p := None)\<rparr>)))"
    by (rule fine_and_then) (auto simp: all_gone_def dom_eq_singleton_conv)
  with w(1) show ?thesis by (simp add: delete_FlutterWindow_def on_object_def)
qed

end


section \<open>The message loop\<close>

lemma same_start: "same d (start_process W d) \<and> d_clock (start_process W d) = d_clock d"
  by (simp add: start_process_def CreateAndAttachConsole_def same_def Let_def)




section \<open>Properties\<close>


definition sample_win32 :: win32 where
  "sample_win32 =
     \<lparr>creation_of = (\<lambda>_. Created), sent_creating = (\<lambda>_. [WM_OTHER 1, WM_SIZE]), sent_destroying = (\<lambda>_. [WM_ACTIVATE]),
      claims = (\<lambda>_ m. m = WM_OTHER 2), view_ok = (\<lambda>_. True), native_window = (\<lambda>_. 99),
      client_rect = (\<lambda>_. \<lparr>r_left = 0, r_top = 0, r_right = 1264, r_bottom = 681\<rparr>), light_mode = (\<lambda>_. Some 0),
      dpi_support = Some True, monitor_dpi = (\<lambda>_. 144), parent_console = False, debugger_present = True,
      console_allocated = True, reopen_fails = (\<lambda>_. False), fl = id\<rparr>"


text \<open>
  The exceptions are real.  The handler of \<open>flutter_window.cpp\<close> uses the controller without a test: a change of fonts
  announced while the window is being created, before there is a view, ends the process.
\<close>

lemma early_font_change_crashes:
  assumes "creation_of W 0 \<noteq> NoWindow" "sent_creating W 0 = WM_FONTCHANGE # ms"
  shows "wWinMain W (WndProc (Suc n) W) (Some args) evs = Crashed"
proof -
  let ?proc = "WndProc (Suc n) W" and ?d = "new_FlutterWindow 0 (start_process W empty_desk)"
  obtain d0 w where d0: "window_Destroy W ?proc 0 ?d = Done d0" "d_objects d0 = [0 \<mapsto> w]" "d_windows d0 = Map.empty" "d_clock d0 = 0"
    and w: "w_derived w" "\<not> w_controller w"
    using same_start [of empty_desk W]
    by (auto simp: window_Destroy_def OnDestroy_def on_object_def new_FlutterWindow_def empty_desk_def same_def simp del: WndProc.simps)
  have "send_all ?proc h (WM_NCCREATE 0 # WM_FONTCHANGE # rest) d = Crashed"
    if d: "d_objects d = [0 \<mapsto> w]" "d_windows d = [h \<mapsto> None]" for d h rest
  proof -
    obtain d1 where d1: "?proc h (WM_NCCREATE 0) d = Done d1" "d_objects d1 = [0 \<mapsto> w\<lparr>w_handle := Some h\<rparr>]"
      "d_windows d1 h = Some (Some 0)" using nccreate_wndproc [of d 0 w n W h] d by (auto simp: same_def simp del: WndProc.simps)
    then have "?proc h WM_FONTCHANGE d1 = Crashed"
      using w wndproc_dispatch [OF d1(3), of WM_FONTCHANGE] by (simp add: MessageHandler_def on_object_def del: WndProc.simps)
    with d1 d show ?thesis by (simp add: domI del: WndProc.simps)
  qed
  with d0 assms have "window_Create W ?proc 0 10 10 1280 720 ?d = Crashed"
    by (cases "creation_of W 0")
      (simp_all add: window_Create_def Let_def GetWindowClass_def del: WndProc.simps send_all.simps)
  then show ?thesis by (simp add: wWinMain_def del: WndProc.simps)
qed

text \<open>
  A plugin that claims \<open>WM_DESTROY\<close> keeps the base class from posting the quit message: the window is closed and the
  process goes on waiting.
\<close>

lemma claimed_destroy_waits:
  "\<exists>d. wWinMain (sample_win32\<lparr>claims := \<lambda>_ m. m = WM_DESTROY\<rparr>) (WndProc 2 (sample_win32\<lparr>claims := \<lambda>_ m. m = WM_DESTROY\<rparr>))
     (Some []) [Deliver 1 WM_CLOSE] = Done (Waiting d) \<and> d_windows d = Map.empty"
  unfolding numeral_2_eq_2
  by (simp add: wWinMain_def start_process_def CreateAndAttachConsole_def new_FlutterWindow_def empty_desk_def window_Create_def
      window_Destroy_def OnDestroy_def GetWindowClass_def UpdateTheme_def OnCreate_def SetChildContent_def SetQuitOnClose_def
      EnableFullDpiSupportIfAvailable_def MessageHandler_def base_MessageHandler_def DefWindowProc_def DestroyWindow_def
      on_object_def ask_def tick_def put_object_def sample_win32_def Let_def)

end
