(* ===== verification/Runner_Linux.thy ===== *)
theory Runner_Linux
  imports Prelude
begin

text \<open>
  \<open>app/linux/runner/my_application.cc\<close>: the process that hosts the application under GTK.  The toolkit is a sequence of
  requests; what the code owns itself is the vector of arguments, which it copies from the command line, hands to the Dart
  program and frees when the object is disposed of.
\<close>

section \<open>Toolkit and object\<close>

text \<open>
  The answers of the toolkit: whether the application can be registered, and for an X11 screen the name of the window
  manager, if it has one.
\<close>

record gtk =
  can_register :: bool
  x11_screen :: "bytes option option"

datatype gtk_request =
    NewWindow
  | HeaderBar bytes
  | Title bytes
  | DefaultSize nat nat
  | NewView "bytes list"
  | Background bytes
  | ShowView
  | AddView
  | ConnectFirstFrame
  | RealizeView
  | RegisterGtkPlugins
  | GrabFocus
  | ShowToplevel
  | ParentStartup
  | ParentShutdown
  | Warning

text \<open>
  The object, the vectors of strings that are allocated (a null pointer is \<open>None\<close>), and what was asked of the toolkit.
  \<open>None\<close> as a result is undefined behaviour.
\<close>

record app =
  a_arguments :: "nat option"
  a_vectors :: "nat \<rightharpoonup> bytes list"
  a_next :: nat
  a_log :: "gtk_request list"

definition request :: "gtk_request list \<Rightarrow> app \<Rightarrow> app" where
  "request qs a = a\<lparr>a_log := a_log a @ qs\<rparr>"

definition gnome_shell :: bytes where "gnome_shell = ascii ''GNOME Shell''"
definition app_title :: bytes where "app_title = ascii ''ziacrypte''"

definition use_header_bar :: "gtk \<Rightarrow> bool" where
  "use_header_bar G = (case x11_screen G of None \<Rightarrow> True | Some wm_name \<Rightarrow> wm_name = Some gnome_shell)"

text \<open>\<open>fl_dart_project_set_dart_entrypoint_arguments\<close> copies the vector; without one there are no arguments.\<close>

definition my_application_activate :: "gtk \<Rightarrow> app \<Rightarrow> app option" where
  "my_application_activate G a =
     map_option (\<lambda>args.
       request [NewWindow, if use_header_bar G then HeaderBar app_title else Title app_title, DefaultSize 1280 720,
         NewView args, Background (ascii ''#000000''), ShowView, AddView, ConnectFirstFrame, RealizeView, RegisterGtkPlugins, GrabFocus] a)
       (case a_arguments a of None \<Rightarrow> Some [] | Some v \<Rightarrow> a_vectors a v)"

text \<open>Registering runs \<open>startup\<close>, which chains up.\<close>

definition my_application_startup :: "app \<Rightarrow> app" where
  "my_application_startup a = request [ParentStartup] a"

text \<open>
  \<open>g_strdupv(*arguments + 1)\<close> skips the name of the program; of a command line without even a name it would read behind
  the terminator.
\<close>

definition my_application_local_command_line :: "gtk \<Rightarrow> bytes list \<Rightarrow> app \<Rightarrow> (nat \<times> app) option" where
  "my_application_local_command_line G arguments a =
     (case arguments of
        [] \<Rightarrow> None
      | name # rest \<Rightarrow>
          let a1 = a\<lparr>a_vectors := (a_vectors a)(a_next a \<mapsto> rest), a_arguments := Some (a_next a), a_next := Suc (a_next a)\<rparr> in
          if \<not> can_register G then Some (1, request [Warning] a1)
          else map_option (Pair 0) (my_application_activate G (my_application_startup a1)))"

definition first_frame_cb :: "app \<Rightarrow> app" where
  "first_frame_cb a = request [ShowToplevel] a"

definition my_application_shutdown :: "app \<Rightarrow> app" where
  "my_application_shutdown a = request [ParentShutdown] a"

text \<open>\<open>g_clear_pointer(&arguments, g_strfreev)\<close>: nothing for a null pointer; freeing twice would be undefined.\<close>

definition my_application_dispose :: "app \<Rightarrow> app option" where
  "my_application_dispose a =
     (case a_arguments a of
        None \<Rightarrow> Some a
      | Some v \<Rightarrow>
          if a_vectors a v = None then None
          else Some (a\<lparr>a_vectors := (a_vectors a)(v := None), a_arguments := None\<rparr>))"

definition my_application_new :: app where
  "my_application_new = \<lparr>a_arguments = None, a_vectors = Map.empty, a_next = 0, a_log = []\<rparr>"

text \<open>
  \<open>main.cc\<close>: \<open>g_application_run\<close> calls \<open>local_command_line\<close>, runs the loop, in which the view announces its first frame or
  does not, and shuts a registered application down; dropping the last reference disposes of the object, and the toolkit
  may dispose of it more than once.
\<close>

primrec dispose_times :: "nat \<Rightarrow> app \<Rightarrow> app option" where
  "dispose_times 0 a = Some a"
| "dispose_times (Suc n) a = Option.bind (my_application_dispose a) (dispose_times n)"

definition linux_main :: "gtk \<Rightarrow> bytes list \<Rightarrow> bool \<Rightarrow> nat \<Rightarrow> (nat \<times> app) option" where
  "linux_main G argv frame disposals =
     (case my_application_local_command_line G argv my_application_new of
        None \<Rightarrow> None
      | Some (status, a) \<Rightarrow>
          let a1 = (if status = 0 \<and> frame then first_frame_cb a else a);
              a2 = (if status = 0 then my_application_shutdown a1 else a1)
          in map_option (Pair status) (dispose_times (Suc disposals) a2))"

section \<open>The life of the process\<close>

lemma dispose_idle: "a_arguments a = None \<Longrightarrow> dispose_times n a = Some a"
  by (induction n) (simp_all add: my_application_dispose_def)

lemma dispose_frees:
  assumes "a_arguments a = Some v" "a_vectors a v = Some xs"
  shows "dispose_times (Suc n) a = Some (a\<lparr>a_vectors := (a_vectors a)(v := None), a_arguments := None\<rparr>)"
  using assms by (simp add: my_application_dispose_def dispose_idle)

text \<open>
  Started with any command line that has a program name, the process ends with the status of its registration, gives the
  Dart program the arguments without the name, shows its window exactly when a first frame has been drawn, and frees the
  vector once, however often the object is disposed of.
\<close>

lemma linux_runner_lifecycle:
  obtains a where "linux_main G (name # args) frame disposals = Some (if can_register G then 0 else 1, a)"
    "a_vectors a = Map.empty" "a_arguments a = None"
    "NewView xs \<in> set (a_log a) \<longleftrightarrow> can_register G \<and> xs = args"
    "ShowToplevel \<in> set (a_log a) \<longleftrightarrow> can_register G \<and> frame"
proof -
  let ?run = "linux_main G (name # args) frame disposals"
  have "\<exists>a. ?run = Some (if can_register G then 0 else 1, a) \<and> a_vectors a = Map.empty \<and> a_arguments a = None \<and>
      (NewView xs \<in> set (a_log a) \<longleftrightarrow> can_register G \<and> xs = args) \<and> (ShowToplevel \<in> set (a_log a) \<longleftrightarrow> can_register G \<and> frame)"
    unfolding linux_main_def
    by (cases "can_register G"; cases frame)
      (auto simp: my_application_local_command_line_def my_application_new_def my_application_activate_def
        my_application_startup_def my_application_shutdown_def first_frame_cb_def request_def dispose_frees Let_def
        simp del: dispose_times.simps)
  with that show thesis by blast
qed

end
