(* ===== verification/Spec2Isabelle.thy ===== *)
theory Spec2Isabelle
  imports Network Safety_Number Release Engine_Api Lifetime Deadline
    Key_Store_Windows Key_Store_Android Key_Store_Apple Readers Runner_Windows Runner_Linux
begin

text \<open>
  A verification of ZiaCrypte's cryptographic engine (\<open>src/crypto-engine\<close>), the C++ library behind the
  ZiaCrypte messenger, and of the C++ processes that host the application (\<open>src/app/windows/runner\<close>,
  \<open>src/app/linux/runner\<close>).

  \<^bold>\<open>The program.\<close>  An application holds one engine (\<open>ZiaEngine\<close>) and any number of sessions
  (\<open>ZiaSession\<close>), and talks to them through the C functions of \<open>include/zia/zia_crypto.h\<close>.  The engine
  keeps the Ed25519 identity, the prekeys other people use to start a conversation, and the sender keys of
  groups.  \<open>x3dh.cpp\<close> turns a peer's published prekeys into a shared secret (X3DH with an ML-KEM-768
  contribution) and opens a session; \<open>ratchet.cpp\<close> is the Double Ratchet that encrypts and decrypts the
  messages of a session; \<open>session.cpp\<close> saves and restores sessions.  \<open>sender_keys.cpp\<close> encrypts for
  groups, \<open>channel.cpp\<close> wraps a group key under the secret of an invitation link, \<open>sealed_sender.cpp\<close> and
  \<open>attachment.cpp\<close> are one-shot envelopes.  Everything kept on disk (identity, sessions, the vault of
  \<open>secure_blob.cpp\<close> with the lock code of \<open>applock.cpp\<close>) is encrypted under a master key held by the key
  store of the system (one implementation of \<open>SecureKeyStore\<close> per platform); \<open>backup.cpp\<close> re-encrypts it under a
  passphrase.  Secrets live in \<open>SecureBuffer\<close> objects.  \<open>safety_number.cpp\<close> computes the
  number two people compare, \<open>release_signature.cpp\<close> and \<open>tools/sign_release.cpp\<close> check and make the
  signatures of updates.

  \<^bold>\<open>How it is modelled.\<close>  Every definition is a total executable function over byte lists and machine words
  that follows the C++ function of the same name, statement by statement: guards in the source's order, every
  error status, every field assignment, the content a failed call leaves behind.  A struct is a record, a
  buffer a byte list, \<open>uint32_t\<close> a 32-bit word.  libsodium, liboqs, the allocator, the Secret Service and
  the file system are the parameter \<open>lib\<close>; the environment \<open>env\<close> numbers the calls made so far (draws of
  randomness, allocations, system calls), holds the files and the stored secret, and \<open>lib\<close> says which calls
  fail, so every failure branch can be taken.  What a proof needs of a library is a named hypothesis stating
  documented behaviour (\<open>aead_ok\<close>: decryption inverts encryption; \<open>dh_ok\<close>: both sides compute the same
  secret; \<open>disk_ok\<close>: system calls succeed; ...); no hypothesis says that a forgery is impossible, the safety
  properties instead say what was verified before anything happened.  \<open>Sample_Lib\<close> is a library satisfying
  all of them, on which every hypothesis is shown to hold in a concrete run.  An outcome is \<open>Ok\<close>, \<open>Err\<close> with
  the status, or \<open>Crash\<close> where the C++ code would read through a null pointer or outside a buffer.  A
  \<open>SecureBuffer\<close> is the bytes it holds, empty when it was never allocated; \<open>Secure_Memory\<close> justifies this.  Three
  things are not functions of their inputs and are step relations instead: the two threads of a call with a
  deadline, the runs of the abstract key store, and the network between two parties.

  \<^bold>\<open>The theories.\<close>
  \<^item> \<open>Prelude\<close>, \<open>Abi\<close>, \<open>Codec\<close>, \<open>Libs\<close>, \<open>Sample_Lib\<close>, \<open>Interfaces\<close>: byte strings and word lemmas; status
    codes and calling convention; integer encodings and bounds-checked readers with the contracts
    \<open>fixed_codec\<close> and \<open>record_codec\<close>; the library parameter; the contracts of symmetric chains and of
    skipped-key caches that pairwise sessions and groups share.
  \<^item> \<open>Primitives\<close> (\<open>primitives.cpp\<close>): the wrappers and the hand-written HKDF.
  \<^item> \<open>Ratchet\<close> (\<open>ratchet.cpp\<close>, \<open>ratchet_state.hpp\<close>): headers, key derivation, the skipped-key cache, the
    Diffie-Hellman step, encryption and decryption; well-formedness and its preservation, the skip limit,
    which applies after the Diffie-Hellman step to a header with a new remote key, replay, and two defects: a header is acted on before it is authenticated, and an initiator without
    receiving chain can be made to dereference a null pointer.
  \<^item> \<open>Delivery\<close>, \<open>Conversation\<close>: one chain delivered out of order; two parties through any number of turns.
  \<^item> \<open>Network\<close>: two parties on a network that reorders, delays and loses messages, each sending and being
    saved and restored (\<open>Session_Store\<close>) at any time; the invariant that puts the messages under way in
    one-to-one correspondence with the keys the receiver has or will derive, through every step of the ratchet;
    and why a network that duplicates messages is excluded.
  \<^item> \<open>Secure_Memory\<close> (\<open>secure_buffer.hpp\<close>): objects, pointers and heap; every program over them is free of
    undefined behaviour, wipes and releases what it allocated, and refines a map from objects to bytes.
  \<^item> \<open>Master_Key\<close> (\<open>secure_key_store.hpp\<close>): the contract \<open>secure_key_store\<close> with its abstract machine; a store that
    meets it gets, proved once, that every sequence of calls is a run of the machine and that a key is kept.
  \<^item> \<open>Key_Store\<close>, \<open>Key_Store_Windows\<close>, \<open>Key_Store_Android\<close>, \<open>Key_Store_Apple\<close> (\<open>platform/\<close>, and the Kotlin bridge of
    the application): the four implementations, each an interpretation of the contract, and what each does when
    the service behind it fails.
  \<^item> \<open>Deadline\<close> (\<open>TimedCancellable\<close> in \<open>secure_key_store_linux.cpp\<close>): every interleaving of the caller and the
    watcher is safe, and ends.
  \<^item> \<open>Files\<close>, \<open>Secret_Stream\<close> (the shared storage idioms): files with buffered writes, and the at-rest format
    under the master key, which the storage components obtain through the contract \<open>key_vault\<close>.
  \<^item> \<open>Session_Store\<close> (\<open>session.cpp\<close>): the exact state format, save and restore, and the invariant over
    every reachable session, restored ones included.
  \<^item> \<open>Engine_State\<close>, \<open>Identity_Store\<close>, \<open>Identity\<close> (\<open>engine_internal.hpp\<close>, \<open>identity_store.cpp\<close>, \<open>engine.cpp\<close>,
    \<open>identity.cpp\<close>): the identity file, its life through restarts, and what happens when the disk fails.
  \<^item> \<open>X3dh\<close> (\<open>x3dh.cpp\<close>): the handshake agrees, checks the signatures, and spends a one-time prekey once.
  \<^item> \<open>Vault\<close>, \<open>App_Lock\<close>, \<open>Backup\<close> (\<open>secure_blob.cpp\<close>, \<open>vault.cpp\<close>, \<open>applock.cpp\<close>, \<open>backup.cpp\<close>): the vault
    refines a finite map (contract \<open>blob_store\<close>), the lock code, export and import.
  \<^item> \<open>Sender_Keys\<close>, \<open>Envelopes\<close> (\<open>sender_keys.cpp\<close>, \<open>channel.cpp\<close>, \<open>sealed_sender.cpp\<close>, \<open>attachment.cpp\<close>):
    group messages, and what is sealed is opened, to a link, to an identity through restarts, or with an attachment's key.
  \<^item> \<open>Safety_Number\<close>, \<open>Release\<close> (\<open>safety_number.cpp\<close>, \<open>release_signature.cpp\<close>, \<open>tools/sign_release.cpp\<close>).
  \<^item> \<open>Engine_Api\<close>: all exported functions on an engine as calls of one interface; in every state reachable
    through them, failed calls included, keys have their sizes, and a call reads outside a buffer only where the engine claims an
    identity without its private key, which a refused import can bring about.
  \<^item> \<open>Lifetime\<close> (\<open>engine.cpp\<close>, \<open>session.cpp\<close>): the functions that release sessions, engines and buffers, over the heap of
    \<open>Secure_Memory\<close>; in any order they wipe what they free, spare the other handles and leave nothing allocated.
  \<^item> \<open>Readers\<close> (the \<open>Reader\<close> classes of \<open>identity_store.cpp\<close> and \<open>backup.cpp\<close>, the cursor of \<open>session.cpp\<close>): cursors as 64-bit words and the parsers as
    the calls they make; contract \<open>byte_reader\<close>, met by all three, from which the parsers of \<open>Identity_Store\<close>,
    \<open>Backup\<close> and \<open>Session_Store\<close> are shown to be what the code computes; and the memory a hostile count makes the parser reserve.
  \<^item> \<open>Runner_Arguments\<close>, \<open>Runner_Windows\<close> (\<open>utils.cpp\<close>, \<open>win32_window.cpp\<close>, \<open>flutter_window.cpp\<close>, \<open>main.cpp\<close>): the
    arguments, and the window with the calls the system makes back into its procedure (contract \<open>window_procedure\<close>),
    through creation, message loop and destruction: for all messages the system may send, what is left at the end, when the
    process waits, and which messages at which moments lead to the exceptions (\<open>system_ok\<close> only says where the messages
    that begin and end a window come from).  \<open>Runner_Linux\<close> (\<open>my_application.cc\<close>): the same process under GTK.
  \<^item> This theory: HKDF against RFC 5869, and the path of a channel subscriber through the link, the
    distribution and the messages.

  \<^bold>\<open>Bounds and loops.\<close>  Only \<open>WndProc\<close> has a bound, on the depth to which activations of
  the window procedure nest, and two are proved to be enough unless the system sends \<open>WM_CLOSE\<close> to a window being destroyed.  Loops over a counter recurse on the distance left (at most
  1000 skipped keys in a session, 2000 in a group); the reading loops of \<open>Release\<close> recurse on the unread rest
  of the file; parsers of repeated records recurse on the announced count and stop at the first record that
  does not parse.  \<open>Network\<close> bounds the messages waiting for a party by the 1000 keys its session can set aside,
  the messages sent by the range of the 32-bit counters and the draws by the keys known to be different; within
  these bounds a run is as long as one likes.  The step relation of \<open>Deadline\<close> counts the spurious wake-ups of the condition variable that
  are still to come; any finite number is allowed, and the bound on the length of a run depends on it.

  \<^bold>\<open>Not modelled.\<close>  Wiping of local memory other than by \<open>SecureBuffer\<close> and locking of pages (no observable effect on the
  results), timing, exceptions of the C++ allocator (\<open>std::vector\<close> growth is assumed to succeed, \<open>malloc\<close> is not), the
  text the signing tool prints, what GTK, Win32 and the Flutter library do with the requests they get, the generated
  registration of plugins, the tests, the Dart application and the server.
\<close>

section \<open>HKDF\<close>

text \<open>
  C30 (equivalence).  The HKDF the engine writes by hand from HMAC-SHA256 computes RFC 5869: extract with
  the salt, then the concatenation of the blocks T(1), T(2), ... cut to the length asked for.
\<close>

theorem hkdf_computes_rfc5869:
  assumes "sizes_ok L" "hmac_multipart L"
  shows "hkdf_sha256 L salt ikm info n = rfc5869 L salt ikm info n \<and> length (hkdf_sha256 L salt ikm info n) = n"
  using hkdf_sha256_eq [OF assms] length_hkdf_sha256 [OF assms(1)] by simp

theorem hkdf_computes_rfc5869_witness:
  "hkdf_sha256 sample_lib [1] [2] [3] 70 = rfc5869 sample_lib [1] [2] [3] 70 \<and>
   length (hkdf_sha256 sample_lib [1] [2] [3] 70) = 70"
  by (rule hkdf_computes_rfc5869 [OF sample_sizes_ok sample_hmac_multipart])

section \<open>Channels\<close>

text \<open>
  C22 (liveness).  A broadcast channel.  The administrator creates a sender key and seals its distribution
  under the secret of the invitation link; anybody who holds the link opens the sealed bytes, at any later
  time, to exactly that distribution, processes it, and reads any of the (up to 2000) messages the
  administrator then sends, in whatever order they arrive, without ever having had a session with the
  administrator.
\<close>

theorem channel_subscriber_reads:
  assumes L: "sizes_ok L" "aead_ok L" "xaead_ok L" "sign_ok L" "mem_ok L"
    and groups: "wf_groups A" "wf_groups B" "cstr g \<noteq> []" "cstr s \<noteq> []"
    and msgs: "length ps \<le> 2000" "distinct js" "set js \<subseteq> {..<length ps}"
  shows "\<exists>dist A1 e1 sealed e2 B1 posts. zia_sender_key_create L True A g e = (Ok dist, A1, e1) \<and>
    zia_channel_seal_key L True link dist e1 = (Ok sealed, e2) \<and>
    group_send L A1 g ps e2 = map Ok posts \<and>
    (\<forall>f. fst (zia_channel_open_key L True link sealed f) = Ok dist) \<and>
    zia_sender_key_process True B g s dist = (Ok (), B1) \<and>
    (\<forall>f. group_receive L B1 g s (map (\<lambda>j. posts ! j) js) f = map (\<lambda>j. Ok (ps ! j)) js)"
proof -
  obtain dist A1 e1 B1 posts where d: "zia_sender_key_create L True A g e = (Ok dist, A1, e1)"
    "zia_sender_key_process True B g s dist = (Ok (), B1)" "\<forall>e'. group_send L A1 g ps e' = map Ok posts"
    "\<forall>f. group_receive L B1 g s (map (\<lambda>j. posts ! j) js) f = map (\<lambda>j. Ok (ps ! j)) js"
    using group_delivers [OF L(1,2,4,5) groups msgs] by blast
  have ne: "dist \<noteq> []" using d(2) by (auto simp: process_eq kDistributionLen_def kMagicDistribution_def split: if_splits)
  from channel_seal_opens [OF L(1,3,5) ne] d show ?thesis by meson
qed

theorem channel_subscriber_reads_witness:
  "\<exists>dist A1 e1 sealed e2 B1 posts.
     zia_sender_key_create sample_lib True new_ZiaEngine sample_group env0 = (Ok dist, A1, e1) \<and>
     zia_channel_seal_key sample_lib True (replicate 32 8) dist e1 = (Ok sealed, e2) \<and>
     group_send sample_lib A1 sample_group [[10], [11]] e2 = map Ok posts \<and>
     fst (zia_channel_open_key sample_lib True (replicate 32 8) sealed env0) = Ok dist \<and>
     zia_sender_key_process True new_ZiaEngine sample_group sample_member dist = (Ok (), B1) \<and>
     group_receive sample_lib B1 sample_group sample_member [posts ! 1, posts ! 0] env0 = [Ok [11], Ok [10]]"
proof -
  have w: "wf_groups new_ZiaEngine" by (simp add: wf_groups_def new_ZiaEngine_def)
  have n: "cstr sample_group \<noteq> []" "cstr sample_member \<noteq> []" by (simp_all add: sample_names)
  show ?thesis
    using channel_subscriber_reads [OF sample_sizes_ok sample_aead_ok sample_xaead_ok sample_sign_ok sample_mem_ok w w n,
        of "[[10], [11]]" "[1, 0]" env0 "replicate 32 8"] by fastforce
qed

end
